(* ===== verification/Prelude.thy ===== *)
theory Prelude
  imports Complex_Main "HOL-Library.Sublist"
begin

text \<open>
  Shared vocabulary of the development: the exceptions the services throw, the effect type
  of an \<open>async\<close> method (a state transformer that returns or throws), its combinators with
  their Hoare rules, and the pieces of JavaScript's strings the code uses (truthiness,
  \<open>startsWith\<close>, \<open>endsWith\<close>, \<open>includes\<close>, the decimal text of an integer).
\<close>

named_theorems io_simps "unfolding rules of the effect combinators"
named_theorems wp "Hoare rules, applied backwards"
named_theorems keeping "structural rules for kept predicates"

subsection \<open>Exceptions\<close>

text \<open>
  The NestJS exceptions of the services, a plain \<open>Error\<close>, and TypeORM's
  \<open>QueryFailedError\<close> with the driver's code, which \<open>WebhooksService\<close> inspects.
\<close>

datatype exn =
    NotFoundException string
  | BadRequestException string
  | ConflictException string
  | ServiceUnavailableException string
  | JsError string
  | QueryFailedError "string option" string

fun err_message :: "exn \<Rightarrow> string" where
  "err_message (NotFoundException m) = m"
| "err_message (BadRequestException m) = m"
| "err_message (ConflictException m) = m"
| "err_message (ServiceUnavailableException m) = m"
| "err_message (JsError m) = m"
| "err_message (QueryFailedError c m) = m"

text \<open>The exceptions of the database.\<close>

definition db_failure :: "exn \<Rightarrow> bool" where
  "db_failure e \<longleftrightarrow> (case e of QueryFailedError c m \<Rightarrow> True | _ \<Rightarrow> False)"

lemma db_failure_simps [simp]:
  "db_failure (QueryFailedError c m)" "\<not> db_failure (NotFoundException m)"
  "\<not> db_failure (BadRequestException m)" "\<not> db_failure (ConflictException m)"
  "\<not> db_failure (ServiceUnavailableException m)" "\<not> db_failure (JsError m)"
  by (simp_all add: db_failure_def)

subsection \<open>Effects\<close>

text \<open>
  An \<open>async\<close> method is a function of the state: it returns (\<open>Inr\<close>) or throws (\<open>Inl\<close>),
  and in both cases leaves a state behind. \<open>andThen\<close> is \<open>await\<close> followed by the rest
  of the body, \<open>catching\<close> is \<open>try \<dots> catch\<close>.
\<close>

type_synonym ('s, 'a) io = "'s \<Rightarrow> (exn + 'a) \<times> 's"

definition ret :: "'a \<Rightarrow> ('s, 'a) io" where
  "ret x = (\<lambda>s. (Inr x, s))"

definition throw :: "exn \<Rightarrow> ('s, 'a) io" where
  "throw e = (\<lambda>s. (Inl e, s))"

definition andThen :: "('s, 'a) io \<Rightarrow> ('a \<Rightarrow> ('s, 'b) io) \<Rightarrow> ('s, 'b) io" where
  "andThen m f = (\<lambda>s. case m s of (r, s') \<Rightarrow>
     (case r of Inl e \<Rightarrow> (Inl e, s') | Inr x \<Rightarrow> f x s'))"

definition catching :: "('s, 'a) io \<Rightarrow> (exn \<Rightarrow> ('s, 'a) io) \<Rightarrow> ('s, 'a) io" where
  "catching m h = (\<lambda>s. case m s of (r, s') \<Rightarrow>
     (case r of Inl e \<Rightarrow> h e s' | Inr x \<Rightarrow> (Inr x, s')))"

text \<open>The value or exception of a synchronous helper.\<close>

definition from_result :: "exn + 'a \<Rightarrow> ('s, 'a) io" where
  "from_result r = (\<lambda>s. (r, s))"

lemma from_result_apply [simp, io_simps]: "from_result r s = (r, s)"
  by (simp add: from_result_def)

lemma ret_apply [simp, io_simps]: "ret x s = (Inr x, s)"
  by (simp add: ret_def)

lemma throw_apply [simp, io_simps]: "throw e s = (Inl e, s)"
  by (simp add: throw_def)

lemma andThen_ret [simp]: "andThen (ret x) f = f x"
  by (rule ext) (simp add: andThen_def ret_def)

lemma andThen_throw [simp]: "andThen (throw e) f = throw e"
  by (rule ext) (simp add: andThen_def throw_def)

lemma andThen_assoc: "andThen (andThen m f) g = andThen m (\<lambda>x. andThen (f x) g)"
  by (rule ext) (simp add: andThen_def split: prod.splits sum.splits)

lemma andThen_InrD:
  assumes "andThen m f s = (Inr y, s')"
  obtains x s1 where "m s = (Inr x, s1)" and "f x s1 = (Inr y, s')"
  using assms by (auto simp: andThen_def split: prod.splits sum.splits)

lemma andThen_Inr [io_simps]: "m s = (Inr x, s1) \<Longrightarrow> andThen m f s = f x s1"
  by (simp add: andThen_def)

lemma andThen_Inl [io_simps]: "m s = (Inl e, s1) \<Longrightarrow> andThen m f s = (Inl e, s1)"
  by (simp add: andThen_def)

lemma catching_Inr [io_simps]: "m s = (Inr x, s1) \<Longrightarrow> catching m h s = (Inr x, s1)"
  by (simp add: catching_def)

lemma catching_Inl [io_simps]: "m s = (Inl e, s1) \<Longrightarrow> catching m h s = h e s1"
  by (simp add: catching_def)

text \<open>
  \<open>Promise.all\<close>: every element is run, also after one has failed; the result is the list
  of values, or the first failure.
\<close>

fun promise_all :: "('s, 'a) io list \<Rightarrow> ('s, 'a list) io" where
  "promise_all [] s = (Inr [], s)"
| "promise_all (m # ms) s =
     (let (r, s1) = m s; (rs, s2) = promise_all ms s1
      in (case r of Inl e \<Rightarrow> Inl e
          | Inr x \<Rightarrow> (case rs of Inl e \<Rightarrow> Inl e | Inr xs \<Rightarrow> Inr (x # xs)), s2))"

subsection \<open>Hoare triples\<close>

text \<open>
  \<open>hoare P m Q E\<close>: from a state in \<open>P\<close>, \<open>m\<close> either returns a value and state in
  \<open>Q\<close> or throws an exception in a state in \<open>E\<close>. Programs are total functions, so the
  triple is about every run.
\<close>

definition hoare ::
  "('s \<Rightarrow> bool) \<Rightarrow> ('s, 'a) io \<Rightarrow> ('a \<Rightarrow> 's \<Rightarrow> bool) \<Rightarrow> (exn \<Rightarrow> 's \<Rightarrow> bool) \<Rightarrow> bool" where
  "hoare P m Q E \<longleftrightarrow> (\<forall>s. P s \<longrightarrow> (case m s of (r, s') \<Rightarrow>
     (case r of Inl e \<Rightarrow> E e s' | Inr x \<Rightarrow> Q x s')))"

lemma hoareI:
  assumes "\<And>s x s'. P s \<Longrightarrow> m s = (Inr x, s') \<Longrightarrow> Q x s'"
    and "\<And>s e s'. P s \<Longrightarrow> m s = (Inl e, s') \<Longrightarrow> E e s'"
  shows "hoare P m Q E"
  using assms by (fastforce simp: hoare_def split: prod.splits sum.splits)

lemma hoare_InrD: "hoare P m Q E \<Longrightarrow> P s \<Longrightarrow> m s = (Inr x, s') \<Longrightarrow> Q x s'"
  by (auto simp: hoare_def split: prod.splits sum.splits)

lemma hoare_InlD: "hoare P m Q E \<Longrightarrow> P s \<Longrightarrow> m s = (Inl e, s') \<Longrightarrow> E e s'"
  by (auto simp: hoare_def split: prod.splits sum.splits)

lemma hoare_conseq:
  assumes "hoare P' m Q' E'"
    and "\<And>s. P s \<Longrightarrow> P' s" and "\<And>x s. Q' x s \<Longrightarrow> Q x s" and "\<And>e s. E' e s \<Longrightarrow> E e s"
  shows "hoare P m Q E"
  using assms by (fastforce simp: hoare_def split: prod.splits sum.splits)

lemma hoare_pre: "hoare P' m Q E \<Longrightarrow> (\<And>s. P s \<Longrightarrow> P' s) \<Longrightarrow> hoare P m Q E"
  by (erule hoare_conseq) auto

lemma hoare_ret [wp]: "hoare (Q x) (ret x) Q E"
  by (simp add: hoare_def)

lemma hoare_throw [wp]: "hoare (E e) (throw e) Q E"
  by (simp add: hoare_def)

lemma hoare_andThen [wp]:
  assumes "\<And>x. hoare (R x) (f x) Q E" and "hoare P m R E"
  shows "hoare P (andThen m f) Q E"
  using assms by (fastforce simp: hoare_def andThen_def split: prod.splits sum.splits)

lemma hoare_catching [wp]:
  assumes "\<And>e. hoare (R e) (h e) Q E" and "hoare P m Q R"
  shows "hoare P (catching m h) Q E"
  using assms by (fastforce simp: hoare_def catching_def split: prod.splits sum.splits)

lemma hoare_if [wp]:
  assumes "b \<Longrightarrow> hoare P m Q E" and "\<not> b \<Longrightarrow> hoare P' n Q E"
  shows "hoare (\<lambda>s. if b then P s else P' s) (if b then m else n) Q E"
  using assms by (auto simp: hoare_def)

lemma hoare_case_option [wp]:
  assumes "x = None \<Longrightarrow> hoare P m Q E" and "\<And>y. x = Some y \<Longrightarrow> hoare (P' y) (f y) Q E"
  shows "hoare (\<lambda>s. case x of None \<Rightarrow> P s | Some y \<Rightarrow> P' y s)
           (case x of None \<Rightarrow> m | Some y \<Rightarrow> f y) Q E"
  using assms by (cases x) auto

text \<open>A predicate that a computation keeps, whether it returns or throws.\<close>

abbreviation keeps :: "('s \<Rightarrow> bool) \<Rightarrow> ('s, 'a) io \<Rightarrow> bool" where
  "keeps I m \<equiv> hoare I m (\<lambda>_. I) (\<lambda>_. I)"

lemma keepsD: "keeps I m \<Longrightarrow> I s \<Longrightarrow> m s = (r, s') \<Longrightarrow> I s'"
  by (cases r) (auto dest: hoare_InrD hoare_InlD)

lemma keepsI: "(\<And>s r s'. I s \<Longrightarrow> m s = (r, s') \<Longrightarrow> I s') \<Longrightarrow> keeps I m"
  by (rule hoareI) auto

lemma keeps_ret [keeping]: "keeps I (ret x)"
  by (rule keepsI) simp

lemma keeps_throw [keeping]: "keeps I (throw e)"
  by (rule keepsI) simp

lemma keeps_from_result [keeping]: "keeps I (from_result r)"
  by (rule keepsI) simp

lemma keeps_andThen [keeping]:
  "keeps I m \<Longrightarrow> (\<And>x. keeps I (f x)) \<Longrightarrow> keeps I (andThen m f)"
  by (rule hoare_andThen)

lemma keeps_catching [keeping]:
  "keeps I m \<Longrightarrow> (\<And>e. keeps I (h e)) \<Longrightarrow> keeps I (catching m h)"
  by (rule hoare_catching)

lemma keeps_if [keeping]: "keeps I m \<Longrightarrow> keeps I n \<Longrightarrow> keeps I (if b then m else n)"
  by simp

lemma keeps_case_option [keeping]:
  "keeps I m \<Longrightarrow> (\<And>y. keeps I (f y)) \<Longrightarrow> keeps I (case x of None \<Rightarrow> m | Some y \<Rightarrow> f y)"
  by (cases x) auto

lemma keeps_case_list [keeping]:
  "keeps I m \<Longrightarrow> (\<And>y ys. keeps I (f y ys)) \<Longrightarrow> keeps I (case x of [] \<Rightarrow> m | y # ys \<Rightarrow> f y ys)"
  by (cases x) auto

lemma keeps_case_prod [keeping]:
  "(\<And>a b. keeps I (f a b)) \<Longrightarrow> keeps I (case x of (a, b) \<Rightarrow> f a b)"
  by (cases x) auto

lemma keeps_Let [keeping]: "(\<And>y. keeps I (f y)) \<Longrightarrow> keeps I (let y = x in f y)"
  by simp

lemma keeps_promise_all:
  assumes "\<And>m. m \<in> set ms \<Longrightarrow> keeps I m"
  shows "keeps I (promise_all ms)"
  using assms
proof (induction ms)
  case Nil
  show ?case by (rule keepsI) auto
next
  case (Cons m ms)
  have m: "keeps I m" and ms: "keeps I (promise_all ms)"
    using Cons by auto
  show ?case
    by (rule keepsI) (auto simp: Let_def split: prod.splits dest: keepsD [OF m] keepsD [OF ms])
qed

subsection \<open>Strings\<close>

text \<open>\<open>startsWith\<close>, \<open>endsWith\<close>, \<open>includes\<close>; the truth of an optional string and \<open>a || b\<close>.\<close>

definition starts_with :: "string \<Rightarrow> string \<Rightarrow> bool" where
  "starts_with s p = prefix p s"

definition ends_with :: "string \<Rightarrow> string \<Rightarrow> bool" where
  "ends_with s p = suffix p s"

definition str_includes :: "string \<Rightarrow> string \<Rightarrow> bool" where
  "str_includes s p = sublist p s"

fun str_truthy :: "string option \<Rightarrow> bool" where
  "str_truthy None = False"
| "str_truthy (Some s) = (s \<noteq> [])"

definition str_or :: "string option \<Rightarrow> string option \<Rightarrow> string option" where
  "str_or a b = (if str_truthy a then a else b)"

text \<open>
  The decimal text of a natural number, as \<open>toString\<close> gives it for integers up to
  \<open>Number.MAX_SAFE_INTEGER\<close>.
\<close>

definition digit :: "nat \<Rightarrow> char" where
  "digit d = char_of (48 + d)"

fun decimal :: "nat \<Rightarrow> string" where
  "decimal n = (if n < 10 then [digit n] else decimal (n div 10) @ [digit (n mod 10)])"

declare decimal.simps [simp del]

lemma decimal_nonempty [simp]: "decimal n \<noteq> []"
  by (subst decimal.simps) simp

lemma digit_inject:
  assumes "a < 10" "b < 10"
  shows "digit a = digit b \<longleftrightarrow> a = b"
proof
  assume "digit a = digit b"
  then have "(of_char (digit a) :: nat) = of_char (digit b)" by simp
  with assms show "a = b" by (simp add: digit_def of_char_of)
qed simp

lemma digits_unique:
  fixes x :: nat
  assumes "b < 10" "y < 10"
  shows "10 * x + y = 10 * a + b \<longleftrightarrow> a = x \<and> b = y"
proof
  assume eq: "10 * x + y = 10 * a + b"
  have "(10 * x + y) div 10 = x" "(10 * a + b) div 10 = a" using assms by simp_all
  with eq have "a = x" by simp
  with eq show "a = x \<and> b = y" by simp
qed simp

lemma suffix_two: "suffix [a, b] (xs @ [c, d]) \<longleftrightarrow> a = c \<and> b = d"
  by (auto simp: suffix_def)

text \<open>The last two characters of the text are the last two digits of the number.\<close>

lemma ends_with_two_digits:
  assumes "a < 10" "b < 10"
  shows "ends_with (decimal n) [digit a, digit b] \<longleftrightarrow> 10 \<le> n \<and> n mod 100 = 10 * a + b"
proof (cases "n < 10")
  case True
  then have "decimal n = [digit n]" by (subst decimal.simps) simp
  with True show ?thesis by (simp add: ends_with_def suffix_def)
next
  case False
  then have n: "decimal n = decimal (n div 10) @ [digit (n mod 10)]"
    by (subst decimal.simps) simp
  have "\<exists>xs. decimal k = xs @ [digit (k mod 10)]" for k
    by (subst decimal.simps) auto
  then obtain xs where "decimal (n div 10) = xs @ [digit (n div 10 mod 10)]"
    by blast
  with n have "decimal n = xs @ [digit (n div 10 mod 10), digit (n mod 10)]" by simp
  then have "ends_with (decimal n) [digit a, digit b] \<longleftrightarrow> a = n div 10 mod 10 \<and> b = n mod 10"
    using assms by (simp add: ends_with_def suffix_two digit_inject)
  also have "\<dots> \<longleftrightarrow> 10 * (n div 10 mod 10) + n mod 10 = 10 * a + b"
    using digits_unique [OF assms(2), of "n mod 10"] by simp
  also have "10 * (n div 10 mod 10) + n mod 10 = n mod 100"
    using mod_mult2_eq [of n 10 10] by simp
  finally show ?thesis using False by simp
qed

subsection \<open>\<open>Array.prototype.sort\<close>\<close>

text \<open>
  The sort is stable; with a consistent comparator its result is determined, and insertion
  gives it.
\<close>

fun insert_by :: "('a \<Rightarrow> 'a \<Rightarrow> rat) \<Rightarrow> 'a \<Rightarrow> 'a list \<Rightarrow> 'a list" where
  "insert_by cmp x [] = [x]"
| "insert_by cmp x (y # ys) = (if cmp x y \<le> 0 then x # y # ys else y # insert_by cmp x ys)"

definition js_sort :: "('a \<Rightarrow> 'a \<Rightarrow> rat) \<Rightarrow> 'a list \<Rightarrow> 'a list" where
  "js_sort cmp xs = foldr (insert_by cmp) xs []"

lemma js_sort_sort_key:
  fixes key :: "'a \<Rightarrow> 'k :: linorder"
  assumes "\<And>x y. cmp x y \<le> 0 \<longleftrightarrow> key x \<le> key y"
  shows "js_sort cmp xs = sort_key key xs"
proof -
  have ins: "insert_by cmp x ys = insort_key key x ys" for x ys
    by (induction ys) (simp_all add: assms)
  show ?thesis
    by (induction xs) (simp_all add: js_sort_def ins)
qed

end
