(* ===== verification/Enums.thy ===== *)
theory Enums
  imports Prelude
begin

text \<open>
  \<open>src/common/enums/transaction-state.enum.ts\<close>: the lifecycle states of a transaction,
  the allow-list \<open>VALID_TRANSITIONS\<close>, the gateway providers and the circuit states, with
  the shape of the transition graph (ranks, reachability, terminal states).
\<close>

datatype TransactionState =
  INITIATED | ROUTED | PROCESSING | RETRY_PENDING | SUCCESS | FAILED | RECONCILED

datatype GatewayProvider = STRIPE | RAZORPAY | PAYU | UPI

datatype CircuitState = CLOSED | OPEN | HALF_OPEN

fun VALID_TRANSITIONS :: "TransactionState \<Rightarrow> TransactionState list" where
  "VALID_TRANSITIONS INITIATED = [ROUTED]"
| "VALID_TRANSITIONS ROUTED = [PROCESSING]"
| "VALID_TRANSITIONS PROCESSING = [SUCCESS, FAILED, RETRY_PENDING]"
| "VALID_TRANSITIONS RETRY_PENDING = [ROUTED, FAILED]"
| "VALID_TRANSITIONS SUCCESS = [RECONCILED]"
| "VALID_TRANSITIONS FAILED = []"
| "VALID_TRANSITIONS RECONCILED = []"

text \<open>The values of the string enums, as template literals print them.\<close>

fun state_name :: "TransactionState \<Rightarrow> string" where
  "state_name INITIATED = ''INITIATED''"
| "state_name ROUTED = ''ROUTED''"
| "state_name PROCESSING = ''PROCESSING''"
| "state_name RETRY_PENDING = ''RETRY_PENDING''"
| "state_name SUCCESS = ''SUCCESS''"
| "state_name FAILED = ''FAILED''"
| "state_name RECONCILED = ''RECONCILED''"

fun gateway_name :: "GatewayProvider \<Rightarrow> string" where
  "gateway_name STRIPE = ''STRIPE''"
| "gateway_name RAZORPAY = ''RAZORPAY''"
| "gateway_name PAYU = ''PAYU''"
| "gateway_name UPI = ''UPI''"

lemma state_name_inject [simp]: "state_name a = state_name b \<longleftrightarrow> a = b"
  by (cases a; cases b) simp_all

lemma gateway_name_inject [simp]: "gateway_name a = gateway_name b \<longleftrightarrow> a = b"
  by (cases a; cases b) simp_all

lemma UNIV_GatewayProvider: "UNIV = {STRIPE, RAZORPAY, PAYU, UPI}"
  using GatewayProvider.nchotomy by auto

lemma card_GatewayProvider: "card (UNIV :: GatewayProvider set) = 4"
  by (simp add: UNIV_GatewayProvider)

lemma finite_GatewayProvider [simp, intro]: "finite (A :: GatewayProvider set)"
  by (rule finite_subset [OF subset_UNIV]) (simp add: UNIV_GatewayProvider)

lemma distinct_gateways_length: "distinct (gs :: GatewayProvider list) \<Longrightarrow> length gs \<le> 4"
  using card_mono [OF finite_GatewayProvider, of "set gs" UNIV]
  by (simp add: distinct_card card_GatewayProvider)

subsection \<open>The transition graph\<close>

text \<open>One edge of the allow-list, and the paths along it.\<close>

definition can_transition :: "TransactionState \<Rightarrow> TransactionState \<Rightarrow> bool" where
  "can_transition a b \<longleftrightarrow> b \<in> set (VALID_TRANSITIONS a)"

inductive lifecycle :: "TransactionState \<Rightarrow> TransactionState \<Rightarrow> bool" where
  lifecycle_refl: "lifecycle a a"
| lifecycle_step: "lifecycle a b \<Longrightarrow> can_transition b c \<Longrightarrow> lifecycle a c"

inductive_cases lifecycleE: "lifecycle a b"

definition terminal :: "TransactionState \<Rightarrow> bool" where
  "terminal s \<longleftrightarrow> VALID_TRANSITIONS s = []"

lemma terminal_iff: "terminal s \<longleftrightarrow> s = FAILED \<or> s = RECONCILED"
  by (cases s) (simp_all add: terminal_def)

lemma can_transition_iff:
  "can_transition a b \<longleftrightarrow>
     (a, b) \<in> {(INITIATED, ROUTED), (ROUTED, PROCESSING), (PROCESSING, SUCCESS),
       (PROCESSING, FAILED), (PROCESSING, RETRY_PENDING), (RETRY_PENDING, ROUTED),
       (RETRY_PENDING, FAILED), (SUCCESS, RECONCILED)}"
  by (cases a; cases b) (simp_all add: can_transition_def)

lemma can_transition_irrefl [simp]: "\<not> can_transition a a"
  by (cases a) (simp_all add: can_transition_def)

lemma can_transition_to_INITIATED [simp]: "\<not> can_transition a INITIATED"
  by (cases a) (simp_all add: can_transition_def)

lemma lifecycle_from_terminal: "lifecycle a b \<Longrightarrow> terminal a \<Longrightarrow> b = a"
  by (induction rule: lifecycle.induct) (auto simp: terminal_def can_transition_def)

lemma lifecycle_trans: "lifecycle b c \<Longrightarrow> lifecycle a b \<Longrightarrow> lifecycle a c"
  by (induction rule: lifecycle.induct) (auto intro: lifecycle.intros)

text \<open>
  The part of the graph a payment cannot leave again: once \<open>SUCCESS\<close>, only
  \<open>RECONCILED\<close> follows. Money that was captured is never recorded as failed.
\<close>

lemma lifecycle_from_SUCCESS: "lifecycle a b \<Longrightarrow> a = SUCCESS \<Longrightarrow> b = SUCCESS \<or> b = RECONCILED"
  by (induction rule: lifecycle.induct) (auto simp: can_transition_iff)

end
