(* ===== verification/Json.thy ===== *)
theory Json
  imports Prelude "HOL-Library.AList"
begin

text \<open>
  JSON values as the services hold them: webhook payloads and gateway responses are of type
  \<open>any\<close>, and the idempotency cache stores \<open>JSON.stringify\<close> texts. A number is kept as the
  text \<open>Number.prototype.toString\<close> gives it, because the code only prints numbers, passes
  them on and tests them for truth. Characters are bytes: a code unit above 255 is outside
  the model.
\<close>

datatype json =
    JNull
  | JBool bool
  | JNum string
  | JStr string
  | JArr "json list"
  | JObj "(string \<times> json) list"

subsection \<open>Property access, truthiness, conversion to string\<close>

text \<open>
  \<open>None\<close> is \<open>undefined\<close>. \<open>opt_prop k v\<close> is \<open>v?.k\<close>, which is \<open>undefined\<close> when
  \<open>v\<close> is \<open>null\<close> or \<open>undefined\<close>; \<open>get_prop k v\<close> is \<open>v.k\<close>, which throws there.
\<close>

fun opt_prop :: "string \<Rightarrow> json option \<Rightarrow> json option" where
  "opt_prop k (Some (JObj kvs)) = map_of kvs k"
| "opt_prop k v = None"

definition type_error :: "string \<Rightarrow> string \<Rightarrow> exn" where
  "type_error what k =
     JsError (''Cannot read properties of '' @ what @ '' (reading '' @ [CHR 0x27] @ k @ [CHR 0x27] @ '')'')"

fun get_prop :: "string \<Rightarrow> json option \<Rightarrow> exn + json option" where
  "get_prop k None = Inl (type_error ''undefined'' k)"
| "get_prop k (Some JNull) = Inl (type_error ''null'' k)"
| "get_prop k v = Inr (opt_prop k v)"

fun truthy :: "json option \<Rightarrow> bool" where
  "truthy None = False"
| "truthy (Some JNull) = False"
| "truthy (Some (JBool b)) = b"
| "truthy (Some (JNum t)) = (t \<noteq> ''0'' \<and> t \<noteq> ''NaN'')"
| "truthy (Some (JStr s)) = (s \<noteq> '''')"
| "truthy (Some v) = True"

text \<open>\<open>a || b\<close> and \<open>a ?? b\<close>.\<close>

definition js_or :: "json option \<Rightarrow> json option \<Rightarrow> json option" where
  "js_or a b = (if truthy a then a else b)"

fun nullish :: "json option \<Rightarrow> bool" where
  "nullish None = True"
| "nullish (Some JNull) = True"
| "nullish v = False"

definition js_coalesce :: "json option \<Rightarrow> json option \<Rightarrow> json option" where
  "js_coalesce a b = (if nullish a then b else a)"

text \<open>\<open>String(v)\<close>, as a template literal applies it.\<close>

fun js_string :: "json option \<Rightarrow> string" and js_string_elems :: "json list \<Rightarrow> string" where
  "js_string None = ''undefined''"
| "js_string (Some JNull) = ''null''"
| "js_string (Some (JBool b)) = (if b then ''true'' else ''false'')"
| "js_string (Some (JNum t)) = t"
| "js_string (Some (JStr s)) = s"
| "js_string (Some (JArr xs)) = js_string_elems xs"
| "js_string (Some (JObj kvs)) = ''[object Object]''"
| "js_string_elems [] = ''''"
| "js_string_elems (x # xs) =
     (if x = JNull then '''' else js_string (Some x)) @
     (if xs = [] then '''' else '','' @ js_string_elems xs)"

subsection \<open>\<open>JSON.stringify\<close>\<close>

definition hex_digit :: "nat \<Rightarrow> char" where
  "hex_digit d = (if d < 10 then char_of (48 + d) else char_of (87 + d))"

definition quote_char :: "char \<Rightarrow> string" where
  "quote_char c =
     (if c = CHR 0x22 then [CHR 0x5C, CHR 0x22]
      else if c = CHR 0x5C then [CHR 0x5C, CHR 0x5C]
      else if c = CHR 0x08 then [CHR 0x5C, CHR ''b'']
      else if c = CHR 0x0C then [CHR 0x5C, CHR ''f'']
      else if c = CHR 0x0A then [CHR 0x5C, CHR ''n'']
      else if c = CHR 0x0D then [CHR 0x5C, CHR ''r'']
      else if c = CHR 0x09 then [CHR 0x5C, CHR ''t'']
      else if of_char c < (32 :: nat)
        then [CHR 0x5C, CHR ''u'', CHR ''0'', CHR ''0'',
              hex_digit (of_char c div 16), hex_digit (of_char c mod 16)]
      else [c])"

definition quote :: "string \<Rightarrow> string" where
  "quote s = [CHR 0x22] @ concat (map quote_char s) @ [CHR 0x22]"

fun JSON_stringify :: "json \<Rightarrow> string"
  and stringify_elems :: "json list \<Rightarrow> string"
  and stringify_members :: "(string \<times> json) list \<Rightarrow> string" where
  "JSON_stringify JNull = ''null''"
| "JSON_stringify (JBool b) = (if b then ''true'' else ''false'')"
| "JSON_stringify (JNum t) = t"
| "JSON_stringify (JStr s) = quote s"
| "JSON_stringify (JArr xs) = ''['' @ stringify_elems xs @ '']''"
| "JSON_stringify (JObj kvs) = ''{'' @ stringify_members kvs @ ''}''"
| "stringify_elems [] = ''''"
| "stringify_elems (x # xs) =
     JSON_stringify x @ (if xs = [] then '''' else '','' @ stringify_elems xs)"
| "stringify_members [] = ''''"
| "stringify_members ((k, v) # kvs) =
     quote k @ '':'' @ JSON_stringify v @
     (if kvs = [] then '''' else '','' @ stringify_members kvs)"

subsection \<open>\<open>JSON.parse\<close>\<close>

definition is_ws :: "char \<Rightarrow> bool" where
  "is_ws c \<longleftrightarrow> c = CHR 0x20 \<or> c = CHR 0x09 \<or> c = CHR 0x0A \<or> c = CHR 0x0D"

definition skip_ws :: "string \<Rightarrow> string" where
  "skip_ws s = dropWhile is_ws s"

definition num_start :: "char \<Rightarrow> bool" where
  "num_start c \<longleftrightarrow> c = CHR ''-'' \<or> (48 \<le> (of_char c :: nat) \<and> (of_char c :: nat) \<le> 57)"

definition num_char :: "char \<Rightarrow> bool" where
  "num_char c \<longleftrightarrow> num_start c \<or> c = CHR ''+'' \<or> c = CHR ''.'' \<or> c = CHR ''e'' \<or> c = CHR ''E''"

definition unhex_digit :: "char \<Rightarrow> nat option" where
  "unhex_digit c =
     (let n = of_char c in
      if 48 \<le> n \<and> n \<le> 57 then Some (n - 48)
      else if 97 \<le> n \<and> n \<le> 102 then Some (n - 87)
      else if 65 \<le> n \<and> n \<le> 70 then Some (n - 55)
      else None)"

definition unescape :: "char \<Rightarrow> char option" where
  "unescape c =
     (if c = CHR 0x22 \<or> c = CHR 0x5C \<or> c = CHR ''/'' then Some c
      else if c = CHR ''b'' then Some (CHR 0x08)
      else if c = CHR ''f'' then Some (CHR 0x0C)
      else if c = CHR ''n'' then Some (CHR 0x0A)
      else if c = CHR ''r'' then Some (CHR 0x0D)
      else if c = CHR ''t'' then Some (CHR 0x09)
      else None)"

definition unhex_unit :: "char \<Rightarrow> char \<Rightarrow> char \<Rightarrow> char \<Rightarrow> char option" where
  "unhex_unit a b c d =
     (if unhex_digit a = Some 0 \<and> unhex_digit b = Some 0 then
        (case (unhex_digit c, unhex_digit d) of
           (Some m, Some n) \<Rightarrow> Some (char_of (16 * m + n))
         | _ \<Rightarrow> None)
      else None)"

text \<open>The characters of a string literal after its opening quote.\<close>

fun parse_chars :: "string \<Rightarrow> (string \<times> string) option" where
  "parse_chars [] = None"
| "parse_chars (c # cs) =
     (if c = CHR 0x22 then Some ([], cs)
      else if c = CHR 0x5C then
        (case cs of
           [] \<Rightarrow> None
         | e # r \<Rightarrow>
             if e = CHR ''u'' then
               (case r of
                  h1 # h2 # h3 # h4 # r' \<Rightarrow>
                    (case unhex_unit h1 h2 h3 h4 of
                       None \<Rightarrow> None
                     | Some u \<Rightarrow> map_option (apfst (Cons u)) (parse_chars r'))
                | _ \<Rightarrow> None)
             else
               (case unescape e of
                  None \<Rightarrow> None
                | Some u \<Rightarrow> map_option (apfst (Cons u)) (parse_chars r)))
      else if of_char c < (32 :: nat) then None
      else map_option (apfst (Cons c)) (parse_chars cs))"

definition strip :: "string \<Rightarrow> string \<Rightarrow> string option" where
  "strip p s = (if prefix p s then Some (drop (length p) s) else None)"

text \<open>
  The recursive descent, with fuel for the nesting and the length of the lists. A repeated
  key keeps its first position and its last value, as in JavaScript.
\<close>

fun parse_value :: "nat \<Rightarrow> string \<Rightarrow> (json \<times> string) option"
  and parse_elems :: "nat \<Rightarrow> string \<Rightarrow> (json list \<times> string) option"
  and parse_members :: "nat \<Rightarrow> string \<Rightarrow> ((string \<times> json) list \<times> string) option" where
  "parse_value 0 s = None"
| "parse_value (Suc n) s =
     (case skip_ws s of
        [] \<Rightarrow> None
      | c # r \<Rightarrow>
          if c = CHR 0x22 then map_option (apfst JStr) (parse_chars r)
          else if c = CHR ''['' then
            (case strip '']'' (skip_ws r) of
               Some r' \<Rightarrow> Some (JArr [], r')
             | None \<Rightarrow> map_option (apfst JArr) (parse_elems n r))
          else if c = CHR ''{'' then
            (case strip ''}'' (skip_ws r) of
               Some r' \<Rightarrow> Some (JObj [], r')
             | None \<Rightarrow> map_option (apfst (\<lambda>kvs. JObj (foldl (\<lambda>m (k, v). AList.update k v m) [] kvs)))
                         (parse_members n r))
          else if num_start c then
            Some (JNum (takeWhile num_char (c # r)), dropWhile num_char (c # r))
          else (case strip ''null'' (c # r) of Some r' \<Rightarrow> Some (JNull, r') | None \<Rightarrow>
            (case strip ''true'' (c # r) of Some r' \<Rightarrow> Some (JBool True, r') | None \<Rightarrow>
            (case strip ''false'' (c # r) of Some r' \<Rightarrow> Some (JBool False, r') | None \<Rightarrow> None))))"
| "parse_elems 0 s = None"
| "parse_elems (Suc n) s =
     (case parse_value n s of
        None \<Rightarrow> None
      | Some (v, r) \<Rightarrow>
          (case skip_ws r of
             [] \<Rightarrow> None
           | c # r' \<Rightarrow>
               if c = CHR '']'' then Some ([v], r')
               else if c = CHR '','' then map_option (apfst (Cons v)) (parse_elems n r')
               else None))"
| "parse_members 0 s = None"
| "parse_members (Suc n) s =
     (case skip_ws s of
        [] \<Rightarrow> None
      | q # r \<Rightarrow>
          if q \<noteq> CHR 0x22 then None else
          (case parse_chars r of
             None \<Rightarrow> None
           | Some (k, r1) \<Rightarrow>
               (case strip '':'' (skip_ws r1) of
                  None \<Rightarrow> None
                | Some r2 \<Rightarrow>
                    (case parse_value n r2 of
                       None \<Rightarrow> None
                     | Some (v, r3) \<Rightarrow>
                         (case skip_ws r3 of
                            [] \<Rightarrow> None
                          | c # r4 \<Rightarrow>
                              if c = CHR ''}'' then Some ([(k, v)], r4)
                              else if c = CHR '','' then
                                map_option (apfst (Cons (k, v))) (parse_members n r4)
                              else None)))))"

text \<open>Every level and every element of a list consumes a character, so the length is fuel enough.\<close>

definition JSON_parse :: "string \<Rightarrow> json option" where
  "JSON_parse s =
     (case parse_value (Suc (2 * length s)) s of
        Some (v, r) \<Rightarrow> (if skip_ws r = [] then Some v else None)
      | None \<Rightarrow> None)"

subsection \<open>The round trip\<close>

text \<open>
  The values a JSON text can carry: number texts begin like a number and have no other
  characters, and no object has a key twice.
\<close>

fun wf_json :: "json \<Rightarrow> bool" where
  "wf_json (JNum t) = (t \<noteq> [] \<and> num_start (hd t) \<and> list_all num_char t)"
| "wf_json (JArr xs) = list_all wf_json xs"
| "wf_json (JObj kvs) = (distinct (map fst kvs) \<and> list_all (\<lambda>kv. wf_json (snd kv)) kvs)"
| "wf_json v = True"

lemma unhex_hex_digit [simp]: "d < 16 \<Longrightarrow> unhex_digit (hex_digit d) = Some d"
  by (auto simp: hex_digit_def unhex_digit_def Let_def of_char_of)

lemma hex_digit_0 [simp]: "unhex_digit (CHR ''0'') = Some 0"
  by (simp add: unhex_digit_def)

lemma unhex_control: 
  assumes "of_char c < (32 :: nat)"
  shows "unhex_unit (CHR ''0'') (CHR ''0'') (hex_digit (of_char c div 16)) (hex_digit (of_char c mod 16)) = Some c"
proof -
  have "16 * (of_char c div 16) + of_char c mod 16 = (of_char c :: nat)" by simp
  with assms show ?thesis by (simp add: unhex_unit_def)
qed

lemma parse_chars_quote_char:
  "parse_chars (quote_char c @ s) = map_option (apfst (Cons c)) (parse_chars s)"
  by (auto simp: quote_char_def unescape_def unhex_control)

lemma parse_chars_quoted: "parse_chars (concat (map quote_char s) @ CHR 0x22 # r) = Some (s, r)"
proof (induction s)
  case Nil
  then show ?case by simp
next
  case (Cons c s)
  then show ?case by (simp add: parse_chars_quote_char del: parse_chars.simps)
qed

declare parse_chars.simps(2) [simp del]

lemma update_fresh: "k \<notin> fst ` set m \<Longrightarrow> AList.update k v m = m @ [(k, v)]"
  by (induction m) auto

lemma foldl_update_distinct:
  "distinct (map fst (m @ kvs)) \<Longrightarrow> foldl (\<lambda>m (k, v). AList.update k v m) m kvs = m @ kvs"
proof (induction kvs arbitrary: m)
  case (Cons kv kvs)
  then show ?case by (cases kv) (auto simp: update_fresh)
qed simp

text \<open>Fuel that is enough for a value, and what may follow a number text.\<close>

fun need :: "json \<Rightarrow> nat" and needs :: "json list \<Rightarrow> nat" and needm :: "(string \<times> json) list \<Rightarrow> nat" where
  "need (JArr xs) = Suc (needs xs)"
| "need (JObj kvs) = Suc (needm kvs)"
| "need v = 1"
| "needs [] = 0"
| "needs (x # xs) = Suc (max (need x) (needs xs))"
| "needm [] = 0"
| "needm (kv # kvs) = Suc (max (need (snd kv)) (needm kvs))"

definition stop :: "string \<Rightarrow> bool" where
  "stop r \<longleftrightarrow> r = [] \<or> \<not> num_char (hd r)"

lemma stop_simps [simp]: "stop []" "stop (CHR '','' # r)" "stop (CHR '']'' # r)" "stop (CHR ''}'' # r)"
  by (simp_all add: stop_def num_char_def num_start_def)

lemma takeWhile_num:
  assumes "list_all num_char t" "stop r"
  shows "takeWhile num_char (t @ r) = t" "dropWhile num_char (t @ r) = r"
  using assms by (induction t; cases r; simp add: stop_def)+

lemma stringify_first:
  "wf_json j \<Longrightarrow> \<exists>c t. JSON_stringify j = c # t \<and> \<not> is_ws c \<and> c \<noteq> CHR '']'' \<and> c \<noteq> CHR ''}''"
  by (cases j) (auto simp: quote_def is_ws_def num_start_def neq_Nil_conv)


lemma skip_ws_first: "wf_json j \<Longrightarrow> skip_ws (JSON_stringify j @ r) = JSON_stringify j @ r"
  using stringify_first [of j] by (auto simp: skip_ws_def)

lemma skip_ws_id [simp]: "\<not> is_ws c \<Longrightarrow> skip_ws (c # r) = c # r"
  by (simp add: skip_ws_def)

lemma is_ws_simps [simp]:
  "\<not> is_ws (CHR 0x22)" "\<not> is_ws (CHR '','')" "\<not> is_ws (CHR '']'')" "\<not> is_ws (CHR ''}'')"
  "\<not> is_ws (CHR ''['')" "\<not> is_ws (CHR ''{'')" "\<not> is_ws (CHR '':'')"
  "\<not> is_ws (CHR ''n'')" "\<not> is_ws (CHR ''t'')" "\<not> is_ws (CHR ''f'')"
  by (simp_all add: is_ws_def)

lemma num_start_simps [simp]:
  "\<not> num_start (CHR ''n'')" "\<not> num_start (CHR ''t'')" "\<not> num_start (CHR ''f'')"
  "\<not> num_start (CHR 0x22)" "\<not> num_start (CHR ''['')" "\<not> num_start (CHR ''{'')"
  by (simp_all add: num_start_def)

lemma num_start_not_ws: "num_start c \<Longrightarrow> \<not> is_ws c \<and> c \<noteq> CHR 0x22 \<and> c \<noteq> CHR ''['' \<and> c \<noteq> CHR ''{''"
  by (auto simp: num_start_def is_ws_def)

lemma stringify_elems_first:
  "wf_json x \<Longrightarrow> \<exists>c t. stringify_elems (x # xs) = c # t \<and> \<not> is_ws c \<and> c \<noteq> CHR '']''"
  using stringify_first [of x] by auto

lemma parse_stringify:
  "wf_json j \<Longrightarrow> need j \<le> n \<Longrightarrow> stop r \<Longrightarrow> parse_value n (JSON_stringify j @ r) = Some (j, r)"
  "list_all wf_json xs \<Longrightarrow> xs \<noteq> [] \<Longrightarrow> needs xs \<le> n \<Longrightarrow>
     parse_elems n (stringify_elems xs @ CHR '']'' # r) = Some (xs, r)"
  "list_all (\<lambda>kv. wf_json (snd kv)) kvs \<Longrightarrow> kvs \<noteq> [] \<Longrightarrow> needm kvs \<le> n \<Longrightarrow>
     parse_members n (stringify_members kvs @ CHR ''}'' # r) = Some (kvs, r)"
proof (induction j and xs and kvs arbitrary: n r and n r and n r
    rule: JSON_stringify_stringify_elems_stringify_members.induct)
  case 1
  then show ?case by (cases n) (simp_all add: strip_def)
next
  case (2 b)
  then show ?case by (cases n; cases b) (simp_all add: strip_def)
next
  case (3 t)
  then obtain c t' where t: "t = c # t'" and c: "num_start c" by (cases t) auto
  with 3 num_start_not_ws [OF c] show ?case
    using takeWhile_num [of t r] by (cases n) simp_all
next
  case (4 s)
  then show ?case by (cases n) (simp_all add: quote_def parse_chars_quoted)
next
  case (5 xs)
  then obtain n' where n: "n = Suc n'" by (cases n) auto
  show ?case
  proof (cases xs)
    case Nil
    with n show ?thesis by (simp add: strip_def)
  next
    case (Cons x xs')
    with 5 obtain c t where ct: "stringify_elems xs = c # t" "\<not> is_ws c" "c \<noteq> CHR '']''"
      using stringify_elems_first [of x xs'] by auto
    with 5 n Cons show ?thesis by (simp add: strip_def del: stringify_elems.simps)
  qed
next
  case (6 kvs)
  then obtain n' where n: "n = Suc n'" by (cases n) auto
  show ?case
  proof (cases kvs)
    case Nil
    with n show ?thesis by (simp add: strip_def)
  next
    case (Cons kv kvs')
    then obtain t where ct: "stringify_members kvs = CHR 0x22 # t"
      by (cases kv) (simp add: quote_def)
    with 6 n Cons foldl_update_distinct [of "[]" kvs] show ?thesis
      by (simp add: strip_def del: stringify_members.simps)
  qed
next
  case 7
  then show ?case by simp
next
  case (8 x xs)
  then obtain n' where n: "n = Suc n'" by (cases n) auto
  show ?case
  proof (cases xs)
    case Nil
    with 8 n show ?thesis by simp
  next
    case (Cons y ys)
    with 8 n show ?thesis by (simp del: stringify_elems.simps add: stringify_elems.simps(2) [of x "y # ys"])
  qed
next
  case 9
  then show ?case by simp
next
  case (10 k v kvs)
  then obtain n' where n: "n = Suc n'" by (cases n) auto
  show ?case
  proof (cases kvs)
    case Nil
    with 10 n show ?thesis by (simp add: quote_def parse_chars_quoted strip_def)
  next
    case (Cons kv kvs')
    with 10 n show ?thesis
      by (simp del: stringify_members.simps add: stringify_members.simps(2) [of k v "kv # kvs'"] quote_def parse_chars_quoted strip_def)
  qed
qed

lemma need_le_length:
  "wf_json j \<Longrightarrow> need j \<le> length (JSON_stringify j)"
  "list_all wf_json xs \<Longrightarrow> needs xs \<le> Suc (length (stringify_elems xs))"
  "list_all (\<lambda>kv. wf_json (snd kv)) kvs \<Longrightarrow> needm kvs \<le> Suc (length (stringify_members kvs))"
  by (induction j and xs and kvs rule: JSON_stringify_stringify_elems_stringify_members.induct)
    (auto simp: quote_def Suc_le_eq)

text \<open>What was stored is what is read back.\<close>

lemma JSON_parse_stringify: "wf_json j \<Longrightarrow> JSON_parse (JSON_stringify j) = Some j"
  using parse_stringify(1) [of j "Suc (2 * length (JSON_stringify j))" "[]"] need_le_length(1) [of j]
  by (simp add: JSON_parse_def skip_ws_def)

text \<open>A parsed value is well formed.\<close>

lemma wf_update:
  assumes "distinct (map fst m)" "list_all (\<lambda>kv. wf_json (snd kv)) m" "wf_json v"
  shows "distinct (map fst (AList.update k v m)) \<and> list_all (\<lambda>kv. wf_json (snd kv)) (AList.update k v m)"
proof
  show "distinct (map fst (AList.update k v m))" using assms(1) by (rule distinct_update)
  show "list_all (\<lambda>kv. wf_json (snd kv)) (AList.update k v m)"
    using assms(2,3) by (induction m) auto
qed

lemma wf_updates:
  "distinct (map fst m) \<Longrightarrow> list_all (\<lambda>kv. wf_json (snd kv)) m \<Longrightarrow> list_all (\<lambda>kv. wf_json (snd kv)) kvs \<Longrightarrow>
     wf_json (JObj (foldl (\<lambda>m (k, v). AList.update k v m) m kvs))"
proof (induction kvs arbitrary: m)
  case (Cons kv kvs)
  obtain k v where kv: "kv = (k, v)" by fastforce
  with Cons.prems wf_update [of m v k] have "distinct (map fst (AList.update k v m))" "list_all (\<lambda>kv. wf_json (snd kv)) (AList.update k v m)" by auto
  from Cons.IH [OF this] Cons.prems kv show ?case by simp
qed simp

lemma wf_num_prefix: "num_start c \<Longrightarrow> list_all num_char (takeWhile num_char (c # t)) \<and> takeWhile num_char (c # t) \<noteq> [] \<and> num_start (hd (takeWhile num_char (c # t)))"
  by (auto simp: num_char_def [of c] list_all_iff dest: set_takeWhileD)

lemma parse_wf:
  "parse_value n s = Some (j, r) \<Longrightarrow> wf_json j"
  "parse_elems n s = Some (js, r) \<Longrightarrow> list_all wf_json js"
  "parse_members n s = Some (kvs, r) \<Longrightarrow> list_all (\<lambda>kv. wf_json (snd kv)) kvs"
proof (induction n s and n s and n s arbitrary: j r and js r and kvs r rule: parse_value_parse_elems_parse_members.induct)
  case (2 n s)
  show ?case
  proof (cases "skip_ws s")
    case Nil
    with 2 show ?thesis by simp
  next
    case (Cons c t)
    have obj: "wf_json (JObj (foldl (\<lambda>m (k, v). AList.update k v m) [] kvs))"
      if "list_all (\<lambda>kv. wf_json (snd kv)) kvs" for kvs
      using that by (intro wf_updates) simp_all
    show ?thesis
      using 2 Cons wf_num_prefix [of c t]
      by (auto split: if_splits option.splits intro!: obj simp del: wf_json.simps(3) takeWhile.simps) auto
  qed
next
  case (4 n s)
  then show ?case by (auto split: if_splits option.splits list.splits)
next
  case (6 n s)
  then show ?case by (auto split: if_splits option.splits list.splits)
qed simp_all

lemma JSON_parse_wf: "JSON_parse s = Some j \<Longrightarrow> wf_json j"
  by (auto simp: JSON_parse_def simp del: parse_value.simps dest: parse_wf(1) split: option.splits if_splits)

end
