(* ===== verification/Database.thy ===== *)
theory Database
  imports Enums Json "HOL-Library.Multiset"
begin

text \<open>
  The rows of the four tables (the TypeORM entities) and the interface of the database the
  services call. TypeORM and Postgres are not part of the repository: their calls are the
  fields of the record \<open>'d orm\<close> over an abstract database state \<open>'d\<close>, and the locale
  \<open>database\<close> states what the code relies on, as relations on the contents of the tables.
  A call may fail at any time with a \<open>QueryFailedError\<close> that leaves the tables alone.
  Timestamps are kept as the ISO text \<open>Date.prototype.toJSON\<close> gives.
\<close>

type_synonym timestamp = string

subsection \<open>Rows\<close>

text \<open>
  \<open>transactions/entities/transaction.entity.ts\<close>. A value of type \<open>any\<close> that the code
  writes to a column (\<open>gatewayTxnId\<close>, \<open>rawGatewayResponse\<close>) is kept as JSON, with
  \<open>JNull\<close> for SQL's \<open>NULL\<close>.
\<close>

record transaction =
  txnId :: string
  idempotencyKey :: string
  merchantId :: string
  amount :: nat
  currency :: string
  currentState :: TransactionState
  selectedGateway :: "GatewayProvider option"
  gatewayTxnId :: json
  fallbackGateways :: "GatewayProvider list"
  attemptCount :: nat
  createdAt :: timestamp
  updatedAt :: timestamp
  finalReconciledAt :: "timestamp option"

text \<open>\<open>transactions/entities/audit-log.entity.ts\<close>.\<close>

record audit_log =
  auditId :: string
  transactionId :: string
  fromState :: "TransactionState option"
  toState :: TransactionState
  auditGateway :: "GatewayProvider option"
  reason :: "string option"
  rawGatewayResponse :: json
  auditCreatedAt :: timestamp

text \<open>\<open>gateways/entities/gateway-stats.entity.ts\<close>.\<close>

record gateway_stats =
  gateway :: GatewayProvider
  successCount :: nat
  failureCount :: nat
  avgLatencyMs :: int
  costBps :: int
  circuitState :: CircuitState
  consecutiveFailures :: nat
  statsUpdatedAt :: timestamp

text \<open>\<open>webhooks/entities/webhook-event.entity.ts\<close>.\<close>

record webhook_event =
  eventRecordId :: string
  eventGateway :: GatewayProvider
  eventId :: string
  eventType :: string
  payload :: json
  signatureVerified :: bool
  processed :: bool
  processedAt :: "timestamp option"
  receivedAt :: timestamp

text \<open>
  What \<open>repository.create\<close> is given: the columns without the generated ones (id,
  timestamps) and without those the code leaves to their defaults.
\<close>

record new_transaction =
  new_idempotencyKey :: string
  new_merchantId :: string
  new_amount :: nat
  new_currency :: string
  new_currentState :: TransactionState
  new_selectedGateway :: "GatewayProvider option"
  new_fallbackGateways :: "GatewayProvider list"

record new_audit =
  new_transactionId :: string
  new_fromState :: "TransactionState option"
  new_toState :: TransactionState
  new_auditGateway :: "GatewayProvider option"
  new_reason :: "string option"
  new_rawGatewayResponse :: json

record new_event =
  new_eventGateway :: GatewayProvider
  new_eventId :: string
  new_eventType :: string
  new_payload :: json
  new_signatureVerified :: bool
  new_processed :: bool

text \<open>The contents of the database.\<close>

record tables =
  transactions :: "transaction list"
  audit :: "audit_log list"
  stats :: "gateway_stats list"
  events :: "webhook_event list"

subsection \<open>The calls\<close>

record 'd orm =
  findTxnById :: "string \<Rightarrow> ('d, transaction option) io"
  findTxnByKey :: "string \<Rightarrow> ('d, transaction option) io"
  findTxnByGatewayOrKey :: "json \<Rightarrow> string \<Rightarrow> ('d, transaction option) io"
  insertTxn :: "new_transaction \<Rightarrow> ('d, transaction) io"
  saveTxn :: "transaction \<Rightarrow> ('d, transaction) io"
  insertAudit :: "new_audit \<Rightarrow> ('d, audit_log) io"
  findAudit :: "string \<Rightarrow> ('d, audit_log list) io"
  findStats :: "('d, gateway_stats list) io"
  findStatsOf :: "GatewayProvider \<Rightarrow> ('d, gateway_stats option) io"
  saveStats :: "gateway_stats \<Rightarrow> ('d, gateway_stats) io"
  insertEvent :: "new_event \<Rightarrow> ('d, webhook_event) io"
  findEvent :: "string \<Rightarrow> ('d, webhook_event option) io"
  saveEvent :: "webhook_event \<Rightarrow> ('d, webhook_event) io"
  inTransaction :: "('d, transaction) io \<Rightarrow> ('d, transaction) io"

subsection \<open>What the calls do to the tables\<close>

definition txn_by_id :: "tables \<Rightarrow> string \<Rightarrow> transaction option" where
  "txn_by_id T i = find (\<lambda>t. txnId t = i) (transactions T)"

definition txn_by_key :: "tables \<Rightarrow> string \<Rightarrow> transaction option" where
  "txn_by_key T k = find (\<lambda>t. idempotencyKey t = k) (transactions T)"

definition stats_of :: "tables \<Rightarrow> GatewayProvider \<Rightarrow> gateway_stats option" where
  "stats_of T g = find (\<lambda>s. gateway s = g) (stats T)"

definition event_by_id :: "tables \<Rightarrow> string \<Rightarrow> webhook_event option" where
  "event_by_id T i = find (\<lambda>e. eventRecordId e = i) (events T)"

definition trail :: "tables \<Rightarrow> string \<Rightarrow> audit_log list" where
  "trail T i = filter (\<lambda>a. transactionId a = i) (audit T)"

text \<open>Overwriting the row with the same primary key.\<close>

definition put_txn :: "transaction \<Rightarrow> tables \<Rightarrow> tables" where
  "put_txn t T = T\<lparr>transactions := map (\<lambda>r. if txnId r = txnId t then t else r) (transactions T)\<rparr>"

text \<open>The statistics are keyed by the gateway, so saving a row without a predecessor inserts it.\<close>

definition put_stats :: "gateway_stats \<Rightarrow> tables \<Rightarrow> tables" where
  "put_stats s T = T\<lparr>stats :=
     (if stats_of T (gateway s) = None then stats T @ [s]
      else map (\<lambda>r. if gateway r = gateway s then s else r) (stats T))\<rparr>"

definition put_event :: "webhook_event \<Rightarrow> tables \<Rightarrow> tables" where
  "put_event e T = T\<lparr>events := map (\<lambda>r. if eventRecordId r = eventRecordId e then e else r) (events T)\<rparr>"

text \<open>The rows an insert builds: the given columns, the defaults, the generated columns.\<close>

definition txn_row :: "new_transaction \<Rightarrow> string \<Rightarrow> timestamp \<Rightarrow> timestamp \<Rightarrow> transaction" where
  "txn_row n i c u =
     \<lparr>txnId = i, idempotencyKey = new_idempotencyKey n, merchantId = new_merchantId n,
      amount = new_amount n, currency = new_currency n, currentState = new_currentState n,
      selectedGateway = new_selectedGateway n, gatewayTxnId = JNull,
      fallbackGateways = new_fallbackGateways n, attemptCount = 0, createdAt = c, updatedAt = u,
      finalReconciledAt = None\<rparr>"

definition audit_row :: "new_audit \<Rightarrow> string \<Rightarrow> timestamp \<Rightarrow> audit_log" where
  "audit_row n i c =
     \<lparr>auditId = i, transactionId = new_transactionId n, fromState = new_fromState n,
      toState = new_toState n, auditGateway = new_auditGateway n, reason = new_reason n,
      rawGatewayResponse = new_rawGatewayResponse n, auditCreatedAt = c\<rparr>"

definition event_row :: "new_event \<Rightarrow> string \<Rightarrow> timestamp \<Rightarrow> webhook_event" where
  "event_row n i c =
     \<lparr>eventRecordId = i, eventGateway = new_eventGateway n, eventId = new_eventId n,
      eventType = new_eventType n, payload = new_payload n,
      signatureVerified = new_signatureVerified n, processed = new_processed n,
      processedAt = None, receivedAt = c\<rparr>"

definition event_key_used :: "tables \<Rightarrow> GatewayProvider \<Rightarrow> string \<Rightarrow> bool" where
  "event_key_used T g k \<longleftrightarrow> (\<exists>e \<in> set (events T). eventGateway e = g \<and> eventId e = k)"

text \<open>
  \<open>implements tabs m W\<close>: whenever \<open>m\<close> returns, the tables before, the value and the
  tables after are in \<open>W\<close>; whenever it fails, the tables are as before.
\<close>

definition implements ::
  "('d \<Rightarrow> tables) \<Rightarrow> ('d, 'a) io \<Rightarrow> (tables \<Rightarrow> 'a \<Rightarrow> tables \<Rightarrow> bool) \<Rightarrow> bool" where
  "implements tabs m W \<longleftrightarrow>
     (\<forall>d r d'. m d = (r, d') \<longrightarrow>
        (case r of Inl e \<Rightarrow> db_failure e \<and> tabs d' = tabs d | Inr x \<Rightarrow> W (tabs d) x (tabs d')))"

lemma implementsD:
  assumes "implements tabs m W" "m d = (Inr x, d')"
  shows "W (tabs d) x (tabs d')"
  using assms by (fastforce simp: implements_def)

lemma implements_failD:
  assumes "implements tabs m W" "m d = (Inl e, d')"
  shows "db_failure e" "tabs d' = tabs d"
  using assms by (fastforce simp: implements_def)+

locale database =
  fixes D :: "'d orm" and tabs :: "'d \<Rightarrow> tables"
  assumes findTxnById:
      "implements tabs (findTxnById D i) (\<lambda>T x T'. T' = T \<and> x = txn_by_id T i)"
    and findTxnByKey:
      "implements tabs (findTxnByKey D k) (\<lambda>T x T'. T' = T \<and> x = txn_by_key T k)"
    and findTxnByGatewayOrKey:
      "implements tabs (findTxnByGatewayOrKey D j k) (\<lambda>T x T'. T' = T \<and>
         (case x of
            None \<Rightarrow> \<forall>t \<in> set (transactions T). idempotencyKey t \<noteq> k \<and>
                      (\<forall>s. j = JStr s \<longrightarrow> gatewayTxnId t \<noteq> j)
          | Some t \<Rightarrow> t \<in> set (transactions T) \<and>
                      (\<forall>s. j = JStr s \<longrightarrow> gatewayTxnId t = j \<or> idempotencyKey t = k)))"
    and insertTxn:
      "implements tabs (insertTxn D nt) (\<lambda>T t T'.
         txn_by_key T (new_idempotencyKey nt) = None \<and> txn_by_id T (txnId t) = None \<and>
         trail T (txnId t) = [] \<and> (\<exists>i c u. t = txn_row nt i c u) \<and>
         T' = T\<lparr>transactions := transactions T @ [t]\<rparr>)"
    and saveTxn:
      "implements tabs (saveTxn D txn) (\<lambda>T t' T'. (\<exists>u. t' = txn\<lparr>updatedAt := u\<rparr>) \<and>
         (txn_by_id T (txnId txn) \<noteq> None \<longrightarrow> T' = put_txn t' T))"
    and insertAudit:
      "implements tabs (insertAudit D na) (\<lambda>T x T'. (\<exists>i c. x = audit_row na i c) \<and>
         T' = T\<lparr>audit := audit T @ [x]\<rparr>)"
    and findAudit:
      "implements tabs (findAudit D i) (\<lambda>T x T'. T' = T \<and> mset x = mset (trail T i))"
    and findStats:
      "implements tabs (findStats D) (\<lambda>T x T'. T' = T \<and> mset x = mset (stats T))"
    and findStatsOf:
      "implements tabs (findStatsOf D gp) (\<lambda>T x T'. T' = T \<and> x = stats_of T gp)"
    and saveStats:
      "implements tabs (saveStats D st) (\<lambda>T s' T'. (\<exists>u. s' = st\<lparr>statsUpdatedAt := u\<rparr>) \<and>
         T' = put_stats s' T)"
    and insertEvent:
      "implements tabs (insertEvent D ne) (\<lambda>T e T'.
         \<not> event_key_used T (new_eventGateway ne) (new_eventId ne) \<and>
         event_by_id T (eventRecordId e) = None \<and> (\<exists>i c. e = event_row ne i c) \<and>
         T' = T\<lparr>events := events T @ [e]\<rparr>)"
    and insertEvent_unique:
      "insertEvent D ne d = (Inl (QueryFailedError (Some ''23505'') m), d') \<Longrightarrow>
         event_key_used (tabs d) (new_eventGateway ne) (new_eventId ne)"
    and findEvent:
      "implements tabs (findEvent D i) (\<lambda>T x T'. T' = T \<and> x = event_by_id T i)"
    and saveEvent:
      "implements tabs (saveEvent D ev) (\<lambda>T e' T'. e' = ev \<and>
         (event_by_id T (eventRecordId ev) \<noteq> None \<longrightarrow> T' = put_event ev T))"
    and inTransaction_ok:
      "inTransaction D cb d = (Inr t, d') \<Longrightarrow>
         \<exists>d0 d1. tabs d0 = tabs d \<and> cb d0 = (Inr t, d1) \<and> tabs d' = tabs d1"
    and inTransaction_fail:
      "inTransaction D cb d = (Inl err, d') \<Longrightarrow>
         tabs d' = tabs d \<and> (db_failure err \<or> (\<exists>d0 d1. tabs d0 = tabs d \<and> cb d0 = (Inl err, d1)))"

subsection \<open>Lookups after updates\<close>

lemma find_SomeD: "find P xs = Some x \<Longrightarrow> P x \<and> x \<in> set xs"
  by (induction xs) (auto split: if_splits)

lemma find_append: "find P (xs @ ys) = (case find P xs of None \<Rightarrow> find P ys | Some x \<Rightarrow> Some x)"
  by (induction xs) auto

lemma find_map_same:
  "(\<And>r. P (f r) = P r) \<Longrightarrow> find P (map f xs) = map_option f (find P xs)"
  by (induction xs) auto

lemma txn_by_id_id: "txn_by_id T i = Some t \<Longrightarrow> txnId t = i"
  by (auto simp: txn_by_id_def dest: find_SomeD)

lemma txn_by_id_in: "txn_by_id T i = Some t \<Longrightarrow> t \<in> set (transactions T)"
  by (auto simp: txn_by_id_def dest: find_SomeD)

lemma txn_by_key_key: "txn_by_key T k = Some t \<Longrightarrow> idempotencyKey t = k"
  by (auto simp: txn_by_key_def dest: find_SomeD)

lemma txn_by_id_put_txn:
  "txn_by_id (put_txn t T) i =
     (if i = txnId t then map_option (\<lambda>_. t) (txn_by_id T i) else txn_by_id T i)"
proof -
  have "txn_by_id (put_txn t T) i = map_option (\<lambda>r. if txnId r = txnId t then t else r) (txn_by_id T i)"
    unfolding txn_by_id_def put_txn_def by (simp add: find_map_same)
  then show ?thesis
    by (cases "txn_by_id T i") (auto dest: txn_by_id_id)
qed

lemma txn_by_key_put_txn:
  assumes "txn_by_id T (txnId t) = Some t0" "idempotencyKey t = idempotencyKey t0"
    and "distinct (map txnId (transactions T))"
  shows "txn_by_key (put_txn t T) k =
     map_option (\<lambda>r. if txnId r = txnId t then t else r) (txn_by_key T k)"
proof -
  have "idempotencyKey r = idempotencyKey t" if "r \<in> set (transactions T)" "txnId r = txnId t" for r
  proof -
    have "r = t0"
      using that assms(1,3) txn_by_id_in [OF assms(1)] txn_by_id_id [OF assms(1)]
      by (auto simp: distinct_map inj_on_def)
    then show ?thesis by (simp add: assms(2))
  qed
  then have "find (\<lambda>r. idempotencyKey r = k) (map (\<lambda>r. if txnId r = txnId t then t else r) xs) =
      map_option (\<lambda>r. if txnId r = txnId t then t else r) (find (\<lambda>r. idempotencyKey r = k) xs)"
    if "set xs \<subseteq> set (transactions T)" for xs
    using that by (induction xs) auto
  then show ?thesis by (simp add: txn_by_key_def put_txn_def)
qed

lemma put_txn_fields [simp]:
  "audit (put_txn t T) = audit T" "stats (put_txn t T) = stats T" "events (put_txn t T) = events T"
  "trail (put_txn t T) i = trail T i"
  by (simp_all add: put_txn_def trail_def)

lemma put_stats_fields [simp]:
  "audit (put_stats s T) = audit T" "transactions (put_stats s T) = transactions T"
  "events (put_stats s T) = events T" "trail (put_stats s T) i = trail T i"
  "txn_by_id (put_stats s T) i = txn_by_id T i" "txn_by_key (put_stats s T) k = txn_by_key T k"
  by (simp_all add: put_stats_def trail_def txn_by_id_def txn_by_key_def)

lemma put_event_fields [simp]:
  "audit (put_event s T) = audit T" "transactions (put_event s T) = transactions T"
  "stats (put_event s T) = stats T" "trail (put_event s T) i = trail T i"
  "txn_by_id (put_event s T) i = txn_by_id T i" "txn_by_key (put_event s T) k = txn_by_key T k"
  by (simp_all add: put_event_def trail_def txn_by_id_def txn_by_key_def)

lemma event_by_id_id: "event_by_id T i = Some e \<Longrightarrow> eventRecordId e = i"
  by (auto simp: event_by_id_def dest: find_SomeD)

lemma event_by_id_put_event:
  "event_by_id (put_event e T) i =
     (if i = eventRecordId e then map_option (\<lambda>_. e) (event_by_id T i) else event_by_id T i)"
proof -
  have "event_by_id (put_event e T) i = map_option (\<lambda>r. if eventRecordId r = eventRecordId e then e else r) (event_by_id T i)"
    unfolding event_by_id_def put_event_def by (simp add: find_map_same)
  then show ?thesis by (cases "event_by_id T i") (auto dest: event_by_id_id)
qed

lemma event_by_id_cong: "events T' = events T \<Longrightarrow> event_by_id T' i = event_by_id T i"
  by (simp add: event_by_id_def)

lemma stats_of_gateway: "stats_of T g = Some s \<Longrightarrow> gateway s = g"
  by (auto simp: stats_of_def dest: find_SomeD)

lemma stats_of_put_stats [simp]:
  "stats_of (put_stats s T) g = (if g = gateway s then Some s else stats_of T g)"
proof (cases "stats_of T (gateway s)")
  case None
  then show ?thesis by (auto simp: stats_of_def put_stats_def find_append split: option.splits)
next
  case (Some r)
  then have "stats_of (put_stats s T) g = map_option (\<lambda>r. if gateway r = gateway s then s else r) (stats_of T g)"
    unfolding stats_of_def put_stats_def by (simp add: find_map_same)
  with Some show ?thesis
    by (cases "stats_of T g") (auto dest: stats_of_gateway)
qed

text \<open>Everything but the statistics.\<close>

definition payments :: "tables \<Rightarrow> transaction list \<times> audit_log list \<times> webhook_event list" where
  "payments T = (transactions T, audit T, events T)"

lemma payments_put_stats [simp]: "payments (put_stats s T) = payments T"
  by (simp add: payments_def)

lemma payments_eqD:
  assumes "payments T' = payments T"
  shows "transactions T' = transactions T" "audit T' = audit T" "events T' = events T"
    "txn_by_id T' i = txn_by_id T i" "txn_by_key T' k = txn_by_key T k" "trail T' i = trail T i"
  using assms by (simp_all add: payments_def txn_by_id_def txn_by_key_def trail_def)

end
