(* ===== verification/Schema.thy ===== *)
theory Schema
  imports Database
begin

text \<open>
  \<open>src/database/migrations/1751600000000-InitSchema.ts\<close>: the four tables with their primary
  keys, unique indexes, defaults and seed rows, as an executable database. It provides the
  interface \<open>database\<close> and instantiates the database parameter in the witnesses. A fault
  counter lets a run lose its database after a number of calls.
\<close>

record schema_db =
  contents :: tables
  faults :: "nat option"

definition guarded :: "(schema_db, 'a) io \<Rightarrow> (schema_db, 'a) io" where
  "guarded m = (\<lambda>d. case faults d of
     None \<Rightarrow> m d
   | Some 0 \<Rightarrow> (Inl (QueryFailedError None ''Connection terminated''), d)
   | Some (Suc n) \<Rightarrow> m (d\<lparr>faults := Some n\<rparr>))"

definition reading :: "(tables \<Rightarrow> 'a) \<Rightarrow> (schema_db, 'a) io" where
  "reading f = guarded (\<lambda>d. (Inr (f (contents d)), d))"

definition writing :: "(tables \<Rightarrow> exn + 'a \<times> tables) \<Rightarrow> (schema_db, 'a) io" where
  "writing f = guarded (\<lambda>d. case f (contents d) of
     Inl e \<Rightarrow> (Inl e, d)
   | Inr (x, T) \<Rightarrow> (Inr x, d\<lparr>contents := T\<rparr>))"

text \<open>\<open>gen_random_uuid()\<close> only has to differ from the ids in use; \<open>now()\<close> is a constant.\<close>

definition gen_random_uuid :: "string list \<Rightarrow> string" where
  "gen_random_uuid used = replicate (Suc (foldr (\<lambda>s n. max (length s) n) used 0)) (CHR ''u'')"

definition now :: timestamp where
  "now = ''2025-07-04T00:00:00.000Z''"

definition unique_violation :: "string \<Rightarrow> exn" where
  "unique_violation index = QueryFailedError (Some ''23505'')
     (''duplicate key value violates unique constraint '' @ [CHR 0x22] @ index @ [CHR 0x22])"

text \<open>\<open>CREATE TABLE transactions\<close> and its unique index.\<close>

definition schema_insert_txn :: "new_transaction \<Rightarrow> tables \<Rightarrow> exn + transaction \<times> tables" where
  "schema_insert_txn n T =
     (if new_idempotencyKey n \<in> set (map idempotencyKey (transactions T))
      then Inl (unique_violation ''idx_transactions_idempotency_key'')
      else let t = txn_row n (gen_random_uuid (map txnId (transactions T) @ map transactionId (audit T))) now now
           in Inr (t, T\<lparr>transactions := transactions T @ [t]\<rparr>))"

text \<open>\<open>CREATE TABLE audit_log\<close>.\<close>

definition schema_insert_audit :: "new_audit \<Rightarrow> tables \<Rightarrow> exn + audit_log \<times> tables" where
  "schema_insert_audit n T =
     (let a = audit_row n (gen_random_uuid (map auditId (audit T))) now
      in Inr (a, T\<lparr>audit := audit T @ [a]\<rparr>))"

text \<open>\<open>CREATE TABLE webhook_events\<close> and its unique index.\<close>

definition schema_insert_event :: "new_event \<Rightarrow> tables \<Rightarrow> exn + webhook_event \<times> tables" where
  "schema_insert_event n T =
     (if (new_eventGateway n, new_eventId n) \<in> set (map (\<lambda>e. (eventGateway e, eventId e)) (events T))
      then Inl (unique_violation ''idx_webhook_events_gateway_event_id'')
      else let e = event_row n (gen_random_uuid (map eventRecordId (events T))) now
           in Inr (e, T\<lparr>events := events T @ [e]\<rparr>))"

definition find_gateway_or_key :: "json \<Rightarrow> string \<Rightarrow> tables \<Rightarrow> transaction option" where
  "find_gateway_or_key j k T =
     find (\<lambda>t. j \<noteq> JNull \<and> gatewayTxnId t = j \<or> idempotencyKey t = k) (transactions T)"

definition schema_orm :: "schema_db orm" where
  "schema_orm =
     \<lparr>findTxnById = (\<lambda>i. reading (\<lambda>T. txn_by_id T i)),
      findTxnByKey = (\<lambda>k. reading (\<lambda>T. txn_by_key T k)),
      findTxnByGatewayOrKey = (\<lambda>j k. reading (find_gateway_or_key j k)),
      insertTxn = (\<lambda>n. writing (schema_insert_txn n)),
      saveTxn = (\<lambda>t. writing (\<lambda>T. Inr (t, put_txn t T))),
      insertAudit = (\<lambda>n. writing (schema_insert_audit n)),
      findAudit = (\<lambda>i. reading (\<lambda>T. trail T i)),
      findStats = reading stats,
      findStatsOf = (\<lambda>g. reading (\<lambda>T. stats_of T g)),
      saveStats = (\<lambda>s. writing (\<lambda>T. Inr (s, put_stats s T))),
      insertEvent = (\<lambda>n. writing (schema_insert_event n)),
      findEvent = (\<lambda>i. reading (\<lambda>T. event_by_id T i)),
      saveEvent = (\<lambda>e. writing (\<lambda>T. Inr (e, put_event e T))),
      inTransaction = (\<lambda>cb d. case cb d of
         (Inl e, d1) \<Rightarrow> (Inl e, d1\<lparr>contents := contents d\<rparr>)
       | (Inr x, d1) \<Rightarrow> (Inr x, d1))\<rparr>"

text \<open>\<open>InitSchema.up\<close>: four empty tables but for the seeded gateways.\<close>

definition seed_stats :: "GatewayProvider \<Rightarrow> int \<Rightarrow> gateway_stats" where
  "seed_stats g c = \<lparr>gateway = g, successCount = 0, failureCount = 0, avgLatencyMs = 0, costBps = c,
     circuitState = CLOSED, consecutiveFailures = 0, statsUpdatedAt = now\<rparr>"

definition InitSchema_up :: tables where
  "InitSchema_up = \<lparr>transactions = [], audit = [],
     stats = [seed_stats STRIPE 290, seed_stats RAZORPAY 200, seed_stats PAYU 190, seed_stats UPI 50],
     events = []\<rparr>"

definition fresh_db :: schema_db where
  "fresh_db = \<lparr>contents = InitSchema_up, faults = None\<rparr>"

subsection \<open>The schema provides the interface\<close>

lemma reading_implements:
  "(\<And>T. W T (f T) T) \<Longrightarrow> implements contents (reading f) W"
  by (auto simp: implements_def reading_def guarded_def split: option.splits nat.splits)

lemma writing_implements:
  assumes "\<And>T e. f T = Inl e \<Longrightarrow> db_failure e"
    and "\<And>T x T'. f T = Inr (x, T') \<Longrightarrow> W T x T'"
  shows "implements contents (writing f) W"
  using assms
  by (auto simp: implements_def writing_def guarded_def split: option.splits nat.splits sum.splits prod.splits)

lemma length_le_foldr_max: "s \<in> set used \<Longrightarrow> length s \<le> foldr (\<lambda>s n. max (length s) n) used 0"
  by (induction used) auto

lemma gen_random_uuid_fresh: "gen_random_uuid used \<notin> set used"
proof
  assume "gen_random_uuid used \<in> set used"
  from length_le_foldr_max [OF this] show False by (simp add: gen_random_uuid_def)
qed

lemma find_None_iff': "find P xs = None \<longleftrightarrow> (\<forall>x \<in> set xs. \<not> P x)"
  by (induction xs) auto

lemma schema_insert_txn_fail: "schema_insert_txn n T = Inl e \<Longrightarrow> db_failure e"
  by (auto simp: schema_insert_txn_def unique_violation_def Let_def split: if_splits)

lemma schema_insert_event_fail: "schema_insert_event n T = Inl e \<Longrightarrow> db_failure e"
  by (auto simp: schema_insert_event_def unique_violation_def Let_def split: if_splits)

lemma schema_insert_txn_law:
  assumes "schema_insert_txn n T = Inr (t, T')"
  shows "txn_by_key T (new_idempotencyKey n) = None \<and> txn_by_id T (txnId t) = None \<and>
    trail T (txnId t) = [] \<and> (\<exists>i c u. t = txn_row n i c u) \<and> T' = T\<lparr>transactions := transactions T @ [t]\<rparr>"
proof -
  define i where "i = gen_random_uuid (map txnId (transactions T) @ map transactionId (audit T))"
  have fresh: "i \<notin> txnId ` set (transactions T)" "i \<notin> transactionId ` set (audit T)"
    using gen_random_uuid_fresh [of "map txnId (transactions T) @ map transactionId (audit T)"]
    by (simp_all add: i_def)
  from assms have key: "new_idempotencyKey n \<notin> idempotencyKey ` set (transactions T)"
    and t: "t = txn_row n i now now" and T': "T' = T\<lparr>transactions := transactions T @ [t]\<rparr>"
    by (auto simp: schema_insert_txn_def Let_def i_def split: if_splits)
  have "txnId t = i" by (simp add: t txn_row_def)
  moreover have "trail T i = []" "txn_by_id T i = None" "txn_by_key T (new_idempotencyKey n) = None"
    using fresh key by (auto simp: txn_by_key_def txn_by_id_def trail_def find_None_iff' filter_empty_conv image_iff)
  ultimately show ?thesis using t T' by auto
qed

lemma schema_insert_event_law:
  assumes "schema_insert_event n T = Inr (e, T')"
  shows "\<not> event_key_used T (new_eventGateway n) (new_eventId n) \<and> event_by_id T (eventRecordId e) = None \<and>
    (\<exists>i c. e = event_row n i c) \<and> T' = T\<lparr>events := events T @ [e]\<rparr>"
  using assms gen_random_uuid_fresh [of "map eventRecordId (events T)"]
  by (auto simp: schema_insert_event_def Let_def event_key_used_def event_by_id_def find_None_iff'
      event_row_def image_iff split: if_splits)

lemma find_gateway_or_key_law:
  "case find_gateway_or_key j k T of
     None \<Rightarrow> \<forall>t \<in> set (transactions T). idempotencyKey t \<noteq> k \<and> (\<forall>s. j = JStr s \<longrightarrow> gatewayTxnId t \<noteq> j)
   | Some t \<Rightarrow> t \<in> set (transactions T) \<and> (\<forall>s. j = JStr s \<longrightarrow> gatewayTxnId t = j \<or> idempotencyKey t = k)"
  by (auto simp: find_gateway_or_key_def find_None_iff' dest: find_SomeD split: option.splits)

interpretation schema: database schema_orm contents
proof unfold_locales
  fix i k j gp
  show "implements contents (findTxnById schema_orm i) (\<lambda>T x T'. T' = T \<and> x = txn_by_id T i)"
    and "implements contents (findTxnByKey schema_orm k) (\<lambda>T x T'. T' = T \<and> x = txn_by_key T k)"
    and "implements contents (findAudit schema_orm i) (\<lambda>T x T'. T' = T \<and> mset x = mset (trail T i))"
    and "implements contents (findStats schema_orm) (\<lambda>T x T'. T' = T \<and> mset x = mset (stats T))"
    and "implements contents (findStatsOf schema_orm gp) (\<lambda>T x T'. T' = T \<and> x = stats_of T gp)"
    and "implements contents (findEvent schema_orm i) (\<lambda>T x T'. T' = T \<and> x = event_by_id T i)"
    by (simp_all add: schema_orm_def reading_implements)
  show "implements contents (findTxnByGatewayOrKey schema_orm j k) (\<lambda>T x T'. T' = T \<and>
      (case x of
         None \<Rightarrow> \<forall>t \<in> set (transactions T). idempotencyKey t \<noteq> k \<and> (\<forall>s. j = JStr s \<longrightarrow> gatewayTxnId t \<noteq> j)
       | Some t \<Rightarrow> t \<in> set (transactions T) \<and> (\<forall>s. j = JStr s \<longrightarrow> gatewayTxnId t = j \<or> idempotencyKey t = k)))"
    using find_gateway_or_key_law [where j = j and k = k] by (auto simp: schema_orm_def intro!: reading_implements)
next
  fix nt txn na st ne ev
  show "implements contents (insertTxn schema_orm nt) (\<lambda>T t T'.
      txn_by_key T (new_idempotencyKey nt) = None \<and> txn_by_id T (txnId t) = None \<and>
      trail T (txnId t) = [] \<and> (\<exists>i c u. t = txn_row nt i c u) \<and>
      T' = T\<lparr>transactions := transactions T @ [t]\<rparr>)"
    unfolding schema_orm_def orm.simps
    by (rule writing_implements) (erule schema_insert_txn_fail, erule schema_insert_txn_law)
  show "implements contents (saveTxn schema_orm txn) (\<lambda>T t' T'. (\<exists>u. t' = txn\<lparr>updatedAt := u\<rparr>) \<and>
      (txn_by_id T (txnId txn) \<noteq> None \<longrightarrow> T' = put_txn t' T))"
    unfolding schema_orm_def orm.simps
    by (rule writing_implements) (auto intro: exI [of _ "updatedAt txn"])
  show "implements contents (insertAudit schema_orm na) (\<lambda>T x T'. (\<exists>i c. x = audit_row na i c) \<and>
      T' = T\<lparr>audit := audit T @ [x]\<rparr>)"
    unfolding schema_orm_def orm.simps
    by (rule writing_implements) (auto simp: schema_insert_audit_def Let_def)
  show "implements contents (saveStats schema_orm st) (\<lambda>T s' T'. (\<exists>u. s' = st\<lparr>statsUpdatedAt := u\<rparr>) \<and>
      T' = put_stats s' T)"
    unfolding schema_orm_def orm.simps
    by (rule writing_implements) (auto intro: exI [of _ "statsUpdatedAt st"])
  show "implements contents (insertEvent schema_orm ne) (\<lambda>T e T'.
      \<not> event_key_used T (new_eventGateway ne) (new_eventId ne) \<and>
      event_by_id T (eventRecordId e) = None \<and> (\<exists>i c. e = event_row ne i c) \<and>
      T' = T\<lparr>events := events T @ [e]\<rparr>)"
    unfolding schema_orm_def orm.simps
    by (rule writing_implements) (erule schema_insert_event_fail, erule schema_insert_event_law)
  show "implements contents (saveEvent schema_orm ev) (\<lambda>T e' T'. e' = ev \<and>
      (event_by_id T (eventRecordId ev) \<noteq> None \<longrightarrow> T' = put_event ev T))"
    unfolding schema_orm_def orm.simps
    by (rule writing_implements) auto
next
  fix ne d m d'
  assume "insertEvent schema_orm ne d = (Inl (QueryFailedError (Some ''23505'') m), d')"
  then show "event_key_used (contents d) (new_eventGateway ne) (new_eventId ne)"
    by (auto simp: schema_orm_def writing_def guarded_def schema_insert_event_def event_key_used_def
        Let_def split: option.splits nat.splits if_splits)
next
  fix cb d t d'
  assume "inTransaction schema_orm cb d = (Inr t, d')"
  then show "\<exists>d0 d1. contents d0 = contents d \<and> cb d0 = (Inr t, d1) \<and> contents d' = contents d1"
    by (auto simp: schema_orm_def split: prod.splits sum.splits)
next
  fix cb d err d'
  assume "inTransaction schema_orm cb d = (Inl err, d')"
  then show "contents d' = contents d \<and>
      (db_failure err \<or> (\<exists>d0 d1. contents d0 = contents d \<and> cb d0 = (Inl err, d1)))"
    by (auto simp: schema_orm_def split: prod.splits sum.splits)
qed

end
