(* ===== verification/StateMachine.thy ===== *)
theory StateMachine
  imports Schema
begin

text \<open>
  \<open>src/transactions/state-machine.service.ts\<close>: the one place that moves a transaction to a
  new state. \<open>transition\<close> is the whole method; \<open>transitioned\<close> and \<open>transition_refusal\<close>
  say what it promises in terms of the tables, \<open>well_kept\<close> is the invariant of the
  \<open>transactions\<close> and \<open>audit_log\<close> tables, and the locale \<open>transition_service\<close> is what the
  callers (the payment flow, the webhook worker) rely on.
\<close>

subsection \<open>The method\<close>

text \<open>
  The optional \<open>metadata\<close> argument. The outer option is \<open>undefined\<close>, the inner one and
  \<open>JNull\<close> are \<open>null\<close>; for \<open>reason\<close> the code treats the two alike. A call without
  metadata behaves as one with every field undefined.
\<close>

record metadata =
  m_gateway :: "GatewayProvider option option"
  m_gatewayTxnId :: "json option"
  m_reason :: "string option"
  m_rawGatewayResponse :: "json option"
  m_incrementAttempt :: bool

definition no_metadata :: metadata where
  "no_metadata = \<lparr>m_gateway = None, m_gatewayTxnId = None, m_reason = None,
     m_rawGatewayResponse = None, m_incrementAttempt = False\<rparr>"

text \<open>Step 3 of the method: the mutation of the row.\<close>

definition apply_transition ::
  "timestamp \<Rightarrow> TransactionState \<Rightarrow> metadata \<Rightarrow> transaction \<Rightarrow> transaction" where
  "apply_transition clock toS m t =
     (let t1 = t\<lparr>currentState := toS\<rparr>;
          t2 = (case m_gateway m of None \<Rightarrow> t1 | Some g \<Rightarrow> t1\<lparr>selectedGateway := g\<rparr>);
          t3 = (case m_gatewayTxnId m of None \<Rightarrow> t2 | Some j \<Rightarrow> t2\<lparr>gatewayTxnId := j\<rparr>);
          t4 = (if m_incrementAttempt m then t3\<lparr>attemptCount := attemptCount t3 + 1\<rparr> else t3)
      in if toS = RECONCILED then t4\<lparr>finalReconciledAt := Some clock\<rparr> else t4)"

text \<open>Step 5: the audit entry, with \<open>??\<close> falling back on the saved row.\<close>

definition transition_audit :: "transaction \<Rightarrow> TransactionState \<Rightarrow> TransactionState \<Rightarrow> metadata \<Rightarrow> new_audit" where
  "transition_audit updated fromS toS m =
     \<lparr>new_transactionId = txnId updated, new_fromState = Some fromS, new_toState = toS,
      new_auditGateway = (case m_gateway m of Some (Some g) \<Rightarrow> Some g | _ \<Rightarrow> selectedGateway updated),
      new_reason = m_reason m,
      new_rawGatewayResponse = (case m_rawGatewayResponse m of None \<Rightarrow> JNull | Some j \<Rightarrow> j)\<rparr>"

definition not_found :: "string \<Rightarrow> exn" where
  "not_found i = NotFoundException (''Transaction with ID '' @ i @ '' not found'')"

definition invalid_transition :: "TransactionState \<Rightarrow> TransactionState \<Rightarrow> exn" where
  "invalid_transition fromS toS = BadRequestException
     (''Invalid state transition: cannot transition from '' @ state_name fromS @ '' to '' @ state_name toS)"

definition transition ::
  "'d orm \<Rightarrow> timestamp \<Rightarrow> string \<Rightarrow> TransactionState \<Rightarrow> metadata \<Rightarrow> ('d, transaction) io" where
  "transition D clock i toS m = inTransaction D
     (andThen (findTxnById D i) (\<lambda>found. case found of
        None \<Rightarrow> throw (not_found i)
      | Some t \<Rightarrow>
          let fromS = currentState t in
          if toS \<notin> set (VALID_TRANSITIONS fromS) then throw (invalid_transition fromS toS)
          else andThen (saveTxn D (apply_transition clock toS m t)) (\<lambda>updated.
               andThen (insertAudit D (transition_audit updated fromS toS m)) (\<lambda>_.
               ret updated))))"

lemma apply_transition_fields [simp]:
  "txnId (apply_transition c s m t) = txnId t"
  "idempotencyKey (apply_transition c s m t) = idempotencyKey t"
  "currentState (apply_transition c s m t) = s"
  "amount (apply_transition c s m t) = amount t"
  "merchantId (apply_transition c s m t) = merchantId t"
  "currency (apply_transition c s m t) = currency t"
  "createdAt (apply_transition c s m t) = createdAt t"
  "fallbackGateways (apply_transition c s m t) = fallbackGateways t"
  "attemptCount (apply_transition c s m t) = attemptCount t + (if m_incrementAttempt m then 1 else 0)"
  "finalReconciledAt (apply_transition c s m t) = (if s = RECONCILED then Some c else finalReconciledAt t)"
  "selectedGateway (apply_transition c s m t) =
     (case m_gateway m of None \<Rightarrow> selectedGateway t | Some g \<Rightarrow> g)"
  "gatewayTxnId (apply_transition c s m t) =
     (case m_gatewayTxnId m of None \<Rightarrow> gatewayTxnId t | Some j \<Rightarrow> j)"
  by (simp_all add: apply_transition_def Let_def split: option.splits)

subsection \<open>What it promises\<close>

text \<open>
  A successful call moves the row along an edge of the allow-list, overwrites it and appends
  one audit entry; nothing else changes.
\<close>

definition transitioned ::
  "timestamp \<Rightarrow> string \<Rightarrow> TransactionState \<Rightarrow> metadata \<Rightarrow> tables \<Rightarrow> transaction \<Rightarrow> tables \<Rightarrow> bool" where
  "transitioned clock i toS m T t' T' \<longleftrightarrow>
     (\<exists>t u ai ac. txn_by_id T i = Some t \<and> can_transition (currentState t) toS \<and>
        t' = (apply_transition clock toS m t)\<lparr>updatedAt := u\<rparr> \<and>
        T' = (put_txn t' T)\<lparr>audit := audit T @ [audit_row (transition_audit t' (currentState t) toS m) ai ac]\<rparr>)"

text \<open>The exception a refused call throws, if the tables refuse it.\<close>

definition transition_refusal :: "tables \<Rightarrow> string \<Rightarrow> TransactionState \<Rightarrow> exn option" where
  "transition_refusal T i toS = (case txn_by_id T i of
     None \<Rightarrow> Some (not_found i)
   | Some t \<Rightarrow> if can_transition (currentState t) toS then None
               else Some (invalid_transition (currentState t) toS))"

lemma not_found_not_db [simp]: "\<not> db_failure (not_found i)"
  by (simp add: not_found_def)

lemma invalid_transition_not_db [simp]: "\<not> db_failure (invalid_transition a b)"
  by (simp add: invalid_transition_def)

text \<open>The interface: \<open>move\<close> either transitions or fails and leaves the tables alone.\<close>

locale transition_service =
  fixes tabs :: "'d \<Rightarrow> tables"
    and move :: "timestamp \<Rightarrow> string \<Rightarrow> TransactionState \<Rightarrow> metadata \<Rightarrow> ('d, transaction) io"
  assumes move_ok: "move c i s m d = (Inr t', d') \<Longrightarrow> transitioned c i s m (tabs d) t' (tabs d')"
    and move_fail: "move c i s m d = (Inl e, d') \<Longrightarrow>
          tabs d' = tabs d \<and> (db_failure e \<or> transition_refusal (tabs d) i s = Some e)"
    and move_refused: "transition_refusal (tabs d) i s = Some e \<Longrightarrow>
          \<exists>e' d'. move c i s m d = (Inl e', d')"

context database
begin

lemma transition_transitions:
  assumes "transition D c i s m d = (Inr t', d')"
  shows "transitioned c i s m (tabs d) t' (tabs d')"
proof -
  obtain d0 d1 where d0: "tabs d0 = tabs d" and d1: "tabs d' = tabs d1"
    and body: "andThen (findTxnById D i) (\<lambda>found. case found of
        None \<Rightarrow> throw (not_found i)
      | Some t \<Rightarrow> let fromS = currentState t in
          if s \<notin> set (VALID_TRANSITIONS fromS) then throw (invalid_transition fromS s)
          else andThen (saveTxn D (apply_transition c s m t)) (\<lambda>updated.
               andThen (insertAudit D (transition_audit updated fromS s m)) (\<lambda>_. ret updated)))
        d0 = (Inr t', d1)"
    using inTransaction_ok [OF assms [unfolded transition_def]] by blast
  then obtain t d2 where f: "findTxnById D i d0 = (Inr (Some t), d2)"
    and ok: "s \<in> set (VALID_TRANSITIONS (currentState t))"
    and rest: "andThen (saveTxn D (apply_transition c s m t)) (\<lambda>updated.
        andThen (insertAudit D (transition_audit updated (currentState t) s m)) (\<lambda>_. ret updated)) d2 = (Inr t', d1)"
    by (auto elim!: andThen_InrD simp: Let_def split: option.splits if_splits)
  from rest obtain x d3 where sv: "saveTxn D (apply_transition c s m t) d2 = (Inr t', d3)"
    and au: "insertAudit D (transition_audit t' (currentState t) s m) d3 = (Inr x, d1)"
    by (auto elim!: andThen_InrD)
  from implementsD [OF findTxnById f] d0 have T2: "tabs d2 = tabs d" and t: "txn_by_id (tabs d) i = Some t"
    by auto
  from implementsD [OF saveTxn sv] T2 t obtain u where t': "t' = (apply_transition c s m t)\<lparr>updatedAt := u\<rparr>"
    and T3: "tabs d3 = put_txn t' (tabs d)"
    by (auto dest: txn_by_id_id)
  from implementsD [OF insertAudit au] T3 obtain ai ac where
    "tabs d1 = (put_txn t' (tabs d))\<lparr>audit := audit (tabs d) @ [audit_row (transition_audit t' (currentState t) s m) ai ac]\<rparr>"
    by auto
  with t t' ok d1 show ?thesis
    unfolding transitioned_def can_transition_def
    by (intro exI [of _ t] exI [of _ u] exI [of _ ai] exI [of _ ac]) simp
qed

lemma transition_fails:
  assumes "transition D c i s m d = (Inl e, d')"
  shows "tabs d' = tabs d \<and> (db_failure e \<or> transition_refusal (tabs d) i s = Some e)"
proof -
  from inTransaction_fail [OF assms [unfolded transition_def]] have T: "tabs d' = tabs d" by blast
  have "transition_refusal (tabs d) i s = Some e" if "\<not> db_failure e"
  proof -
    from inTransaction_fail [OF assms [unfolded transition_def]] that
    obtain d0 d1 where d0: "tabs d0 = tabs d"
      and body: "andThen (findTxnById D i) (\<lambda>found. case found of
          None \<Rightarrow> throw (not_found i)
        | Some t \<Rightarrow> let fromS = currentState t in
            if s \<notin> set (VALID_TRANSITIONS fromS) then throw (invalid_transition fromS s)
            else andThen (saveTxn D (apply_transition c s m t)) (\<lambda>updated.
                 andThen (insertAudit D (transition_audit updated fromS s m)) (\<lambda>_. ret updated)))
          d0 = (Inl e, d1)" by blast
    obtain r d2 where f: "findTxnById D i d0 = (r, d2)" by fastforce
    have "r \<noteq> Inl e'" for e'
      using body that f implements_failD(1) [OF findTxnById, of i d0 e' d2] by (auto simp: andThen_Inl)
    then obtain x where r: "r = Inr x" by (cases r) auto
    with f d0 have x: "x = txn_by_id (tabs d) i"
      using implementsD [OF findTxnById] by fastforce
    show ?thesis
    proof (cases x)
      case None
      with body f r x show ?thesis by (auto simp: andThen_def transition_refusal_def)
    next
      case (Some t)
      have "s \<notin> set (VALID_TRANSITIONS (currentState t))"
      proof
        assume "s \<in> set (VALID_TRANSITIONS (currentState t))"
        with body f r Some have "andThen (saveTxn D (apply_transition c s m t)) (\<lambda>updated.
            andThen (insertAudit D (transition_audit updated (currentState t) s m)) (\<lambda>_. ret updated)) d2 = (Inl e, d1)"
          by (simp add: andThen_Inr Let_def)
        with that show False
          by (auto simp: andThen_def split: prod.splits sum.splits
              dest: implements_failD [OF saveTxn] implements_failD [OF insertAudit])
      qed
      moreover from Some x r have "r = Inr (Some t)" and "txn_by_id (tabs d) i = Some t" by simp_all
      ultimately show ?thesis
        using body f by (auto simp: andThen_Inr Let_def transition_refusal_def can_transition_def)
    qed
  qed
  with T show ?thesis by blast
qed

lemma transition_refused:
  assumes "transition_refusal (tabs d) i s = Some e"
  shows "\<exists>e' d'. transition D c i s m d = (Inl e', d')"
proof -
  obtain r d' where tr: "transition D c i s m d = (r, d')" by fastforce
  then show ?thesis
  proof (cases r)
    case (Inr t')
    with tr transition_transitions have "transitioned c i s m (tabs d) t' (tabs d')" by blast
    with assms show ?thesis by (auto simp: transitioned_def transition_refusal_def)
  qed auto
qed

end

sublocale database \<subseteq> sm: transition_service tabs "transition D"
  by unfold_locales (rule transition_transitions transition_fails transition_refused; assumption)+

subsection \<open>The invariant of the transaction and audit tables\<close>

text \<open>
  The audit entries of a transaction form a path: each starts where the one before ended, and
  every step is on the allow-list. The first entry is the creation (from \<open>null\<close> to
  \<open>INITIATED\<close>); a row whose creation entry is missing starts at \<open>INITIATED\<close>.
\<close>

definition legal_entry :: "TransactionState option \<Rightarrow> audit_log \<Rightarrow> bool" where
  "legal_entry s a \<longleftrightarrow> fromState a = s \<and>
     (case s of None \<Rightarrow> toState a = INITIATED | Some x \<Rightarrow> can_transition x (toState a))"

fun chain :: "TransactionState option \<Rightarrow> audit_log list \<Rightarrow> bool" where
  "chain s [] = True"
| "chain s (a # as) = (legal_entry s a \<and> chain (Some (toState a)) as)"

fun chain_end :: "TransactionState option \<Rightarrow> audit_log list \<Rightarrow> TransactionState option" where
  "chain_end s [] = s"
| "chain_end s (a # as) = chain_end (Some (toState a)) as"

lemma chain_append: "chain s (as @ bs) \<longleftrightarrow> chain s as \<and> chain (chain_end s as) bs"
  by (induction as arbitrary: s) auto

lemma chain_end_append: "chain_end s (as @ bs) = chain_end (chain_end s as) bs"
  by (induction as arbitrary: s) auto

lemma chain_end_nonempty: "as \<noteq> [] \<Longrightarrow> chain_end s as = Some (toState (last as))"
  by (induction as arbitrary: s) auto

lemma chain_lifecycle:
  "chain (Some a) as \<Longrightarrow> chain_end (Some a) as = Some b \<Longrightarrow> lifecycle a b"
proof (induction as arbitrary: a)
  case Nil
  then show ?case by (simp add: lifecycle_refl)
next
  case (Cons e as)
  then have "lifecycle (toState e) b" "can_transition a (toState e)"
    by (auto simp: legal_entry_def)
  then show ?case
    by (meson lifecycle_refl lifecycle_step lifecycle_trans)
qed

text \<open>How often a gateway was called, according to the audit entries.\<close>

definition processing_entries :: "audit_log list \<Rightarrow> nat" where
  "processing_entries as = length (filter (\<lambda>a. toState a = PROCESSING) as)"

definition kept_txn :: "audit_log list \<Rightarrow> transaction \<Rightarrow> bool" where
  "kept_txn as t \<longleftrightarrow>
     (\<exists>s \<in> {None, Some INITIATED}. chain s as \<and> (as \<noteq> [] \<or> s = Some INITIATED) \<and>
        chain_end s as = Some (currentState t)) \<and>
     (finalReconciledAt t \<noteq> None \<longleftrightarrow> currentState t = RECONCILED)"

definition well_kept :: "tables \<Rightarrow> bool" where
  "well_kept T \<longleftrightarrow> distinct (map txnId (transactions T)) \<and>
     distinct (map idempotencyKey (transactions T)) \<and>
     (\<forall>t \<in> set (transactions T). kept_txn (trail T (txnId t)) t)"

definition attempts_logged :: "tables \<Rightarrow> bool" where
  "attempts_logged T \<longleftrightarrow>
     (\<forall>t \<in> set (transactions T). attemptCount t = processing_entries (trail T (txnId t)))"

lemma map_put_txn:
  "(\<And>t0. t0 \<in> set (transactions T) \<Longrightarrow> txnId t0 = txnId t \<Longrightarrow> f t0 = f t) \<Longrightarrow>
     map f (transactions (put_txn t T)) = map f (transactions T)"
  by (auto simp: put_txn_def)

lemma set_put_txn:
  "set (transactions (put_txn t T)) \<subseteq> insert t (set (transactions T) - {r. txnId r = txnId t})"
  by (auto simp: put_txn_def)

lemma trail_append [simp]:
  "trail (T\<lparr>audit := audit T @ [a]\<rparr>) i = trail T i @ (if transactionId a = i then [a] else [])"
  by (simp add: trail_def)

lemma put_txn_audit_commute [simp]:
  "transactions ((put_txn t T)\<lparr>audit := as\<rparr>) = transactions (put_txn t T)"
  by simp

text \<open>The pieces of a successful call, as an elimination rule.\<close>

lemma transitionedE:
  assumes "transitioned c i s m T t' T'"
  obtains t u ai ac where "txn_by_id T i = Some t" "t \<in> set (transactions T)" "txnId t = i" "txnId t' = i"
    "can_transition (currentState t) s" "t' = (apply_transition c s m t)\<lparr>updatedAt := u\<rparr>"
    "transactions T' = transactions (put_txn t' T)"
    "audit T' = audit T @ [audit_row (transition_audit t' (currentState t) s m) ai ac]"
    "stats T' = stats T" "events T' = events T"
    "\<And>j. trail T' j = trail T j @
       (if j = i then [audit_row (transition_audit t' (currentState t) s m) ai ac] else [])"
proof -
  from assms obtain t u ai ac where t: "txn_by_id T i = Some t" "can_transition (currentState t) s"
      "t' = (apply_transition c s m t)\<lparr>updatedAt := u\<rparr>"
    and T': "T' = (put_txn t' T)\<lparr>audit := audit T @ [audit_row (transition_audit t' (currentState t) s m) ai ac]\<rparr>"
    by (auto simp: transitioned_def)
  have i: "txnId t = i" "txnId t' = i" using t by (auto dest: txn_by_id_id)
  have "trail T' j = trail T j @
      (if j = i then [audit_row (transition_audit t' (currentState t) s m) ai ac] else [])" for j
    using i by (auto simp: T' trail_def audit_row_def transition_audit_def)
  with t i T' txn_by_id_in [OF t(1)] show thesis
    by (intro that [of t u ai ac]) simp_all
qed

lemma transitioned_state:
  "transitioned c i s m T t' T' \<Longrightarrow> currentState t' = s \<and> txnId t' = i"
  by (auto elim!: transitionedE)

text \<open>The keys of the table stay the same.\<close>

lemma transitioned_columns:
  assumes tr: "transitioned c i s m T t' T'" and d: "distinct (map txnId (transactions T))"
  shows "map txnId (transactions T') = map txnId (transactions T) \<and>
    map idempotencyKey (transactions T') = map idempotencyKey (transactions T)"
proof -
  from tr obtain t u where t: "t \<in> set (transactions T)" "txnId t = i" "txnId t' = i"
      "t' = (apply_transition c s m t)\<lparr>updatedAt := u\<rparr>"
    and T': "transactions T' = transactions (put_txn t' T)"
    by (rule transitionedE) blast
  have "idempotencyKey r = idempotencyKey t'" if "r \<in> set (transactions T)" "txnId r = txnId t'" for r
  proof -
    have "r = t" using that t d by (auto simp: distinct_map inj_on_def)
    then show ?thesis by (simp add: t(4))
  qed
  then show ?thesis unfolding T' by (auto intro!: map_put_txn simp: t(3))
qed

text \<open>A successful call keeps the invariant.\<close>

lemma transitioned_well_kept:
  assumes tr: "transitioned c i s m T t' T'" and wk: "well_kept T"
  shows "well_kept T'"
proof -
  from tr obtain t u ai ac where
    t: "txn_by_id T i = Some t" "t \<in> set (transactions T)" "txnId t = i" "txnId t' = i"
      "can_transition (currentState t) s" "t' = (apply_transition c s m t)\<lparr>updatedAt := u\<rparr>"
    and T': "transactions T' = transactions (put_txn t' T)"
      "\<And>j. trail T' j = trail T j @
         (if j = i then [audit_row (transition_audit t' (currentState t) s m) ai ac] else [])"
    by (rule transitionedE) blast
  from wk have d: "distinct (map txnId (transactions T))" "distinct (map idempotencyKey (transactions T))"
    and k: "\<And>r. r \<in> set (transactions T) \<Longrightarrow> kept_txn (trail T (txnId r)) r"
    by (auto simp: well_kept_def)
  have uniq: "r = t" if "r \<in> set (transactions T)" "txnId r = i" for r
    using that t d(1) by (auto simp: distinct_map inj_on_def)
  note transitioned_columns [OF tr d(1)]
  moreover have "kept_txn (trail T' (txnId r)) r" if r: "r \<in> set (transactions T')" for r
  proof (cases "r = t'")
    case True
    let ?a = "audit_row (transition_audit t' (currentState t) s m) ai ac"
    from k [OF t(2)] t(3) obtain s0 where s0: "s0 \<in> {None, Some INITIATED}" "chain s0 (trail T i)"
        "chain_end s0 (trail T i) = Some (currentState t)"
      and f: "finalReconciledAt t \<noteq> None \<longleftrightarrow> currentState t = RECONCILED"
      by (auto simp: kept_txn_def)
    have "chain s0 (trail T i @ [?a])" "chain_end s0 (trail T i @ [?a]) = Some s"
      using s0 t(5) by (simp_all add: chain_append chain_end_append legal_entry_def audit_row_def transition_audit_def)
    moreover have "finalReconciledAt t' \<noteq> None \<longleftrightarrow> s = RECONCILED"
      using f t(5,6) by (auto simp: can_transition_iff)
    ultimately show ?thesis
      using s0(1) t(4,6) T'(2) [of i] True by (auto simp: kept_txn_def)
  next
    case False
    with r set_put_txn [of t' T] t(4) have "r \<in> set (transactions T)" "txnId r \<noteq> i"
      by (auto simp: T'(1))
    with k [of r] T'(2) [of "txnId r"] show ?thesis by simp
  qed
  ultimately show ?thesis using d by (simp add: well_kept_def)
qed

lemma transitioned_attempts_logged:
  assumes tr: "transitioned c i s m T t' T'" and al: "attempts_logged T"
    and inc: "m_incrementAttempt m \<longleftrightarrow> s = PROCESSING"
  shows "attempts_logged T'"
  unfolding attempts_logged_def
proof
  fix r assume r: "r \<in> set (transactions T')"
  from tr obtain t u ai ac where
    t: "t \<in> set (transactions T)" "txnId t = i" "txnId t' = i"
      "t' = (apply_transition c s m t)\<lparr>updatedAt := u\<rparr>"
    and T': "transactions T' = transactions (put_txn t' T)"
      "\<And>j. trail T' j = trail T j @
         (if j = i then [audit_row (transition_audit t' (currentState t) s m) ai ac] else [])"
    by (rule transitionedE) blast
  show "attemptCount r = processing_entries (trail T' (txnId r))"
  proof (cases "r = t'")
    case True
    with al t T'(2) [of i] inc show ?thesis
      by (auto simp: attempts_logged_def processing_entries_def audit_row_def transition_audit_def)
  next
    case False
    with r set_put_txn [of t' T] t(3) have "r \<in> set (transactions T)" "txnId r \<noteq> i"
      by (auto simp: T'(1))
    with al T'(2) [of "txnId r"] show ?thesis by (simp add: attempts_logged_def)
  qed
qed

text \<open>The state of every row moves along the lifecycle.\<close>

lemma transitioned_by_id:
  assumes tr: "transitioned c i s m T t' T'"
  shows "txn_by_id T' j = (if j = i then Some t' else txn_by_id T j)"
proof -
  from tr obtain t where "txn_by_id T i = Some t" "txnId t' = i"
    "transactions T' = transactions (put_txn t' T)"
    by (rule transitionedE) blast
  then show ?thesis
    using txn_by_id_put_txn [of t' T j] by (simp add: txn_by_id_def)
qed

lemma transitioned_lifecycle:
  assumes tr: "transitioned c i s m T t' T'" and r: "txn_by_id T j = Some r"
  shows "\<exists>r'. txn_by_id T' j = Some r' \<and> lifecycle (currentState r) (currentState r')"
proof -
  from tr obtain t u where "txn_by_id T i = Some t" "can_transition (currentState t) s"
    "t' = (apply_transition c s m t)\<lparr>updatedAt := u\<rparr>"
    by (rule transitionedE) blast
  with r show ?thesis
    by (auto simp: transitioned_by_id [OF tr] intro: lifecycle.intros)
qed

end
