(* ===== verification/RedisService.thy ===== *)
theory RedisService
  imports Prelude
begin

text \<open>
  \<open>src/redis/redis.service.ts\<close>: the key-value service with its in-memory fallback. The
  \<open>ioredis\<close> client is not part of the repository; its commands are the fields of
  \<open>'r redis_client\<close> over an abstract server state, and the locale \<open>redis_server\<close> states
  what they do. The service itself (mode flag, \<open>mockStore\<close>, fallback on errors) is
  concrete; it provides the interface \<open>kv_service\<close> its callers rely on.
\<close>

subsection \<open>The client\<close>

datatype set_mode = NX | XX
text \<open>The duration modes \<open>'EX'\<close> and \<open>'PX'\<close> (\<open>EX\<close> alone is a quantifier here).\<close>

datatype duration_mode = EX_seconds | PX_millis

text \<open>
  \<open>client_set\<close> takes the optional mode and the optional time to live in milliseconds; it
  returns whether the reply was \<open>OK\<close>.
\<close>

record 'r redis_client =
  client_get :: "string \<Rightarrow> ('r, string option) io"
  client_set :: "string \<Rightarrow> string \<Rightarrow> set_mode option \<Rightarrow> nat option \<Rightarrow> ('r, bool) io"
  client_del :: "string \<Rightarrow> ('r, nat) io"
  client_lpush :: "string \<Rightarrow> string \<Rightarrow> ('r, nat) io"
  client_brpop :: "string \<Rightarrow> nat \<Rightarrow> ('r, (string \<times> string) option) io"

fun ttl_ms :: "duration_mode \<Rightarrow> nat \<Rightarrow> nat" where
  "ttl_ms EX_seconds n = n * 1000"
| "ttl_ms PX_millis n = n"

subsection \<open>The service\<close>

record 'r redis_state =
  client :: 'r
  isMockMode :: bool
  mockStore :: "string \<rightharpoonup> string"

definition on_client :: "('r, 'a) io \<Rightarrow> ('r redis_state, 'a) io" where
  "on_client m = (\<lambda>s. case m (client s) of (r, c) \<Rightarrow> (r, s\<lparr>client := c\<rparr>))"

text \<open>
  The connection events of \<open>onModuleInit\<close>: \<open>retryStrategy\<close> (the delay before the next
  attempt, or \<open>null\<close>) and the \<open>error\<close> listener.
\<close>

definition retryStrategy :: "nat \<Rightarrow> 'r redis_state \<Rightarrow> nat option \<times> 'r redis_state" where
  "retryStrategy tries s = (if tries > 1 then (None, s\<lparr>isMockMode := True\<rparr>) else (Some 100, s))"

definition on_error :: "'r redis_state \<Rightarrow> 'r redis_state" where
  "on_error s = s\<lparr>isMockMode := True\<rparr>"

text \<open>\<open>onModuleInit\<close> itself, on what the constructor of the client gives.\<close>

definition onModuleInit :: "exn + 'r \<Rightarrow> 'r redis_state \<Rightarrow> 'r redis_state" where
  "onModuleInit created s = (case created of Inl err \<Rightarrow> s\<lparr>isMockMode := True\<rparr> | Inr c \<Rightarrow> s\<lparr>client := c\<rparr>)"

text \<open>\<open>this.mockStore.get(key) || null\<close>: an empty value reads as \<open>null\<close>.\<close>

definition mock_get :: "string \<Rightarrow> ('r redis_state, string option) io" where
  "mock_get k = (\<lambda>s. (Inr (case mockStore s k of Some v \<Rightarrow> if v = '''' then None else Some v | None \<Rightarrow> None), s))"

definition mock_set :: "string \<Rightarrow> string \<Rightarrow> set_mode option \<Rightarrow> ('r redis_state, bool) io" where
  "mock_set k v md = (\<lambda>s.
     if md = Some NX \<and> mockStore s k \<noteq> None then (Inr False, s)
     else (Inr True, s\<lparr>mockStore := (mockStore s)(k \<mapsto> v)\<rparr>))"

definition mock_del :: "string \<Rightarrow> ('r redis_state, nat) io" where
  "mock_del k = (\<lambda>s. (Inr (if mockStore s k = None then 0 else 1), s\<lparr>mockStore := (mockStore s)(k := None)\<rparr>))"

text \<open>
  The public methods. Outside mock mode a command goes to the client; if it throws, the
  service enters mock mode, and stays there, and answers from the \<open>mockStore\<close>.
\<close>

definition with_fallback :: "('r, 'a) io \<Rightarrow> ('r redis_state, 'a) io \<Rightarrow> ('r redis_state, 'a) io" where
  "with_fallback remote mock = (\<lambda>s.
     if isMockMode s then mock s
     else catching (on_client remote) (\<lambda>_ s'. mock (s'\<lparr>isMockMode := True\<rparr>)) s)"

definition redis_get :: "'r redis_client \<Rightarrow> string \<Rightarrow> ('r redis_state, string option) io" where
  "redis_get C k = with_fallback (client_get C k) (mock_get k)"

definition redis_set ::
  "'r redis_client \<Rightarrow> string \<Rightarrow> string \<Rightarrow> set_mode option \<Rightarrow> duration_mode option \<Rightarrow> nat option \<Rightarrow>
   ('r redis_state, bool) io" where
  "redis_set C k v md dm dur = with_fallback
     (case (md, dm, dur) of
        (Some x, Some u, Some n) \<Rightarrow> client_set C k v (Some x) (Some (ttl_ms u n))
      | (None, Some u, Some n) \<Rightarrow> client_set C k v None (Some (ttl_ms u n))
      | _ \<Rightarrow> client_set C k v None None)
     (mock_set k v md)"

definition redis_del :: "'r redis_client \<Rightarrow> string \<Rightarrow> ('r redis_state, nat) io" where
  "redis_del C k = with_fallback (client_del C k) (mock_del k)"

text \<open>
  \<open>getClient()\<close>: the raw client, or in mock mode a stub on the \<open>mockStore\<close>, whose \<open>lpush\<close>
  and \<open>brpop\<close> use one slot per queue and whose \<open>set\<close> knows no modes. The choice is made when
  the client is fetched, and its commands do not fall back on an error.
\<close>

definition mock_lpush :: "string \<Rightarrow> string \<Rightarrow> ('r redis_state, nat) io" where
  "mock_lpush q item = (\<lambda>s. (Inr 1, s\<lparr>mockStore := (mockStore s)(q \<mapsto> item)\<rparr>))"

definition mock_brpop :: "string \<Rightarrow> ('r redis_state, (string \<times> string) option) io" where
  "mock_brpop q = (\<lambda>s. case mockStore s q of
     None \<Rightarrow> (Inr None, s)
   | Some item \<Rightarrow> if item = '''' then (Inr None, s)
                  else (Inr (Some (q, item)), s\<lparr>mockStore := (mockStore s)(q := None)\<rparr>))"

definition mock_put :: "string \<Rightarrow> string \<Rightarrow> ('r redis_state, bool) io" where
  "mock_put k v = (\<lambda>s. (Inr True, s\<lparr>mockStore := (mockStore s)(k \<mapsto> v)\<rparr>))"

definition getClient :: "'r redis_client \<Rightarrow> 'r redis_state \<Rightarrow> 'r redis_state redis_client" where
  "getClient C s =
     (if isMockMode s then
        \<lparr>client_get = mock_get, client_set = (\<lambda>k v md ttl. mock_put k v), client_del = mock_del,
         client_lpush = mock_lpush, client_brpop = (\<lambda>q timeout. mock_brpop q)\<rparr>
      else
        \<lparr>client_get = (\<lambda>k. on_client (client_get C k)),
         client_set = (\<lambda>k v md ttl. on_client (client_set C k v md ttl)),
         client_del = (\<lambda>k. on_client (client_del C k)),
         client_lpush = (\<lambda>q item. on_client (client_lpush C q item)),
         client_brpop = (\<lambda>q timeout. on_client (client_brpop C q timeout))\<rparr>)"

definition getClient_lpush :: "'r redis_client \<Rightarrow> string \<Rightarrow> string \<Rightarrow> ('r redis_state, nat) io" where
  "getClient_lpush C q item = (\<lambda>s. client_lpush (getClient C s) q item s)"

definition getClient_brpop ::
  "'r redis_client \<Rightarrow> string \<Rightarrow> nat \<Rightarrow> ('r redis_state, (string \<times> string) option) io" where
  "getClient_brpop C q timeout = (\<lambda>s. client_brpop (getClient C s) q timeout s)"

lemma getClient_eqs:
  "getClient_lpush C q item = (\<lambda>s. if isMockMode s then mock_lpush q item s else on_client (client_lpush C q item) s)"
  "getClient_brpop C q timeout = (\<lambda>s. if isMockMode s then mock_brpop q s else on_client (client_brpop C q timeout) s)"
  by (simp_all add: getClient_lpush_def getClient_brpop_def getClient_def fun_eq_iff)

subsection \<open>The server, and the interface of the service\<close>

text \<open>
  A live string key has a value and the time to live it was last given; a list is read from
  its left end. The client's exceptions are not those of the database.
\<close>

type_synonym entries = "string \<rightharpoonup> string \<times> nat option"

definition set_effect :: "string \<Rightarrow> string \<Rightarrow> set_mode option \<Rightarrow> nat option \<Rightarrow> entries \<Rightarrow> bool \<times> entries" where
  "set_effect k v md ttl E =
     (if md = Some NX \<and> E k \<noteq> None \<or> md = Some XX \<and> E k = None then (False, E)
      else (True, E(k \<mapsto> (v, ttl))))"

locale redis_server =
  fixes C :: "'r redis_client" and kv :: "'r \<Rightarrow> entries" and lists :: "'r \<Rightarrow> string \<Rightarrow> string list"
  assumes client_get: "client_get C k r = (Inr x, r') \<Longrightarrow>
      x = map_option fst (kv r k) \<and> kv r' = kv r \<and> lists r' = lists r"
    and client_set: "client_set C k v md ttl r = (Inr b, r') \<Longrightarrow>
      (b, kv r') = set_effect k v md ttl (kv r) \<and> lists r' = lists r"
    and client_del: "client_del C k r = (Inr n, r') \<Longrightarrow> kv r' = (kv r)(k := None) \<and> lists r' = lists r"
    and client_lpush: "client_lpush C q item r = (Inr n, r') \<Longrightarrow>
      lists r' = (lists r)(q := item # lists r q) \<and> kv r' = kv r"
    and client_lpush_fail: "client_lpush C q item r = (Inl e, r') \<Longrightarrow> \<not> db_failure e"
    and client_brpop: "client_brpop C q t r = (Inr y, r') \<Longrightarrow> kv r' = kv r \<and>
      (case y of None \<Rightarrow> lists r q = [] \<and> lists r' = lists r
       | Some (q', item) \<Rightarrow> q' = q \<and> lists r q \<noteq> [] \<and> item = last (lists r q) \<and>
                           lists r' = (lists r)(q := butlast (lists r q)))"

text \<open>
  The entries the service answers from: the server's, or in mock mode those of the
  \<open>mockStore\<close>, which never expire.
\<close>

definition mock_view :: "'r redis_state \<Rightarrow> entries" where
  "mock_view s = (\<lambda>k. map_option (\<lambda>v. (v, None)) (mockStore s k))"

definition quiet :: "string \<Rightarrow> 'r redis_state \<Rightarrow> bool" where
  "quiet k s \<longleftrightarrow> isMockMode s \<or> mockStore s k = None"

definition redis_view :: "('r \<Rightarrow> entries) \<Rightarrow> 'r redis_state \<Rightarrow> entries" where
  "redis_view kv s = (if isMockMode s then mock_view s else kv (client s))"

text \<open>
  The key-value interface: no command throws, and each acts on the entries of the store it
  was answered by, which is the current one or, after a failure, the in-memory one.
\<close>

locale kv_service =
  fixes view :: "'s \<Rightarrow> entries"
    and alt :: "'s \<Rightarrow> entries"
    and kget :: "string \<Rightarrow> ('s, string option) io"
    and kset :: "string \<Rightarrow> string \<Rightarrow> set_mode option \<Rightarrow> duration_mode option \<Rightarrow> nat option \<Rightarrow> ('s, bool) io"
    and kdel :: "string \<Rightarrow> ('s, nat) io"
  assumes kget: "kget k s = (rget, s') \<Longrightarrow>
      (\<exists>x. rget = Inr x \<and> (x = map_option fst (view s' k) \<or> x = None \<and> map_option fst (view s' k) = Some '''')) \<and>
      view s' \<in> {view s, alt s}"
    and kset: "kset k v md dm dur s = (rset, s') \<Longrightarrow>
      \<exists>b E ttl. rset = Inr b \<and> E \<in> {view s, alt s} \<and>
        (md = Some NX \<longrightarrow> dm \<noteq> None \<and> dur \<noteq> None \<longrightarrow> (b, view s') = set_effect k v md ttl E) \<and>
        (md = None \<longrightarrow> (b, view s') = set_effect k v None ttl E)"
    and kdel: "kdel k s = (rdel, s') \<Longrightarrow>
      \<exists>n E. rdel = Inr n \<and> E \<in> {view s, alt s} \<and> view s' = E(k := None)"
begin

lemma kget_returns: "\<exists>x s'. kget k s = (Inr x, s')"
  using kget [of k s] by (cases "kget k s") auto

lemma kset_returns: "\<exists>b s'. kset k v md dm dur s = (Inr b, s')"
  using kset [of k v md dm dur s] by (cases "kset k v md dm dur s") fastforce

lemma kdel_returns: "\<exists>n s'. kdel k s = (Inr n, s')"
  using kdel [of k s] by (cases "kdel k s") auto

text \<open>A plain write is there to be read; a lock is free exactly when \<open>NX\<close> succeeds.\<close>

lemma kset_stores:
  "kset k v None dm dur s = (Inr b, s') \<Longrightarrow> b \<and> map_option fst (view s' k) = Some v"
  by (drule kset) (auto simp: set_effect_def)

lemma kset_NX_taken:
  "kset k v (Some NX) (Some dm) (Some n) s = (Inr False, s') \<Longrightarrow> view s' k \<noteq> None \<and> view s' \<in> {view s, alt s}"
  by (drule kset) (auto simp: set_effect_def split: if_splits)

lemma kset_NX_acquired:
  "kset k v (Some NX) (Some dm) (Some n) s = (Inr True, s') \<Longrightarrow>
     (view s k = None \<or> alt s k = None) \<and> map_option fst (view s' k) = Some v"
  by (drule kset) (cases "view s k"; cases "alt s k"; auto simp: set_effect_def split: if_splits)

lemma kdel_removes: "kdel k s = (Inr n, s') \<Longrightarrow> view s' k = None"
  by (drule kdel) auto

end

subsection \<open>The service provides the interface\<close>

lemma with_fallback_cases:
  assumes "with_fallback remote mock s = (r, s')"
  obtains (mocked) "isMockMode s" "mock s = (r, s')"
  | (remote) x c where "\<not> isMockMode s" "remote (client s) = (Inr x, c)" "r = Inr x" "s' = s\<lparr>client := c\<rparr>"
  | (fallback) e c where "\<not> isMockMode s" "remote (client s) = (Inl e, c)"
      "mock (s\<lparr>client := c, isMockMode := True\<rparr>) = (r, s')"
  using assms
  by (auto simp: with_fallback_def catching_def on_client_def split: if_splits prod.splits sum.splits)

lemma mock_view_simps [simp]:
  "mock_view (s\<lparr>client := c\<rparr>) = mock_view s" "mock_view (s\<lparr>isMockMode := b\<rparr>) = mock_view s"
  by (auto simp: mock_view_def)

lemma mock_view_upd:
  "mockStore s' = (mockStore s)(k := x) \<Longrightarrow> mock_view s' = (mock_view s)(k := map_option (\<lambda>v. (v, None)) x)"
  by (auto simp: mock_view_def)

lemma mock_view_cong: "mockStore s' = mockStore s \<Longrightarrow> mock_view s' = mock_view s"
  by (simp add: mock_view_def)

text \<open>The three commands on the \<open>mockStore\<close>.\<close>

lemma mock_get_law:
  assumes "mock_get k s = (r, s')"
  shows "s' = s \<and> (\<exists>x. r = Inr x \<and> (x = map_option fst (mock_view s k) \<or>
           x = None \<and> map_option fst (mock_view s k) = Some ''''))"
  using assms by (cases "mockStore s k") (auto simp: mock_get_def mock_view_def)

lemma mock_set_law:
  assumes "mock_set k v md s = (r, s')"
  shows "isMockMode s' = isMockMode s \<and> (\<exists>b. r = Inr b \<and>
    (md = Some NX \<longrightarrow> (b, mock_view s') = set_effect k v md None (mock_view s)) \<and>
    (md = None \<longrightarrow> (b, mock_view s') = set_effect k v None None (mock_view s)))"
proof (cases "md = Some NX \<and> mockStore s k \<noteq> None")
  case True
  with assms show ?thesis by (auto simp: mock_set_def set_effect_def mock_view_def)
next
  case False
  with assms have "r = Inr True" "s' = s\<lparr>mockStore := (mockStore s)(k \<mapsto> v)\<rparr>"
    by (auto simp: mock_set_def)
  moreover from this have "mock_view s' = (mock_view s)(k \<mapsto> (v, None))"
    by (simp add: mock_view_def fun_eq_iff)
  moreover from False have "md = Some NX \<Longrightarrow> mock_view s k = None"
    by (simp add: mock_view_def)
  ultimately show ?thesis by (auto simp: set_effect_def)
qed

lemma mock_del_law:
  assumes "mock_del k s = (r, s')"
  shows "isMockMode s' = isMockMode s \<and> (\<exists>n. r = Inr n) \<and> mock_view s' = (mock_view s)(k := None)"
  using assms by (auto simp: mock_del_def mock_view_upd)

context redis_server
begin

lemma redis_get_law:
  assumes "redis_get C k s = (r, s')"
  shows "(\<exists>x. r = Inr x \<and> (x = map_option fst (redis_view kv s' k) \<or>
            x = None \<and> map_option fst (redis_view kv s' k) = Some '''')) \<and>
    redis_view kv s' \<in> {redis_view kv s, mock_view s}"
  using assms [unfolded redis_get_def]
proof (cases rule: with_fallback_cases)
  case mocked
  with mock_get_law [OF mocked(2)] show ?thesis by (simp add: redis_view_def)
next
  case (remote x c)
  with client_get [OF remote(2)] show ?thesis by (simp add: redis_view_def)
next
  case (fallback e c)
  with mock_get_law [OF fallback(3)] show ?thesis by (auto simp: redis_view_def mock_view_def)
qed

text \<open>As long as the service does not fall back, the answers are those of one store.\<close>

lemma redis_get_steady:
  assumes "redis_get C k s = (r, s')" "isMockMode s' = isMockMode s"
  shows "redis_view kv s' = redis_view kv s \<and>
    (\<exists>x. r = Inr x \<and> str_truthy x = str_truthy (map_option fst (redis_view kv s k)))"
  using assms(1) [unfolded redis_get_def]
proof (cases rule: with_fallback_cases)
  case mocked
  with mock_get_law [OF mocked(2)] show ?thesis by (auto simp: redis_view_def)
next
  case (remote x c)
  with client_get [OF remote(2)] show ?thesis by (auto simp: redis_view_def)
next
  case (fallback e c)
  with mock_get_law [OF fallback(3)] assms(2) show ?thesis by simp
qed

lemma redis_get_mode: "redis_get C k s = (r, s') \<Longrightarrow> isMockMode s \<Longrightarrow> isMockMode s'"
  unfolding redis_get_def by (erule with_fallback_cases) (auto dest: mock_get_law)

lemma redis_set_law:
  assumes "redis_set C k v md dm dur s = (r, s')"
  shows "\<exists>b E ttl. r = Inr b \<and> E \<in> {redis_view kv s, mock_view s} \<and>
    (md = Some NX \<longrightarrow> dm \<noteq> None \<and> dur \<noteq> None \<longrightarrow> (b, redis_view kv s') = set_effect k v md ttl E) \<and>
    (md = None \<longrightarrow> (b, redis_view kv s') = set_effect k v None ttl E)"
  using assms [unfolded redis_set_def]
proof (cases rule: with_fallback_cases)
  case mocked
  with mock_set_law [OF mocked(2)] show ?thesis
    by (auto simp: redis_view_def intro!: exI [of _ "mock_view s"] exI [of _ None])
next
  case (remote x c)
  define ttl where "ttl = (case (dm, dur) of (Some u, Some n) \<Rightarrow> Some (ttl_ms u n) | _ \<Rightarrow> None)"
  have "(x, kv c) = set_effect k v (if dm \<noteq> None \<and> dur \<noteq> None then md else None) ttl (kv (client s))"
    using remote(2) by (auto simp: ttl_def split: option.splits dest!: client_set)
  with remote show ?thesis
    by (auto simp: redis_view_def intro!: exI [of _ "kv (client s)"] exI [of _ ttl])
next
  case (fallback e c)
  with mock_set_law [OF fallback(3)] show ?thesis
    by (auto simp: redis_view_def intro!: exI [of _ "mock_view s"] exI [of _ None])
qed

text \<open>
  As long as the \<open>mockStore\<close> does not answer for a key behind the server's back (\<open>quiet\<close>), a
  refused lock and a read speak of the store in use.
\<close>

lemma redis_set_refused:
  assumes "redis_set C k v (Some NX) (Some dm) (Some n) s = (Inr False, s')"
    and "quiet k s"
  shows "quiet k s' \<and> redis_view kv s' k = redis_view kv s k \<and>
    redis_view kv s k \<noteq> None"
  using assms(1) [unfolded redis_set_def]
proof (cases rule: with_fallback_cases)
  case mocked
  then show ?thesis by (auto simp: mock_set_def redis_view_def quiet_def mock_view_def split: if_splits)
next
  case (remote x c)
  with assms(2) client_set [of k v "Some NX" "Some (ttl_ms dm n)" "client s" False c]
  show ?thesis by (auto simp: redis_view_def quiet_def set_effect_def split: if_splits)
next
  case (fallback e c)
  with assms(2) show ?thesis by (auto simp: quiet_def mock_set_def split: if_splits)
qed

lemma redis_get_text:
  assumes "redis_get C k s = (r, s')" and "quiet k s"
  shows "r = Inr (map_option fst (redis_view kv s k)) \<or> r = Inr None"
  using assms(1) [unfolded redis_get_def]
proof (cases rule: with_fallback_cases)
  case mocked
  then show ?thesis by (auto simp: mock_get_def redis_view_def quiet_def mock_view_def split: option.splits if_splits)
next
  case (remote x c)
  with client_get [OF remote(2)] show ?thesis by (simp add: redis_view_def quiet_def)
next
  case (fallback e c)
  with assms(2) show ?thesis by (auto simp: quiet_def mock_get_def)
qed

text \<open>Without a fallback in between, the commands act on the store in use.\<close>

lemma redis_get_present:
  assumes "redis_get C k s = (r, s')" "isMockMode s' = isMockMode s"
    and "map_option fst (redis_view kv s k) = Some v" "v \<noteq> []"
  shows "r = Inr (Some v)"
  using assms(1) [unfolded redis_get_def]
proof (cases rule: with_fallback_cases)
  case mocked
  with assms(3,4) show ?thesis by (auto simp: mock_get_def redis_view_def mock_view_def split: option.splits)
next
  case (remote x c)
  with client_get [OF remote(2)] assms(3) show ?thesis by (simp add: redis_view_def)
next
  case (fallback e c)
  with assms(2) show ?thesis by (auto simp: mock_get_def)
qed

lemma redis_set_steady:
  assumes "redis_set C k v (Some NX) (Some dm) (Some n) s = (r, s')" "isMockMode s' = isMockMode s"
  shows "\<exists>b ttl. r = Inr b \<and> (b, redis_view kv s') = set_effect k v (Some NX) ttl (redis_view kv s)"
  using assms(1) [unfolded redis_set_def]
proof (cases rule: with_fallback_cases)
  case mocked
  with mock_set_law [OF mocked(2)] show ?thesis by (auto simp: redis_view_def intro!: exI [of _ None])
next
  case (remote x c)
  with client_set [of k v "Some NX" "Some (ttl_ms dm n)" "client s" x c] show ?thesis
    by (auto simp: redis_view_def intro!: exI [of _ "Some (ttl_ms dm n)"])
next
  case (fallback e c)
  with assms(2) mock_set_law [OF fallback(3)] show ?thesis by simp
qed

lemma redis_set_free:
  assumes "redis_set C k v (Some NX) (Some dm) (Some n) s = (Inr b, s')"
    and "redis_view kv s k = None" "mockStore s k = None"
  shows "b"
  using redis_set_law [OF assms(1)] assms(2,3)
  by (auto simp: set_effect_def mock_view_def split: if_splits)

lemma redis_del_law:
  assumes "redis_del C k s = (r, s')"
  shows "\<exists>n E. r = Inr n \<and> E \<in> {redis_view kv s, mock_view s} \<and> redis_view kv s' = E(k := None)"
  using assms [unfolded redis_del_def]
proof (cases rule: with_fallback_cases)
  case mocked
  with mock_del_law [OF mocked(2)] show ?thesis
    by (auto simp: redis_view_def intro!: exI [of _ "mock_view s"])
next
  case (remote x c)
  with client_del [OF remote(2)] show ?thesis
    by (auto simp: redis_view_def intro!: exI [of _ "kv (client s)"])
next
  case (fallback e c)
  with mock_del_law [OF fallback(3)] show ?thesis
    by (auto simp: redis_view_def intro!: exI [of _ "mock_view s"])
qed

end

sublocale redis_server \<subseteq> service: kv_service "redis_view kv" mock_view "redis_get C" "redis_set C" "redis_del C"
  by unfold_locales (rule redis_get_law redis_set_law redis_del_law; assumption)+

subsection \<open>Invariants of the service's own state\<close>

text \<open>
  A predicate the three commands keep; every method that only reaches Redis through them keeps
  it too. The service never leaves mock mode, and writes the \<open>mockStore\<close> only there.
\<close>

locale redis_invariant =
  fixes C :: "'r redis_client" and Q :: "'r redis_state \<Rightarrow> bool"
  assumes keeps_get: "keeps Q (redis_get C k)"
    and keeps_set: "keeps Q (redis_set C k v md dm dur)"
    and keeps_del: "keeps Q (redis_del C k)"

lemma keeps_mode_with_fallback:
  assumes "\<And>s r s'. isMockMode s \<Longrightarrow> mock s = (r, s') \<Longrightarrow> isMockMode s'"
  shows "keeps isMockMode (with_fallback remote mock)" "keeps (quiet k) (with_fallback remote mock)"
proof -
  show "keeps isMockMode (with_fallback remote mock)"
  proof (rule keepsI)
    fix s r s'
    assume "isMockMode s" "with_fallback remote mock s = (r, s')"
    then have "isMockMode s" "mock s = (r, s')" by (simp_all add: with_fallback_def)
    then show "isMockMode s'" by (rule assms)
  qed
  show "keeps (quiet k) (with_fallback remote mock)"
  proof (rule keepsI)
    fix s r s'
    assume q: "quiet k s" and run: "with_fallback remote mock s = (r, s')"
    from run show "quiet k s'"
    proof (cases rule: with_fallback_cases)
      case mocked
      from assms [OF this] show ?thesis by (simp add: quiet_def)
    next
      case (remote x c)
      with q show ?thesis by (simp add: quiet_def)
    next
      case (fallback e c)
      have "isMockMode (s\<lparr>client := c, isMockMode := True\<rparr>)" by simp
      from assms [OF this fallback(3)] show ?thesis by (simp add: quiet_def)
    qed
  qed
qed

lemma mock_commands_mode:
  "isMockMode s \<Longrightarrow> mock_get k s = (r, s') \<Longrightarrow> isMockMode s'"
  "isMockMode s \<Longrightarrow> mock_set k v md s = (r', s') \<Longrightarrow> isMockMode s'"
  "isMockMode s \<Longrightarrow> mock_del k s = (r'', s') \<Longrightarrow> isMockMode s'"
  by (auto simp: mock_get_def mock_set_def mock_del_def split: if_splits)

interpretation mock_mode: redis_invariant C isMockMode for C
  by (unfold_locales; unfold redis_get_def redis_set_def redis_del_def; rule keeps_mode_with_fallback(1);
      erule (1) mock_commands_mode)

interpretation mock_quiet: redis_invariant C "quiet k" for C k
  by (unfold_locales; unfold redis_get_def redis_set_def redis_del_def; rule keeps_mode_with_fallback(2);
      erule (1) mock_commands_mode)

text \<open>No command of the service throws, whatever the client does.\<close>

lemma with_fallback_returns:
  assumes "\<And>s. \<exists>x s1. mock s = (Inr x, s1)"
  shows "\<exists>x s1. with_fallback remote mock s = (Inr x, s1)"
proof -
  obtain r s' where "with_fallback remote mock s = (r, s')" by fastforce
  then show ?thesis
  proof (cases rule: with_fallback_cases)
    case mocked
    with assms [of s] show ?thesis by (simp add: with_fallback_def)
  next
    case (remote x c)
    then show ?thesis by (simp add: with_fallback_def catching_def on_client_def)
  next
    case (fallback e c)
    with assms [of "s\<lparr>client := c, isMockMode := True\<rparr>"] show ?thesis
      by (simp add: with_fallback_def catching_def on_client_def)
  qed
qed

lemma redis_commands_return:
  "\<exists>x s1. redis_get C k s = (Inr x, s1)" "\<exists>b s1. redis_set C k v md dm dur s = (Inr b, s1)"
  "\<exists>n s1. redis_del C k s = (Inr n, s1)"
  unfolding redis_get_def redis_set_def redis_del_def
  by (rule with_fallback_returns, auto simp: mock_get_def mock_set_def mock_del_def)+

text \<open>Two requests cannot both take a lock, unless the service falls back in between.\<close>

context redis_server
begin

lemma redis_set_exclusive:
  assumes 1: "redis_set C k v (Some NX) (Some dm) (Some n) s = (Inr True, s1)"
    and 2: "redis_set C k v' (Some NX) (Some dm') (Some n') s1 = (Inr b, s2)"
    and mode: "isMockMode s2 = isMockMode s"
  shows "\<not> b"
proof -
  from mode keepsD [OF mock_mode.keeps_set _ 1] keepsD [OF mock_mode.keeps_set _ 2]
  have m: "isMockMode s1 = isMockMode s" "isMockMode s2 = isMockMode s1" by blast+
  from redis_set_steady [OF 1 m(1)] redis_set_steady [OF 2 m(2)] show ?thesis
    by (auto simp: set_effect_def split: if_splits)
qed

end

subsection \<open>An executable server\<close>

text \<open>
  The commands as Redis documents them, on a map of entries and a map of lists, with a flag
  for a lost connection. It instantiates the client parameter in the witnesses.
\<close>

record mem_server =
  mem_kv :: entries
  mem_lists :: "string \<Rightarrow> string list"
  mem_down :: bool

definition mem_command :: "(mem_server \<Rightarrow> 'a \<times> mem_server) \<Rightarrow> (mem_server, 'a) io" where
  "mem_command f = (\<lambda>r. if mem_down r then (Inl (JsError ''Connection is closed.''), r)
     else case f r of (x, r') \<Rightarrow> (Inr x, r'))"

definition mem_client :: "mem_server redis_client" where
  "mem_client =
     \<lparr>client_get = (\<lambda>k. mem_command (\<lambda>r. (map_option fst (mem_kv r k), r))),
      client_set = (\<lambda>k v md ttl. mem_command (\<lambda>r.
        case set_effect k v md ttl (mem_kv r) of (b, E) \<Rightarrow> (b, r\<lparr>mem_kv := E\<rparr>))),
      client_del = (\<lambda>k. mem_command (\<lambda>r.
        (if mem_kv r k = None then 0 else 1, r\<lparr>mem_kv := (mem_kv r)(k := None)\<rparr>))),
      client_lpush = (\<lambda>q item. mem_command (\<lambda>r.
        (Suc (length (mem_lists r q)), r\<lparr>mem_lists := (mem_lists r)(q := item # mem_lists r q)\<rparr>))),
      client_brpop = (\<lambda>q t. mem_command (\<lambda>r. case mem_lists r q of
        [] \<Rightarrow> (None, r)
      | x # xs \<Rightarrow> (Some (q, last (x # xs)), r\<lparr>mem_lists := (mem_lists r)(q := butlast (x # xs))\<rparr>)))\<rparr>"

definition fresh_redis :: "mem_server redis_state" where
  "fresh_redis = \<lparr>client = \<lparr>mem_kv = Map.empty, mem_lists = (\<lambda>_. []), mem_down = False\<rparr>,
     isMockMode = False, mockStore = Map.empty\<rparr>"

interpretation mem: redis_server mem_client mem_kv mem_lists
  by unfold_locales
    (auto simp: mem_client_def mem_command_def split: if_splits prod.splits list.splits)

end
