(* ===== verification/Services.thy ===== *)
theory Services
  imports StateMachine RedisService
begin

text \<open>
  The state of the process: the database behind TypeORM, the Redis service, and the charges
  the gateways have been sent, in order. A service method is an effect on these; a call of
  the database or of Redis is lifted with \<open>on_db\<close> or \<open>on_redis\<close>. Environment variables
  (\<open>process.env\<close>, which \<open>ConfigService\<close> reads) are a function.
\<close>

text \<open>The types of \<open>src/gateways/interfaces/gateway-adapter.interface.ts\<close>.\<close>

record charge_request =
  req_transactionId :: string
  req_amount :: nat
  req_currency :: string
  req_idempotencyKey :: string

record charge_response =
  success :: bool
  resp_gatewayTxnId :: "json option"
  rawResponse :: json
  error :: "json option"
  latencyMs :: int

record ('d, 'r) node =
  db :: 'd
  redis :: "'r redis_state"
  charges :: "(GatewayProvider \<times> charge_request) list"

type_synonym env = "string \<Rightarrow> string option"

definition on_db :: "('d, 'a) io \<Rightarrow> (('d, 'r) node, 'a) io" where
  "on_db m = (\<lambda>s. case m (db s) of (r, d) \<Rightarrow> (r, s\<lparr>db := d\<rparr>))"

definition on_redis :: "('r redis_state, 'a) io \<Rightarrow> (('d, 'r) node, 'a) io" where
  "on_redis m = (\<lambda>s. case m (redis s) of (r, c) \<Rightarrow> (r, s\<lparr>redis := c\<rparr>))"

lemma on_db_eq:
  "on_db m s = (r, s') \<longleftrightarrow> m (db s) = (r, db s') \<and> redis s' = redis s \<and> charges s' = charges s \<and> node.more s' = node.more s"
  by (cases s; cases s'; cases "m (db s)") (auto simp: on_db_def)

lemma on_redis_eq:
  "on_redis m s = (r, s') \<longleftrightarrow> m (redis s) = (r, redis s') \<and> db s' = db s \<and> charges s' = charges s \<and> node.more s' = node.more s"
  by (cases s; cases s'; cases "m (redis s)") (auto simp: on_redis_def)

lemma hoare_on_db:
  assumes "\<And>d r d'. P d \<Longrightarrow> m d = (r, d') \<Longrightarrow> (case r of Inl e \<Rightarrow> E e d' | Inr x \<Rightarrow> Q x d')"
  shows "hoare (\<lambda>s. P (db s)) (on_db m) (\<lambda>x s. Q x (db s)) (\<lambda>e s. E e (db s))"
  using assms by (fastforce simp: hoare_def on_db_def split: prod.splits sum.splits)

text \<open>A method that leaves the database alone.\<close>

lemma keeps_db_on_redis: "keeps (\<lambda>s. P (db s)) (on_redis m)"
  by (rule keepsI) (auto simp: on_redis_eq)

text \<open>Only a call of a gateway adds to the charges.\<close>

lemma keeps_charges_on_db [keeping]: "keeps (\<lambda>s. P (charges s)) (on_db m)"
  by (rule keepsI) (auto simp: on_db_eq)

lemma keeps_charges_on_redis [keeping]: "keeps (\<lambda>s. P (charges s)) (on_redis m)"
  by (rule keepsI) (auto simp: on_redis_eq)

lemma charges_unchanged:
  assumes "keeps (\<lambda>s. charges s = charges s0) m" "m s0 = (r, s1)"
  shows "charges s1 = charges s0"
  using keepsD [OF assms(1) refl assms(2)] .

context redis_invariant
begin

lemma keeps_on_db [keeping]: "keeps (\<lambda>s. Q (redis s)) (on_db m)"
  by (rule keepsI) (auto simp: on_db_eq)

lemma keeps_on_redis [keeping]:
  "keeps (\<lambda>s. Q (redis s)) (on_redis (redis_get C k))"
  "keeps (\<lambda>s. Q (redis s)) (on_redis (redis_set C k v md dm dur))"
  "keeps (\<lambda>s. Q (redis s)) (on_redis (redis_del C k))"
  by (rule keepsI, auto simp: on_redis_eq dest: keepsD [OF keeps_get] keepsD [OF keeps_set] keepsD [OF keeps_del])+

end

text \<open>Both interfaces at once, over one state.\<close>

locale backend = database D tabs + redis_server C kv lists
  for D :: "'d orm" and tabs :: "'d \<Rightarrow> tables"
    and C :: "'r redis_client" and kv :: "'r \<Rightarrow> entries" and lists :: "'r \<Rightarrow> string \<Rightarrow> string list"

definition fresh_node :: "(schema_db, mem_server) node" where
  "fresh_node = \<lparr>db = fresh_db, redis = fresh_redis, charges = []\<rparr>"

interpretation local: backend schema_orm contents mem_client mem_kv mem_lists
  by unfold_locales

end
