(* ===== verification/JsNumber.thy ===== *)
theory JsNumber
  imports Prelude "HOL-Library.Log_Nat"
begin

text \<open>
  JavaScript's numbers. A double is a rational; an arithmetic operation is the exact result
  rounded to 53 significant bits, ties to even (IEEE 754 binary64). The exponent range is not
  bounded: the program's values stay far from the ends of the range (a score lies between
  0 and 1, and the ratios come from counters). The laws the scoring and latency
  formulas rest on are the locale \<open>js_rounding\<close>; the concrete rounding satisfies them.
\<close>

definition ilog2 :: "rat \<Rightarrow> int" where
  "ilog2 q =
     (let (n, d) = quotient_of q; k = bitlen n - bitlen d
      in if 2 powi k \<le> q then k else k - 1)"

definition round_half_even :: "rat \<Rightarrow> int" where
  "round_half_even x =
     (let f = \<lfloor>x\<rfloor>; r = x - of_int f
      in if r < 1 / 2 then f else if r > 1 / 2 then f + 1 else if even f then f else f + 1)"

definition rnd :: "rat \<Rightarrow> rat" where
  "rnd q =
     (if q = 0 then 0
      else let e = ilog2 \<bar>q\<bar> - 52 in of_int (round_half_even (q / 2 powi e)) * 2 powi e)"

text \<open>An equation for evaluation: it waits for the numerator and the denominator.\<close>

fun rnd_fraction :: "int \<times> int \<Rightarrow> rat" where
  "rnd_fraction (n, d) =
     (let q = of_int n / of_int d in
      if q = 0 then 0
      else let e = ilog2 \<bar>q\<bar> - 52 in of_int (round_half_even (q / 2 powi e)) * 2 powi e)"

lemma rnd_code [code]: "rnd q = rnd_fraction (quotient_of q)"
  by (cases "quotient_of q") (simp add: rnd_def quotient_of_div [symmetric])

definition fadd :: "rat \<Rightarrow> rat \<Rightarrow> rat" where "fadd a b = rnd (a + b)"
definition fsub :: "rat \<Rightarrow> rat \<Rightarrow> rat" where "fsub a b = rnd (a - b)"
definition fmul :: "rat \<Rightarrow> rat \<Rightarrow> rat" where "fmul a b = rnd (a * b)"
definition fdiv :: "rat \<Rightarrow> rat \<Rightarrow> rat" where "fdiv a b = rnd (a / b)"

text \<open>\<open>Math.round\<close>: to the nearest integer, halves upwards.\<close>

definition js_round :: "rat \<Rightarrow> int" where
  "js_round x = \<lfloor>x + 1 / 2\<rfloor>"

subsection \<open>The binary exponent\<close>

lemma floor_le_frac: "of_int \<lfloor>x\<rfloor> \<le> x" "x < of_int \<lfloor>x\<rfloor> + 1" for x :: rat
  using floor_correct [of x] by simp_all

lemma round_half_even_of_int [simp]: "round_half_even (of_int n) = n"
  by (simp add: round_half_even_def Let_def)

lemma round_half_even_error: "\<bar>of_int (round_half_even x) - x\<bar> \<le> 1 / 2"
  using floor_le_frac [of x] by (auto simp: round_half_even_def Let_def abs_le_iff)

lemma round_half_even_floor: "round_half_even x = \<lfloor>x\<rfloor> \<or> round_half_even x = \<lfloor>x\<rfloor> + 1"
  by (auto simp: round_half_even_def Let_def)

lemma round_half_even_mono: "x \<le> y \<Longrightarrow> round_half_even x \<le> round_half_even y"
proof (cases "\<lfloor>x\<rfloor> = \<lfloor>y\<rfloor>")
  case True
  assume "x \<le> y"
  with True show ?thesis by (auto simp: round_half_even_def Let_def)
next
  case False
  assume "x \<le> y"
  then have "\<lfloor>x\<rfloor> \<le> \<lfloor>y\<rfloor>" by (rule floor_mono)
  with False show ?thesis
    using round_half_even_floor [of x] round_half_even_floor [of y] by linarith
qed

lemma floor_minus_frac: "x \<noteq> of_int \<lfloor>x\<rfloor> \<Longrightarrow> \<lfloor>- x\<rfloor> = - \<lfloor>x\<rfloor> - 1" for x :: rat
  using floor_le_frac [of x] by (intro floor_unique) (simp_all add: less_le)

lemma round_half_even_minus: "round_half_even (- x) = - round_half_even x"
proof (cases "x = of_int \<lfloor>x\<rfloor>")
  case True
  then show ?thesis by (metis of_int_minus round_half_even_of_int)
next
  case False
  then show ?thesis
    by (auto simp: round_half_even_def Let_def floor_minus_frac)
qed

lemma bitlen_sandwich:
  assumes "0 < n"
  shows "2 powi (bitlen n - 1) \<le> (of_int n :: rat)" and "(of_int n :: rat) < 2 powi bitlen n"
proof -
  have pos: "0 < bitlen n"
    using assms bitlen_nonneg [of n] bitlen_eq_zero_iff [of n] by linarith
  have b: "2 ^ nat (bitlen n - 1) \<le> n" "n < 2 ^ nat (bitlen n)"
    using bitlen_bounds [OF assms] by auto
  from b(1) have "(2 :: rat) ^ nat (bitlen n - 1) \<le> of_int n"
    by (metis of_int_le_iff of_int_numeral of_int_power)
  with pos show "2 powi (bitlen n - 1) \<le> (of_int n :: rat)"
    by (simp add: power_int_nonneg_exp)
  from b(2) have "(of_int n :: rat) < 2 ^ nat (bitlen n)"
    by (metis of_int_less_iff of_int_numeral of_int_power)
  with pos show "(of_int n :: rat) < 2 powi bitlen n"
    by (simp add: power_int_nonneg_exp)
qed

lemma ilog2_bounds:
  assumes "0 < q"
  shows "2 powi ilog2 q \<le> q" and "q < 2 powi (ilog2 q + 1)"
proof -
  obtain n d where q: "quotient_of q = (n, d)" by (cases "quotient_of q")
  then have d: "0 < d" and qnd: "q = of_int n / of_int d"
    using quotient_of_denom_pos quotient_of_div by blast+
  from qnd d assms have n: "0 < n" by (simp add: zero_less_divide_iff)
  let ?k = "bitlen n - bitlen d"
  have lo: "(2 :: rat) powi (?k - 1) \<le> q"
  proof -
    have "(2 :: rat) powi (?k - 1) = 2 powi (bitlen n - 1) / 2 powi bitlen d"
      by (simp add: power_int_diff)
    also have "\<dots> \<le> of_int n / of_int d"
      using bitlen_sandwich [OF n] bitlen_sandwich [OF d] d n
      by (intro frac_le) (simp_all add: less_imp_le)
    finally show ?thesis by (simp add: qnd)
  qed
  have hi: "q < 2 powi (?k + 1)"
  proof -
    have "(of_int n :: rat) / of_int d < 2 powi bitlen n / 2 powi (bitlen d - 1)"
      using bitlen_sandwich [OF n] bitlen_sandwich [OF d] d n
      by (intro frac_less) simp_all
    also have "\<dots> = 2 powi (?k + 1)"
      by (simp add: power_int_diff power_int_add)
    finally show ?thesis by (simp add: qnd)
  qed
  from lo hi show "2 powi ilog2 q \<le> q" "q < 2 powi (ilog2 q + 1)"
    by (auto simp: ilog2_def q Let_def)
qed

lemma pow2_less_imp_less: "(2 :: rat) powi m < 2 powi n \<Longrightarrow> m < n"
  using power_int_increasing [of n m "2 :: rat"] by (cases "m < n") auto

lemma ilog2_unique:
  assumes "2 powi k \<le> q" and "q < 2 powi (k + 1)"
  shows "ilog2 q = k"
proof -
  have q: "0 < q" using assms(1) by (meson less_le_trans zero_less_numeral zero_less_power_int)
  have "k < ilog2 q + 1"
    using assms(1) ilog2_bounds(2) [OF q] by (intro pow2_less_imp_less) linarith
  moreover have "ilog2 q < k + 1"
    using assms(2) ilog2_bounds(1) [OF q] by (intro pow2_less_imp_less) linarith
  ultimately show ?thesis by linarith
qed

lemma ilog2_mono:
  assumes "0 < x" "x \<le> y" shows "ilog2 x \<le> ilog2 y"
proof -
  have "(2::rat) powi ilog2 x < 2 powi (ilog2 y + 1)"
    using ilog2_bounds [OF assms(1)] ilog2_bounds(2) [of y] assms by linarith
  then have "ilog2 x < ilog2 y + 1" by (intro pow2_less_imp_less) linarith
  then show ?thesis by simp
qed

subsection \<open>The rounding\<close>

lemma ulp_pos [simp]: "(0 :: rat) < 2 powi e"
  by simp

lemma rnd_0: "rnd 0 = 0"
  by (simp add: rnd_def)

lemma rnd_minus: "rnd (- x) = - rnd x"
proof -
  have "- x / u = - (x / u)" for u :: rat by simp
  then show ?thesis by (simp only: rnd_def Let_def abs_minus_cancel round_half_even_minus) simp
qed

lemma rnd_pos_eq:
  assumes "0 < x"
  shows "rnd x = of_int (round_half_even (x / 2 powi (ilog2 x - 52))) * 2 powi (ilog2 x - 52)"
  using assms by (simp add: rnd_def Let_def)

text \<open>The significand lies between \<open>2 ^ 52\<close> and \<open>2 ^ 53\<close>.\<close>

lemma significand_bounds:
  assumes "0 < x"
  shows "of_int (2 ^ 52) \<le> x / 2 powi (ilog2 x - 52)" and "x / 2 powi (ilog2 x - 52) \<le> of_int (2 ^ 53)"
proof -
  have "(2 :: rat) powi (ilog2 x) = 2 ^ 52 * 2 powi (ilog2 x - 52)"
    by (simp add: power_int_diff)
  with ilog2_bounds(1) [OF assms] show "of_int (2 ^ 52) \<le> x / 2 powi (ilog2 x - 52)"
    by (simp add: pos_le_divide_eq)
  have "(2 :: rat) powi (ilog2 x + 1) = 2 ^ 53 * 2 powi (ilog2 x - 52)"
    by (simp add: power_int_diff power_int_add)
  with ilog2_bounds(2) [OF assms] show "x / 2 powi (ilog2 x - 52) \<le> of_int (2 ^ 53)"
    by (simp add: pos_divide_le_eq)
qed

lemma rnd_binade:
  assumes "0 < x"
  shows "2 powi ilog2 x \<le> rnd x" and "rnd x \<le> 2 powi (ilog2 x + 1)"
proof -
  let ?e = "ilog2 x - 52"
  have "(2 ^ 52 :: int) \<le> round_half_even (x / 2 powi ?e)" "round_half_even (x / 2 powi ?e) \<le> 2 ^ 53"
    using significand_bounds [OF assms] round_half_even_mono round_half_even_of_int by metis+
  then have b: "(of_int (2 ^ 52) :: rat) \<le> of_int (round_half_even (x / 2 powi ?e))"
      "(of_int (round_half_even (x / 2 powi ?e)) :: rat) \<le> of_int (2 ^ 53)"
    by (simp_all only: of_int_le_iff)
  have "(2 :: rat) powi ilog2 x = of_int (2 ^ 52) * 2 powi ?e"
    by (simp add: power_int_diff)
  with b(1) show "2 powi ilog2 x \<le> rnd x"
    by (simp only: rnd_pos_eq [OF assms]) (intro mult_right_mono; simp)
  have "(2 :: rat) powi (ilog2 x + 1) = of_int (2 ^ 53) * 2 powi ?e"
    by (simp add: power_int_diff power_int_add)
  with b(2) show "rnd x \<le> 2 powi (ilog2 x + 1)"
    by (simp only: rnd_pos_eq [OF assms]) (intro mult_right_mono; simp)
qed

lemma rnd_mono_pos:
  assumes "0 < x" "x \<le> y"
  shows "rnd x \<le> rnd y"
proof (cases "ilog2 x = ilog2 y")
  case True
  have "x / 2 powi (ilog2 x - 52) \<le> y / 2 powi (ilog2 x - 52)"
    using assms by (intro divide_right_mono) simp_all
  with True assms show ?thesis
    by (simp add: rnd_pos_eq round_half_even_mono)
next
  case False
  with ilog2_mono [OF assms] have "ilog2 x + 1 \<le> ilog2 y" by simp
  then have "(2 :: rat) powi (ilog2 x + 1) \<le> 2 powi ilog2 y"
    by (intro power_int_increasing) simp_all
  then show ?thesis
    using rnd_binade(2) [OF assms(1)] rnd_binade(1) [of y] assms by linarith
qed

lemma rnd_pos: "0 < x \<Longrightarrow> 0 < rnd x"
  using rnd_binade(1) [of x] ulp_pos [of "ilog2 x"] by linarith

lemma rnd_mono: "x \<le> y \<Longrightarrow> rnd x \<le> rnd y"
proof -
  assume le: "x \<le> y"
  consider "0 < x" | "x \<le> 0" "0 \<le> y" | "y < 0" by linarith
  then show ?thesis
  proof cases
    case 1
    with le show ?thesis by (rule rnd_mono_pos [rotated])
  next
    case 2
    have "rnd x \<le> 0"
      using 2(1) rnd_pos [of "- x"] by (cases "x = 0") (auto simp: rnd_0 rnd_minus)
    moreover have "0 \<le> rnd y"
      using 2(2) rnd_pos [of y] by (cases "y = 0") (auto simp: rnd_0)
    ultimately show ?thesis by simp
  next
    case 3
    with le rnd_mono_pos [of "- y" "- x"] show ?thesis by (simp add: rnd_minus)
  qed
qed

lemma rnd_eq_0: "rnd x = 0 \<longleftrightarrow> x = 0"
  using rnd_pos [of x] rnd_pos [of "- x"] by (cases x "0 :: rat" rule: linorder_cases) (auto simp: rnd_0 rnd_minus)

lemma rnd_error_pos:
  assumes "0 < x"
  shows "\<bar>rnd x - x\<bar> \<le> x / 2 ^ 53"
proof -
  let ?u = "(2 :: rat) powi (ilog2 x - 52)"
  have "rnd x - x = (of_int (round_half_even (x / ?u)) - x / ?u) * ?u"
    by (simp add: rnd_pos_eq [OF assms] left_diff_distrib)
  then have "\<bar>rnd x - x\<bar> = \<bar>of_int (round_half_even (x / ?u)) - x / ?u\<bar> * ?u"
    by (simp add: abs_mult)
  also have "\<dots> \<le> 1 / 2 * ?u"
    by (intro mult_right_mono round_half_even_error) simp
  also have "\<dots> = 2 powi ilog2 x / 2 ^ 53"
    by (simp add: power_int_diff)
  also have "\<dots> \<le> x / 2 ^ 53"
    by (intro divide_right_mono ilog2_bounds(1) assms) simp
  finally show ?thesis .
qed

lemma rnd_error: "\<bar>rnd x - x\<bar> \<le> \<bar>x\<bar> / 2 ^ 53"
proof (cases x "0 :: rat" rule: linorder_cases)
  case less
  then show ?thesis using rnd_error_pos [of "- x"] by (simp add: rnd_minus abs_minus_commute)
qed (use rnd_error_pos [of x] in \<open>simp_all add: rnd_0\<close>)

lemma rnd_exact:
  assumes "0 < x" and "x / 2 powi (ilog2 x - 52) = of_int n"
  shows "rnd x = x"
proof -
  have "rnd x = of_int n * 2 powi (ilog2 x - 52)"
    by (simp only: rnd_pos_eq [OF assms(1)] assms(2) round_half_even_of_int)
  also have "\<dots> = x" by (simp flip: assms(2))
  finally show ?thesis .
qed

lemma rnd_of_nat:
  assumes "n < 2 ^ 53"
  shows "rnd (of_nat n) = of_nat n"
proof (cases "n = 0")
  case True
  then show ?thesis by (simp add: rnd_0)
next
  case False
  let ?x = "of_nat n :: rat"
  from False have x: "0 < ?x" by simp
  have "(2 :: rat) powi ilog2 ?x < 2 powi 53"
  proof -
    have "?x < of_nat (2 ^ 53)" using assms by (simp only: of_nat_less_iff)
    with ilog2_bounds(1) [OF x] show ?thesis by simp
  qed
  then have k: "ilog2 ?x < 53" by (rule pow2_less_imp_less)
  have "?x / 2 powi (ilog2 ?x - 52) = ?x * 2 powi (52 - ilog2 ?x)"
    by (simp add: power_int_diff)
  also have "\<dots> = of_int (int n * 2 ^ nat (52 - ilog2 ?x))"
    using k by (simp add: power_int_nonneg_exp)
  finally show ?thesis by (rule rnd_exact [OF x])
qed

lemma rnd_of_int: "\<bar>n\<bar> < 2 ^ 53 \<Longrightarrow> rnd (of_int n) = of_int n"
  using rnd_of_nat [of "nat n"] rnd_of_nat [of "nat (- n)"]
  by (cases "0 \<le> n") (simp_all add: rnd_minus of_nat_nat)

subsection \<open>The interface of the rounding\<close>

text \<open>
  What the formulas of the routing engine need of an operation's rounding: it is monotone,
  odd, keeps zero and only zero, errs by at most one part in \<open>2 ^ 53\<close>, and keeps integers
  below \<open>2 ^ 53\<close>.
\<close>

locale js_rounding =
  fixes r :: "rat \<Rightarrow> rat"
  assumes mono: "x \<le> y \<Longrightarrow> r x \<le> r y"
    and minus: "r (- x) = - r x"
    and eq_0: "r x = 0 \<longleftrightarrow> x = 0"
    and error: "\<bar>r x - x\<bar> \<le> \<bar>x\<bar> / 2 ^ 53"
    and of_int: "\<bar>n\<bar> < 2 ^ 53 \<Longrightarrow> r (of_int n) = of_int n"
begin

lemma zero [simp]: "r 0 = 0"
  by (simp add: eq_0)

lemma nonneg: "0 \<le> x \<Longrightarrow> 0 \<le> r x"
  using mono [of 0 x] by simp

lemma one [simp]: "r 1 = 1"
  using of_int [of 1] by simp

lemma le_one: "x \<le> 1 \<Longrightarrow> r x \<le> 1"
  using mono [of x 1] by simp

lemma sign: "r x < 0 \<longleftrightarrow> x < 0" "r x \<le> 0 \<longleftrightarrow> x \<le> 0" "0 < r x \<longleftrightarrow> 0 < x"
proof -
  show pos: "0 < r x \<longleftrightarrow> 0 < x" for x
    using nonneg [of x] nonneg [of "- x"] eq_0 [of x] minus [of x] by fastforce
  show "r x < 0 \<longleftrightarrow> x < 0" using pos [of "- x"] by (simp add: minus)
  show "r x \<le> 0 \<longleftrightarrow> x \<le> 0" using pos [of x] by (simp add: not_less [symmetric])
qed

lemma error_le: "\<bar>x\<bar> \<le> b \<Longrightarrow> \<bar>r x - x\<bar> \<le> b / 2 ^ 53"
  using error [of x] by (simp add: field_simps)

text \<open>
  The moving average of a value with itself is that value, for integers below \<open>2 ^ 31\<close>:
  the rounding errors of \<open>m * 0.9 + m * 0.1\<close> stay below one half.
\<close>

lemma blend_self:
  assumes "0 \<le> m" "m < 2 ^ 31"
  shows "js_round (r (r (of_int m * r (9 / 10)) + r (of_int m * r (1 / 10)))) = m"
proof -
  let ?m = "of_int m :: rat"
  have "?m \<le> of_int (2 ^ 31)"
    using assms by (simp only: of_int_le_iff)
  then have m: "0 \<le> ?m" "?m \<le> 2 ^ 31"
    using assms by simp_all
  have scaled: "\<bar>r (?m * r c) - ?m * c\<bar> \<le> 1 / 2 ^ 20 \<and> 0 \<le> r (?m * r c) \<and> r (?m * r c) \<le> 2 ^ 31 + 1"
    if c: "0 \<le> c" "c \<le> 1" for c
  proof -
    have "\<bar>r c - c\<bar> \<le> 1 / 2 ^ 53" using c by (intro error_le) simp
    then have "?m * \<bar>r c - c\<bar> \<le> 2 ^ 31 * (1 / 2 ^ 53)"
      using m by (intro mult_mono) simp_all
    then have 1: "\<bar>?m * r c - ?m * c\<bar> \<le> 1 / 2 ^ 22"
      using m by (simp add: abs_mult flip: right_diff_distrib)
    have rc: "0 \<le> r c" "r c \<le> 1" using c nonneg le_one by auto
    then have "?m * r c \<le> 2 ^ 31 * 1" using m by (intro mult_mono) simp_all
    then have b: "\<bar>?m * r c\<bar> \<le> 2 ^ 31" using m rc by simp
    then have 2: "\<bar>r (?m * r c) - ?m * r c\<bar> \<le> 1 / 2 ^ 22"
      using error_le [OF b] by simp
    have 3: "0 \<le> r (?m * r c)" using m rc by (intro nonneg) simp
    have "\<bar>r (?m * r c) - ?m * c\<bar> \<le> \<bar>r (?m * r c) - ?m * r c\<bar> + \<bar>?m * r c - ?m * c\<bar>"
      by linarith
    also have "\<dots> \<le> 1 / 2 ^ 22 + 1 / 2 ^ 22" using 1 2 by (rule add_mono [rotated])
    finally have 4: "\<bar>r (?m * r c) - ?m * c\<bar> \<le> 1 / 2 ^ 20" by simp
    have "r (?m * r c) \<le> ?m * r c + 1 / 2 ^ 22" using 2 by linarith
    also have "\<dots> \<le> 2 ^ 31 + 1" using b by (intro add_mono) simp_all
    finally show ?thesis using 3 4 by blast
  qed
  let ?s = "r (?m * r (9 / 10)) + r (?m * r (1 / 10))"
  have a: "\<bar>r (?m * r (9 / 10)) - ?m * (9 / 10)\<bar> \<le> 1 / 2 ^ 20" "\<bar>r (?m * r (1 / 10)) - ?m * (1 / 10)\<bar> \<le> 1 / 2 ^ 20"
    and b: "0 \<le> ?s" "?s \<le> 2 ^ 33"
    using scaled [of "9 / 10"] scaled [of "1 / 10"] by simp_all
  have "?s - ?m = (r (?m * r (9 / 10)) - ?m * (9 / 10)) + (r (?m * r (1 / 10)) - ?m * (1 / 10))"
    by simp
  then have "\<bar>?s - ?m\<bar> \<le> 1 / 2 ^ 20 + 1 / 2 ^ 20"
    using a by linarith
  then have s: "\<bar>?s - ?m\<bar> \<le> 1 / 2 ^ 19" "\<bar>?s\<bar> \<le> 2 ^ 33"
    using b by simp_all
  have "\<bar>r ?s - ?s\<bar> \<le> 1 / 2 ^ 20" using error_le [OF s(2)] by simp
  with s(1) have "\<bar>r ?s - ?m\<bar> \<le> 1 / 2 ^ 20 + 1 / 2 ^ 19" by linarith
  then have "\<bar>r ?s - ?m\<bar> < 1 / 2" by simp
  then have "?m \<le> r ?s + 1 / 2" "r ?s + 1 / 2 < ?m + 1"
    by linarith+
  then show ?thesis
    unfolding js_round_def by (rule floor_unique)
qed

end

interpretation ieee: js_rounding rnd
  by unfold_locales (rule rnd_mono rnd_minus rnd_eq_0 rnd_error rnd_of_int; assumption?)+

lemma js_round_mono: "x \<le> y \<Longrightarrow> js_round x \<le> js_round y"
  by (simp add: js_round_def floor_mono)

end
