(* ===== verification/RoutingEngine.thy ===== *)
theory RoutingEngine
  imports Services JsNumber
begin

text \<open>
  \<open>src/gateways/routing-engine.service.ts\<close>: which gateways are configured, their scores in
  floating point, the ranking with the circuit breaker's cool-down, and the statistics that
  trip and reset the breaker.
\<close>

subsection \<open>Configuration\<close>

definition usable_key :: "string option \<Rightarrow> bool" where
  "usable_key key = (str_truthy key \<and>
     (case key of None \<Rightarrow> False
      | Some s \<Rightarrow> \<not> str_includes s ''xxxxxxxxxxxx'' \<and> \<not> ends_with s ''xxx''))"

fun isGatewayConfigured :: "env \<Rightarrow> GatewayProvider \<Rightarrow> bool" where
  "isGatewayConfigured env STRIPE = usable_key (env ''STRIPE_SECRET_KEY'')"
| "isGatewayConfigured env RAZORPAY = usable_key (env ''RAZORPAY_KEY_SECRET'')"
| "isGatewayConfigured env PAYU = usable_key (str_or (env ''PAYU_SALT'') (env ''PAYU_MERCHANT_KEY''))"
| "isGatewayConfigured env UPI = usable_key (str_or (env ''UPI_VPA'') (env ''UPI_MERCHANT_ID''))"

subsection \<open>Scores\<close>

text \<open>The decimal literals of the formula, as doubles.\<close>

definition "lit_0_1 = rnd (1 / 10)"
definition "lit_0_2 = rnd (2 / 10)"
definition "lit_0_3 = rnd (3 / 10)"
definition "lit_0_5 = rnd (5 / 10)"
definition "lit_0_7 = rnd (7 / 10)"
definition "lit_0_9 = rnd (9 / 10)"

definition successRate :: "gateway_stats \<Rightarrow> rat" where
  "successRate st =
     (let totalTxns = successCount st + failureCount st
      in if totalTxns = 0 then 1 else fdiv (of_nat (successCount st)) (of_nat totalTxns))"

definition costScore :: "gateway_stats \<Rightarrow> rat" where
  "costScore st = max 0 (fdiv (fsub 300 (of_int (costBps st))) 300)"

definition latencyScore :: "gateway_stats \<Rightarrow> rat" where
  "latencyScore st =
     (let effectiveLatency = (if avgLatencyMs st = 0 then 200 else avgLatencyMs st)
      in fdiv 1000 (of_int (max effectiveLatency 50)))"

definition weights :: "nat \<Rightarrow> rat \<times> rat \<times> rat" where
  "weights amt = (if amt > 5000 then (lit_0_7, lit_0_1, lit_0_2) else (lit_0_3, lit_0_5, lit_0_2))"

definition score :: "nat \<Rightarrow> gateway_stats \<Rightarrow> rat" where
  "score amt st =
     (let healthMultiplier = (if circuitState st = HALF_OPEN then lit_0_3 else 1);
          (wSuccess, wCost, wLatency) = weights amt
      in fmul healthMultiplier
           (fadd (fadd (fmul wSuccess (successRate st)) (fmul wCost (costScore st)))
                 (fmul wLatency (fdiv (latencyScore st) 20))))"

text \<open>An equation that evaluates the weights first.\<close>

lemma score_code [code]:
  "score amt st = fmul (if circuitState st = HALF_OPEN then lit_0_3 else 1)
     (fadd (fadd (fmul (fst (weights amt)) (successRate st)) (fmul (fst (snd (weights amt))) (costScore st)))
           (fmul (snd (snd (weights amt))) (fdiv (latencyScore st) 20)))"
  by (simp add: score_def Let_def split: prod.splits)

subsection \<open>Ranking\<close>

text \<open>
  A candidate is a gateway with its score and the statistics it was computed from; an
  \<open>OPEN\<close> gateway has score -1. \<open>circuit_key\<close> is the cool-down key in Redis.
\<close>

record candidate =
  provider :: GatewayProvider
  cscore :: rat
  cstats :: gateway_stats

definition circuit_key :: "GatewayProvider \<Rightarrow> string" where
  "circuit_key g = ''circuit:open:'' @ gateway_name g"

definition score_candidate :: "nat \<Rightarrow> gateway_stats \<Rightarrow> candidate" where
  "score_candidate amt st =
     \<lparr>provider = gateway st, cscore = (if circuitState st = OPEN then - 1 else score amt st), cstats = st\<rparr>"

definition half_open :: "gateway_stats \<Rightarrow> gateway_stats" where
  "half_open st = st\<lparr>circuitState := HALF_OPEN, consecutiveFailures := 0\<rparr>"

text \<open>
  The callback of \<open>statsList.map\<close>. The entity that \<open>save\<close> is given is scored afterwards;
  the update timestamp \<open>save\<close> refreshes plays no part in the score.
\<close>

definition candidate_of ::
  "'d orm \<Rightarrow> 'r redis_client \<Rightarrow> nat \<Rightarrow> gateway_stats \<Rightarrow> (('d, 'r) node, candidate) io" where
  "candidate_of D C amt st =
     (if circuitState st = OPEN then
        andThen (on_redis (redis_get C (circuit_key (gateway st)))) (\<lambda>isTripped.
          if \<not> str_truthy isTripped then
            andThen (on_db (saveStats D (half_open st))) (\<lambda>_. ret (score_candidate amt (half_open st)))
          else ret (score_candidate amt st))
      else ret (score_candidate amt st))"

text \<open>The two comparators of the method: highest score first, lowest cost first.\<close>

definition by_score :: "candidate \<Rightarrow> candidate \<Rightarrow> rat" where
  "by_score a b = fsub (cscore b) (cscore a)"

definition by_cost :: "candidate \<Rightarrow> candidate \<Rightarrow> rat" where
  "by_cost a b = fsub (of_int (costBps (cstats a))) (of_int (costBps (cstats b)))"

definition rank_candidates :: "candidate list \<Rightarrow> GatewayProvider list" where
  "rank_candidates candidates =
     (let filtered = js_sort by_score (filter (\<lambda>c. cscore c \<ge> 0) candidates)
      in if filtered = [] then
           map provider (js_sort by_cost candidates)
         else map provider filtered)"

definition getRankedGateways ::
  "env \<Rightarrow> 'd orm \<Rightarrow> 'r redis_client \<Rightarrow> nat \<Rightarrow> (('d, 'r) node, GatewayProvider list) io" where
  "getRankedGateways env D C amt =
     andThen (on_db (findStats D)) (\<lambda>all.
     let isTest = env ''NODE_ENV'' = Some ''test'';
         statsList = filter (\<lambda>st. isTest \<or> isGatewayConfigured env (gateway st)) all
     in andThen (promise_all (map (candidate_of D C amt) statsList)) (\<lambda>candidates.
        ret (rank_candidates candidates)))"

subsection \<open>Statistics and the circuit breaker\<close>

text \<open>The moving average of the latency: the new sample counts for a tenth.\<close>

definition ema :: "int \<Rightarrow> int \<Rightarrow> int" where
  "ema avg latency =
     (if avg = 0 then latency
      else js_round (fadd (fmul (of_int avg) lit_0_9) (fmul (of_int latency) lit_0_1)))"

definition success_stats :: "int \<Rightarrow> gateway_stats \<Rightarrow> gateway_stats" where
  "success_stats latency st =
     st\<lparr>successCount := successCount st + 1, consecutiveFailures := 0,
        avgLatencyMs := ema (avgLatencyMs st) latency\<rparr>"

definition recordSuccess ::
  "'d orm \<Rightarrow> 'r redis_client \<Rightarrow> GatewayProvider \<Rightarrow> int \<Rightarrow> (('d, 'r) node, unit) io" where
  "recordSuccess D C g latency =
     andThen (on_db (findStatsOf D g)) (\<lambda>found. case found of
       None \<Rightarrow> ret ()
     | Some st \<Rightarrow>
         let st1 = success_stats latency st in
         if circuitState st1 \<noteq> CLOSED then
           andThen (on_redis (redis_del C (circuit_key g))) (\<lambda>_.
           andThen (on_db (saveStats D (st1\<lparr>circuitState := CLOSED\<rparr>))) (\<lambda>_. ret ()))
         else andThen (on_db (saveStats D st1)) (\<lambda>_. ret ()))"

definition failure_stats :: "int \<Rightarrow> gateway_stats \<Rightarrow> gateway_stats" where
  "failure_stats latency st =
     (let st1 = st\<lparr>failureCount := failureCount st + 1, consecutiveFailures := consecutiveFailures st + 1\<rparr>
      in if latency > 0 then st1\<lparr>avgLatencyMs := ema (avgLatencyMs st1) latency\<rparr> else st1)"

definition recordFailure ::
  "'d orm \<Rightarrow> 'r redis_client \<Rightarrow> GatewayProvider \<Rightarrow> int \<Rightarrow> (('d, 'r) node, unit) io" where
  "recordFailure D C g latency =
     andThen (on_db (findStatsOf D g)) (\<lambda>found. case found of
       None \<Rightarrow> ret ()
     | Some st \<Rightarrow>
         let st1 = failure_stats latency st in
         if consecutiveFailures st1 \<ge> 3 \<and> circuitState st1 \<noteq> OPEN then
           andThen (on_redis (redis_set C (circuit_key g) ''open'' None (Some EX_seconds) (Some 30))) (\<lambda>_.
           andThen (on_db (saveStats D (st1\<lparr>circuitState := OPEN\<rparr>))) (\<lambda>_. ret ()))
         else andThen (on_db (saveStats D st1)) (\<lambda>_. ret ()))"

subsection \<open>Bounds of the score\<close>

lemma costScore_bounds: "0 \<le> costScore st" "0 \<le> costBps st \<Longrightarrow> costScore st \<le> 1"
proof -
  show "0 \<le> costScore st" by (simp add: costScore_def)
  assume c: "0 \<le> costBps st"
  have "fsub 300 (of_int (costBps st)) \<le> rnd 300"
    unfolding fsub_def using c by (intro ieee.mono) simp
  also have "rnd 300 = 300" using ieee.of_int [of 300] by simp
  finally have "fsub 300 (of_int (costBps st)) / 300 \<le> 1" by simp
  then show "costScore st \<le> 1"
    unfolding costScore_def fdiv_def by (simp add: ieee.le_one)
qed

lemma successRate_bounds: "0 \<le> successRate st" "successRate st \<le> 1"
  unfolding successRate_def Let_def fdiv_def
  by (auto intro!: ieee.nonneg ieee.le_one simp: divide_le_eq)

lemma latencyScore_bounds: "0 \<le> fdiv (latencyScore st) 20" "fdiv (latencyScore st) 20 \<le> 1"
proof -
  define l where "l = (if avgLatencyMs st = 0 then 200 else avgLatencyMs st)"
  have l: "(50 :: rat) \<le> of_int (max l 50)" by simp
  have s: "latencyScore st = rnd (1000 / of_int (max l 50))"
    by (simp add: latencyScore_def l_def fdiv_def Let_def)
  have "(1000 :: rat) / of_int (max l 50) \<le> of_int 20"
    using l by (simp add: divide_le_eq)
  then have "rnd (1000 / of_int (max l 50)) \<le> rnd (of_int 20)"
    by (rule ieee.mono)
  then have le: "latencyScore st \<le> 20" using ieee.of_int [of 20] by (simp add: s)
  have ge: "0 \<le> latencyScore st" unfolding s using l by (intro ieee.nonneg) simp
  from le show "fdiv (latencyScore st) 20 \<le> 1" unfolding fdiv_def by (intro ieee.le_one) simp
  from ge show "0 \<le> fdiv (latencyScore st) 20" unfolding fdiv_def by (intro ieee.nonneg) simp
qed

lemma lit_bounds: "0 \<le> lit_0_1" "0 \<le> lit_0_2" "0 \<le> lit_0_3" "0 \<le> lit_0_5" "0 \<le> lit_0_7" "lit_0_3 \<le> 1"
  unfolding lit_0_1_def lit_0_2_def lit_0_3_def lit_0_5_def lit_0_7_def
  by (intro ieee.nonneg ieee.le_one; simp)+

lemma fadd_mono: "a \<le> a' \<Longrightarrow> b \<le> b' \<Longrightarrow> fadd a b \<le> fadd a' b'"
  unfolding fadd_def by (intro ieee.mono add_mono)

lemma fmul_mono: "0 \<le> a \<Longrightarrow> b \<le> b' \<Longrightarrow> fmul a b \<le> fmul a b'"
  unfolding fmul_def by (intro ieee.mono mult_left_mono)

lemma fmul_nonneg: "0 \<le> a \<Longrightarrow> 0 \<le> b \<Longrightarrow> 0 \<le> fmul a b"
  unfolding fmul_def by (intro ieee.nonneg) simp

lemma fadd_nonneg: "0 \<le> a \<Longrightarrow> 0 \<le> b \<Longrightarrow> 0 \<le> fadd a b"
  unfolding fadd_def by (intro ieee.nonneg) simp

text \<open>The bracket of the formula, and its value when every part is 1.\<close>

definition raw_score :: "nat \<Rightarrow> rat \<Rightarrow> rat \<Rightarrow> rat \<Rightarrow> rat" where
  "raw_score amt sr cs ls = (let (wSuccess, wCost, wLatency) = weights amt
     in fadd (fadd (fmul wSuccess sr) (fmul wCost cs)) (fmul wLatency ls))"

lemma score_raw:
  "score amt st = fmul (if circuitState st = HALF_OPEN then lit_0_3 else 1)
     (raw_score amt (successRate st) (costScore st) (fdiv (latencyScore st) 20))"
  by (simp add: score_def raw_score_def Let_def split: prod.splits)

lemma raw_score_mono:
  "a \<le> a' \<Longrightarrow> b \<le> b' \<Longrightarrow> c \<le> c' \<Longrightarrow> raw_score amt a b c \<le> raw_score amt a' b' c'"
  using lit_bounds by (auto simp: raw_score_def weights_def intro!: fadd_mono fmul_mono)

lemma raw_score_nonneg: "0 \<le> a \<Longrightarrow> 0 \<le> b \<Longrightarrow> 0 \<le> c \<Longrightarrow> 0 \<le> raw_score amt a b c"
  using lit_bounds by (auto simp: raw_score_def weights_def intro!: fadd_nonneg fmul_nonneg)

lemma raw_score_top_high:
  "fadd (fadd (fmul lit_0_7 1) (fmul lit_0_1 1)) (fmul lit_0_2 1) \<le> 1"
  by code_simp

lemma raw_score_top_low:
  "fadd (fadd (fmul lit_0_3 1) (fmul lit_0_5 1)) (fmul lit_0_2 1) \<le> 1"
  by code_simp

lemma raw_score_top: "raw_score amt 1 1 1 \<le> 1"
  using raw_score_top_high raw_score_top_low by (simp add: raw_score_def weights_def)

lemma score_nonneg: "0 \<le> score amt st"
  unfolding score_raw using lit_bounds
  by (intro fmul_nonneg raw_score_nonneg successRate_bounds costScore_bounds(1) latencyScore_bounds) auto

lemma score_le_one:
  assumes "0 \<le> costBps st"
  shows "score amt st \<le> 1"
proof -
  let ?h = "if circuitState st = HALF_OPEN then lit_0_3 else 1"
  let ?r = "raw_score amt (successRate st) (costScore st) (fdiv (latencyScore st) 20)"
  have "?r \<le> raw_score amt 1 1 1"
    by (intro raw_score_mono successRate_bounds costScore_bounds(2) latencyScore_bounds assms)
  then have r: "?r \<le> 1" using raw_score_top [of amt] by linarith
  have r0: "0 \<le> ?r" by (intro raw_score_nonneg successRate_bounds costScore_bounds(1) latencyScore_bounds)
  have "?h * ?r \<le> 1 * 1"
    using r r0 lit_bounds by (intro mult_mono) auto
  then show ?thesis unfolding score_raw fmul_def by (intro ieee.le_one) simp
qed

subsection \<open>The ranking\<close>

text \<open>
  What the ranking promises of the (cooled-down) statistics: the gateways whose circuit is
  not \<open>OPEN\<close>, best score first; if there is none, all of them, cheapest first. Ties keep the
  order of the rows.
\<close>

definition ranking :: "nat \<Rightarrow> gateway_stats list \<Rightarrow> GatewayProvider list" where
  "ranking amt sts =
     (if \<exists>st \<in> set sts. circuitState st \<noteq> OPEN
      then map gateway (sort_key (\<lambda>st. - score amt st) (filter (\<lambda>st. circuitState st \<noteq> OPEN) sts))
      else map gateway (sort_key costBps sts))"

lemma sort_key_map: "sort_key f (map g xs) = map g (sort_key (\<lambda>x. f (g x)) xs)"
proof -
  have "insort_key f (g x) (map g ys) = map g (insort_key (\<lambda>x. f (g x)) x ys)" for x ys
    by (induction ys) auto
  then show ?thesis by (induction xs) simp_all
qed

lemma sort_key_cong:
  assumes "\<And>x. x \<in> set xs \<Longrightarrow> f x = g x"
  shows "sort_key f xs = sort_key g xs"
  using assms
proof (induction xs)
  case (Cons x xs)
  have "insort_key f y ys = insort_key g y ys" if "\<forall>z \<in> insert y (set ys). f z = g z" for y ys
    using that by (induction ys) auto
  with Cons show ?case by simp
qed simp

lemma score_candidate_simps [simp]:
  "provider (score_candidate amt st) = gateway st" "cstats (score_candidate amt st) = st"
  "0 \<le> cscore (score_candidate amt st) \<longleftrightarrow> circuitState st \<noteq> OPEN"
  "circuitState st \<noteq> OPEN \<Longrightarrow> cscore (score_candidate amt st) = score amt st"
  by (simp_all add: score_candidate_def score_nonneg)

lemma fsub_sign: "fsub a b \<le> 0 \<longleftrightarrow> a \<le> b"
  by (simp add: fsub_def ieee.sign)

lemma js_sort_by_score: "js_sort by_score = sort_key (\<lambda>c. - cscore c)"
  by (rule ext, rule js_sort_sort_key) (simp add: by_score_def fsub_sign)

lemma js_sort_by_cost: "js_sort by_cost = sort_key (\<lambda>c. costBps (cstats c))"
  by (rule ext, rule js_sort_sort_key) (simp add: by_cost_def fsub_sign)

lemma rank_candidates_ranking: "rank_candidates (map (score_candidate amt) sts) = ranking amt sts"
proof -
  let ?open = "\<lambda>st. circuitState st \<noteq> OPEN"
  have fil: "filter (\<lambda>c. 0 \<le> cscore c) (map (score_candidate amt) sts) =
      map (score_candidate amt) (filter ?open sts)"
    by (simp add: filter_map comp_def)
  have "sort_key (\<lambda>c. - cscore c) (map (score_candidate amt) (filter ?open sts)) =
      map (score_candidate amt) (sort_key (\<lambda>st. - score amt st) (filter ?open sts))"
    unfolding sort_key_map by (rule arg_cong [where f = "map _"], rule sort_key_cong) simp
  then have srt: "js_sort by_score (filter (\<lambda>c. 0 \<le> cscore c) (map (score_candidate amt) sts)) =
      map (score_candidate amt) (sort_key (\<lambda>st. - score amt st) (filter ?open sts))"
    by (simp only: js_sort_by_score fil)
  have "(filter ?open sts = []) \<longleftrightarrow> \<not> (\<exists>st \<in> set sts. ?open st)"
    by (simp add: filter_empty_conv)
  moreover have "sort_key (\<lambda>st. - score amt st) (filter ?open sts) = [] \<longleftrightarrow> filter ?open sts = []"
    by (metis length_0_conv length_sort)
  ultimately show ?thesis
    unfolding rank_candidates_def Let_def srt js_sort_by_cost
    by (simp add: ranking_def sort_key_map comp_def)
qed

lemma set_ranking: "set (ranking amt sts) \<subseteq> gateway ` set sts"
  by (auto simp: ranking_def)

lemma distinct_ranking: "distinct (map gateway sts) \<Longrightarrow> distinct (ranking amt sts)"
  by (auto simp: ranking_def distinct_map inj_on_def intro: distinct_filter)

lemma ranking_empty: "ranking amt sts = [] \<longleftrightarrow> sts = []"
proof (cases "\<exists>st \<in> set sts. circuitState st \<noteq> OPEN")
  case True
  then obtain st where "st \<in> set (sort_key (\<lambda>st. - score amt st) (filter (\<lambda>st. circuitState st \<noteq> OPEN) sts))"
    by auto
  then show ?thesis using True by (auto simp: ranking_def simp del: set_sort)
next
  case False
  then show ?thesis
    using length_sort [of costBps sts] by (auto simp: ranking_def simp del: length_sort)
qed

text \<open>Every gateway of the list scores at least as much as the next.\<close>

lemma sorted_wrt_ranking:
  assumes "\<exists>st \<in> set sts. circuitState st \<noteq> OPEN"
  shows "\<exists>rs. ranking amt sts = map gateway rs \<and> mset rs = mset (filter (\<lambda>st. circuitState st \<noteq> OPEN) sts) \<and>
    sorted_wrt (\<lambda>a b. score amt a \<ge> score amt b) rs"
proof -
  let ?rs = "sort_key (\<lambda>st. - score amt st) (filter (\<lambda>st. circuitState st \<noteq> OPEN) sts)"
  have "sorted (map (\<lambda>st. - score amt st) ?rs)" by simp
  then have "sorted_wrt (\<lambda>a b. score amt a \<ge> score amt b) ?rs"
    by (simp add: sorted_map del: sorted_sort_key)
  then show ?thesis using assms by (intro exI [of _ ?rs]) (simp add: ranking_def)
qed

subsection \<open>The circuit breaker\<close>

text \<open>
  The events a gateway's statistics see, and the counter they implement: failures since the
  last success or cool-down.
\<close>

definition trip :: "gateway_stats \<Rightarrow> gateway_stats" where
  "trip st = (if consecutiveFailures st \<ge> 3 then st\<lparr>circuitState := OPEN\<rparr> else st)"

definition close_circuit :: "gateway_stats \<Rightarrow> gateway_stats" where
  "close_circuit st = st\<lparr>circuitState := CLOSED\<rparr>"

datatype breaker_event = Succeeded int | Failed int | CooledDown

fun breaker_step :: "gateway_stats \<Rightarrow> breaker_event \<Rightarrow> gateway_stats" where
  "breaker_step st (Succeeded latency) = close_circuit (success_stats latency st)"
| "breaker_step st (Failed latency) = trip (failure_stats latency st)"
| "breaker_step st CooledDown = (if circuitState st = OPEN then half_open st else st)"

fun streak :: "nat \<Rightarrow> breaker_event list \<Rightarrow> nat" where
  "streak n [] = n"
| "streak n (Succeeded l # es) = streak 0 es"
| "streak n (Failed l # es) = streak (Suc n) es"
| "streak n (CooledDown # es) = streak (if n \<ge> 3 then 0 else n) es"

definition breaker_ok :: "gateway_stats \<Rightarrow> bool" where
  "breaker_ok st \<longleftrightarrow> (circuitState st = OPEN \<longleftrightarrow> consecutiveFailures st \<ge> 3)"

lemma failure_stats_simps [simp]:
  "gateway (failure_stats l st) = gateway st" "circuitState (failure_stats l st) = circuitState st"
  "consecutiveFailures (failure_stats l st) = Suc (consecutiveFailures st)"
  "successCount (failure_stats l st) = successCount st"
  "failureCount (failure_stats l st) = Suc (failureCount st)" "costBps (failure_stats l st) = costBps st"
  by (simp_all add: failure_stats_def Let_def)

lemma success_stats_simps [simp]:
  "gateway (success_stats l st) = gateway st" "circuitState (success_stats l st) = circuitState st"
  "consecutiveFailures (success_stats l st) = 0"
  "successCount (success_stats l st) = Suc (successCount st)"
  "failureCount (success_stats l st) = failureCount st" "costBps (success_stats l st) = costBps st"
  by (simp_all add: success_stats_def)

lemma gateway_breaker_step [simp]: "gateway (breaker_step st e) = gateway st"
  by (cases e) (simp_all add: trip_def close_circuit_def half_open_def)

lemma breaker_step_ok: "breaker_ok st \<Longrightarrow> breaker_ok (breaker_step st e)"
  by (cases e) (auto simp: breaker_ok_def trip_def close_circuit_def half_open_def)

lemma breaker_run_streak:
  "breaker_ok st \<Longrightarrow> consecutiveFailures (foldl breaker_step st es) = streak (consecutiveFailures st) es"
proof (induction es arbitrary: st)
  case (Cons e es)
  from Cons.prems have "breaker_ok (breaker_step st e)" by (rule breaker_step_ok)
  with Cons.IH [OF this] Cons.prems show ?case
    by (cases e) (auto simp: breaker_ok_def trip_def close_circuit_def half_open_def)
qed simp

lemma breaker_run_ok: "breaker_ok st \<Longrightarrow> breaker_ok (foldl breaker_step st es)"
  by (induction es arbitrary: st) (auto intro: breaker_step_ok)

subsection \<open>The moving average\<close>

lemma ema_mono:
  assumes "a \<le> a'" "l \<le> l'"
  shows "js_round (fadd (fmul (of_int a) lit_0_9) (fmul (of_int l) lit_0_1)) \<le>
    js_round (fadd (fmul (of_int a') lit_0_9) (fmul (of_int l') lit_0_1))"
proof -
  have "0 \<le> lit_0_9" "0 \<le> lit_0_1" by (simp_all add: lit_0_9_def lit_0_1_def ieee.nonneg)
  then have "fmul (of_int a) lit_0_9 \<le> fmul (of_int a') lit_0_9" "fmul (of_int l) lit_0_1 \<le> fmul (of_int l') lit_0_1"
    unfolding fmul_def using assms by (intro ieee.mono mult_right_mono; simp)+
  then show ?thesis by (intro js_round_mono fadd_mono)
qed

lemma ema_between:
  assumes "0 \<le> a" "a < 2 ^ 31" "0 \<le> l" "l < 2 ^ 31" "a \<noteq> 0"
  shows "min a l \<le> ema a l" and "ema a l \<le> max a l"
proof -
  have self: "js_round (fadd (fmul (of_int m) lit_0_9) (fmul (of_int m) lit_0_1)) = m"
    if "0 \<le> m" "m < 2 ^ 31" for m
    using ieee.blend_self [OF that] by (simp add: fadd_def fmul_def lit_0_9_def lit_0_1_def)
  have "min a l = js_round (fadd (fmul (of_int (min a l)) lit_0_9) (fmul (of_int (min a l)) lit_0_1))"
    using assms by (simp add: self min_def)
  also have "\<dots> \<le> ema a l" using assms(5) by (simp add: ema_def) (rule ema_mono; simp)
  finally show "min a l \<le> ema a l" .
  have "ema a l \<le> js_round (fadd (fmul (of_int (max a l)) lit_0_9) (fmul (of_int (max a l)) lit_0_1))"
    using assms(5) by (simp add: ema_def) (rule ema_mono; simp)
  also have "\<dots> = max a l" using assms by (simp add: self max_def)
  finally show "ema a l \<le> max a l" .
qed

subsection \<open>The methods on the tables\<close>

text \<open>None of them charges anyone.\<close>

lemma keeps_charges_candidate_of: "keeps (\<lambda>s. P (charges s)) (candidate_of D C amt st)"
  unfolding candidate_of_def by (intro keeping)

lemma keeps_charges_getRankedGateways [keeping]:
  "keeps (\<lambda>s. P (charges s)) (getRankedGateways env D C amt)"
proof -
  have "keeps (\<lambda>s. P (charges s)) (promise_all (map (candidate_of D C amt) sts))" for sts
    by (rule keeps_promise_all) (auto intro: keeps_charges_candidate_of)
  then show ?thesis unfolding getRankedGateways_def Let_def by (intro keeping)
qed

lemma keeps_charges_record [keeping]:
  "keeps (\<lambda>s. P (charges s)) (recordSuccess D C g latency)"
  "keeps (\<lambda>s. P (charges s)) (recordFailure D C g latency)"
  unfolding recordSuccess_def recordFailure_def Let_def by (intro keeping)+

context redis_invariant
begin

lemma keeps_candidate_of: "keeps (\<lambda>s. Q (redis s)) (candidate_of D C amt st)"
  unfolding candidate_of_def by (intro keeping)

lemma keeps_getRankedGateways [keeping]: "keeps (\<lambda>s. Q (redis s)) (getRankedGateways env D C amt)"
proof -
  have "keeps (\<lambda>s. Q (redis s)) (promise_all (map (candidate_of D C amt) sts))" for sts
    by (rule keeps_promise_all) (auto intro: keeps_candidate_of)
  then show ?thesis unfolding getRankedGateways_def Let_def by (intro keeping)
qed

lemma keeps_record [keeping]:
  "keeps (\<lambda>s. Q (redis s)) (recordSuccess D C g latency)"
  "keeps (\<lambda>s. Q (redis s)) (recordFailure D C g latency)"
  unfolding recordSuccess_def recordFailure_def Let_def by (intro keeping)+

end

definition cool_down :: "entries \<Rightarrow> gateway_stats \<Rightarrow> gateway_stats" where
  "cool_down E st =
     (if circuitState st = OPEN \<and> \<not> str_truthy (map_option fst (E (circuit_key (gateway st))))
      then half_open st else st)"

definition cooled :: "gateway_stats \<Rightarrow> gateway_stats \<Rightarrow> bool" where
  "cooled st st' \<longleftrightarrow> st' = st \<or> circuitState st = OPEN \<and> st' = half_open st"

lemma gateway_cooled: "cooled st st' \<Longrightarrow> gateway st' = gateway st"
  by (auto simp: cooled_def half_open_def)

lemma map_gateway_cooled: "list_all2 cooled xs ys \<Longrightarrow> map gateway ys = map gateway xs"
  by (induction rule: list_all2_induct) (auto simp: gateway_cooled)

context backend
begin

lemma candidate_of_spec:
  assumes "candidate_of D C amt st s = (Inr c, s')"
  shows "(isMockMode (redis s) \<longrightarrow> isMockMode (redis s')) \<and> payments (tabs (db s')) = payments (tabs (db s)) \<and>
    (\<exists>st'. c = score_candidate amt st' \<and> cooled st st' \<and>
      (isMockMode (redis s') = isMockMode (redis s) \<longrightarrow>
         redis_view kv (redis s') = redis_view kv (redis s) \<and> st' = cool_down (redis_view kv (redis s)) st))"
proof (cases "circuitState st = OPEN")
  case False
  with assms show ?thesis by (auto simp: candidate_of_def cooled_def cool_down_def)
next
  case True
  with assms obtain x s1 where g: "on_redis (redis_get C (circuit_key (gateway st))) s = (Inr x, s1)"
    and rest: "(if \<not> str_truthy x then andThen (on_db (saveStats D (half_open st)))
        (\<lambda>_. ret (score_candidate amt (half_open st))) else ret (score_candidate amt st)) s1 = (Inr c, s')"
    by (auto simp: candidate_of_def elim!: andThen_InrD)
  from g have g': "redis_get C (circuit_key (gateway st)) (redis s) = (Inr x, redis s1)" and db1: "db s1 = db s"
    by (simp_all add: on_redis_eq)
  from rest have r': "redis s' = redis s1" and p': "payments (tabs (db s')) = payments (tabs (db s1))"
    and c: "c = score_candidate amt (if str_truthy x then st else half_open st)"
    by (auto simp: on_db_eq split: if_splits elim!: andThen_InrD dest!: implementsD [OF saveStats])
  show ?thesis
    using redis_get_steady [OF g'] redis_get_mode [OF g'] True
    by (auto simp: r' p' db1 c cooled_def cool_down_def)
qed

lemma candidate_of_fail:
  assumes "candidate_of D C amt st s = (Inl e, s')"
  shows "db_failure e \<and> payments (tabs (db s')) = payments (tabs (db s))"
proof -
  have open': "circuitState st = OPEN" using assms by (auto simp: candidate_of_def split: if_splits)
  obtain x s1 where g: "on_redis (redis_get C (circuit_key (gateway st))) s = (Inr x, s1)"
    using service.kget_returns [of "circuit_key (gateway st)" "redis s"]
    by (auto simp: on_redis_def)
  with assms open' show ?thesis
    by (auto simp: candidate_of_def andThen_Inr on_redis_eq andThen_def on_db_def
        split: if_splits prod.splits sum.splits dest: implements_failD [OF saveStats])
qed

lemma candidates_spec:
  "promise_all (map (candidate_of D C amt) sts) s = (Inr cs, s') \<Longrightarrow>
    (isMockMode (redis s) \<longrightarrow> isMockMode (redis s')) \<and>
    (\<exists>sts'. cs = map (score_candidate amt) sts' \<and> list_all2 cooled sts sts' \<and>
      (isMockMode (redis s') = isMockMode (redis s) \<longrightarrow>
         redis_view kv (redis s') = redis_view kv (redis s) \<and>
         sts' = map (cool_down (redis_view kv (redis s))) sts))"
proof (induction sts arbitrary: s cs)
  case Nil
  then show ?case by simp
next
  case (Cons st sts)
  from Cons.prems obtain c s1 cs' where
    1: "candidate_of D C amt st s = (Inr c, s1)" and
    2: "promise_all (map (candidate_of D C amt) sts) s1 = (Inr cs', s')" and cs: "cs = c # cs'"
    by (auto simp: Let_def split: prod.splits sum.splits)
  from candidate_of_spec [OF 1] obtain st' where
    st': "c = score_candidate amt st'" "cooled st st'" and
    st1: "isMockMode (redis s) \<longrightarrow> isMockMode (redis s1)" and
    st2: "isMockMode (redis s1) = isMockMode (redis s) \<Longrightarrow>
      redis_view kv (redis s1) = redis_view kv (redis s) \<and> st' = cool_down (redis_view kv (redis s)) st"
    by blast
  from Cons.IH [OF 2] obtain sts' where
    sts': "cs' = map (score_candidate amt) sts'" "list_all2 cooled sts sts'" and
    m1: "isMockMode (redis s1) \<longrightarrow> isMockMode (redis s')" and
    m2: "isMockMode (redis s') = isMockMode (redis s1) \<Longrightarrow> redis_view kv (redis s') = redis_view kv (redis s1) \<and>
         sts' = map (cool_down (redis_view kv (redis s1))) sts"
    by blast
  show ?case
  proof (intro conjI exI [of _ "st' # sts'"] impI)
    assume "isMockMode (redis s)" then show "isMockMode (redis s')" using st1 m1 by blast
  next
    show "cs = map (score_candidate amt) (st' # sts')" "list_all2 cooled (st # sts) (st' # sts')"
      using cs st' sts' by simp_all
  next
    assume same: "isMockMode (redis s') = isMockMode (redis s)"
    then have s1: "isMockMode (redis s1) = isMockMode (redis s)" using st1 m1 by blast
    with same have s2: "isMockMode (redis s') = isMockMode (redis s1)" by simp
    show "redis_view kv (redis s') = redis_view kv (redis s)"
      "st' # sts' = map (cool_down (redis_view kv (redis s))) (st # sts)"
      using st2 [OF s1] m2 [OF s2] by simp_all
  qed
qed

lemma keeps_candidate_of: "keeps (\<lambda>s. payments (tabs (db s)) = P) (candidate_of D C amt st)"
  by (rule hoareI) (auto dest: candidate_of_spec candidate_of_fail)

lemma keeps_candidates: "keeps (\<lambda>s. payments (tabs (db s)) = P) (promise_all (map (candidate_of D C amt) sts))"
  by (rule keeps_promise_all) (auto intro: keeps_candidate_of)

lemma candidates_fail:
  "promise_all (map (candidate_of D C amt) sts) s = (Inl e, s') \<Longrightarrow> db_failure e"
proof (induction sts arbitrary: s s')
  case (Cons st sts)
  obtain r1 s1 where 1: "candidate_of D C amt st s = (r1, s1)" by fastforce
  obtain r2 s2 where 2: "promise_all (map (candidate_of D C amt) sts) s1 = (r2, s2)" by fastforce
  from Cons.prems 1 2 have "r1 = Inl e \<or> r2 = Inl e"
    by (auto simp: Let_def split: sum.splits)
  with 1 2 show ?case using candidate_of_fail Cons.IH by blast
qed simp

lemma getRankedGateways_spec:
  assumes "getRankedGateways env D C amt s = (r, s')"
  shows "payments (tabs (db s')) = payments (tabs (db s)) \<and>
    (case r of
       Inl e \<Rightarrow> db_failure e
     | Inr gs \<Rightarrow> \<exists>sts sts'.
         mset sts = mset (filter (\<lambda>st. env ''NODE_ENV'' = Some ''test'' \<or> isGatewayConfigured env (gateway st)) (stats (tabs (db s)))) \<and>
         list_all2 cooled sts sts' \<and> gs = ranking amt sts' \<and>
         (isMockMode (redis s') = isMockMode (redis s) \<longrightarrow> sts' = map (cool_down (redis_view kv (redis s))) sts))"
proof -
  let ?ok = "\<lambda>st. env ''NODE_ENV'' = Some ''test'' \<or> isGatewayConfigured env (gateway st)"
  obtain x s1 where f: "on_db (findStats D) s = (x, s1)" by fastforce
  then have f': "findStats D (db s) = (x, db s1)" and red: "redis s1 = redis s"
    by (simp_all add: on_db_eq)
  show ?thesis
  proof (cases x)
    case (Inl e)
    with f' implements_failD [OF findStats] have "db_failure e" "tabs (db s1) = tabs (db s)" by blast+
    moreover have "r = Inl e" "s' = s1"
      using assms f Inl by (simp_all add: getRankedGateways_def andThen_Inl)
    ultimately show ?thesis by simp
  next
    case (Inr all)
    from implementsD [OF findStats f' [unfolded Inr]]
    have T1: "tabs (db s1) = tabs (db s)" and all: "mset all = mset (stats (tabs (db s)))" by auto
    let ?sts = "filter ?ok all"
    obtain y s2 where p: "promise_all (map (candidate_of D C amt) ?sts) s1 = (y, s2)" by fastforce
    have rest: "(r, s') = (case y of Inl e \<Rightarrow> (Inl e, s2) | Inr cs \<Rightarrow> (Inr (rank_candidates cs), s2))"
      using assms f Inr p by (simp add: getRankedGateways_def andThen_def Let_def split: sum.splits)
    have pay: "payments (tabs (db s2)) = payments (tabs (db s))"
      using keepsD [OF keeps_candidates [of "payments (tabs (db s))"] _ p] T1 by simp
    show ?thesis
    proof (cases y)
      case (Inl e)
      with rest pay candidates_fail p show ?thesis by auto
    next
      case (Inr cs)
      from candidates_spec [OF p [unfolded Inr]] obtain sts' where
        cs: "cs = map (score_candidate amt) sts'" "list_all2 cooled ?sts sts'"
        "isMockMode (redis s2) = isMockMode (redis s) \<longrightarrow> sts' = map (cool_down (redis_view kv (redis s))) ?sts"
        by (auto simp: red)
      have "mset ?sts = mset (filter ?ok (stats (tabs (db s))))"
        using all by simp
      moreover from rest Inr cs(1) have "r = Inr (ranking amt sts')" "s' = s2"
        by (simp_all add: rank_candidates_ranking)
      ultimately show ?thesis
        using pay cs(2,3) by (simp only: sum.case) blast
    qed
  qed
qed

lemma save_stats_run:
  assumes "andThen (on_db (saveStats D n)) (\<lambda>_. ret ()) s = (r, s')"
  shows "redis s' = redis s \<and> (case r of
      Inl e \<Rightarrow> db_failure e \<and> tabs (db s') = tabs (db s)
    | Inr _ \<Rightarrow> \<exists>u. tabs (db s') = put_stats (n\<lparr>statsUpdatedAt := u\<rparr>) (tabs (db s)))"
proof -
  obtain x d where sv: "saveStats D n (db s) = (x, d)" by fastforce
  with assms have r: "r = (case x of Inl e \<Rightarrow> Inl e | Inr _ \<Rightarrow> Inr ())" "s' = s\<lparr>db := d\<rparr>"
    by (auto simp: andThen_def on_db_def split: sum.splits)
  show ?thesis
  proof (cases x)
    case (Inl e)
    with r implements_failD [OF saveStats sv [unfolded Inl]] show ?thesis by simp
  next
    case (Inr s1)
    with r implementsD [OF saveStats sv [unfolded Inr]] show ?thesis by auto
  qed
qed

lemma recordSuccess_spec:
  assumes "recordSuccess D C g latency s = (r, s')"
  shows "payments (tabs (db s')) = payments (tabs (db s)) \<and>
    (case r of
       Inl e \<Rightarrow> db_failure e \<and> tabs (db s') = tabs (db s)
     | Inr _ \<Rightarrow> (case stats_of (tabs (db s)) g of
         None \<Rightarrow> tabs (db s') = tabs (db s)
       | Some st \<Rightarrow> \<exists>u. tabs (db s') =
           put_stats ((breaker_step st (Succeeded latency))\<lparr>statsUpdatedAt := u\<rparr>) (tabs (db s))))"
proof -
  obtain x s1 where f: "on_db (findStatsOf D g) s = (x, s1)" by fastforce
  then have f': "findStatsOf D g (db s) = (x, db s1)" by (simp add: on_db_eq)
  show ?thesis
  proof (cases x)
    case (Inl e)
    with f' implements_failD [OF findStatsOf] have "db_failure e" "tabs (db s1) = tabs (db s)" by blast+
    with assms f Inl show ?thesis by (auto simp: recordSuccess_def andThen_Inl)
  next
    case (Inr found)
    from implementsD [OF findStatsOf f' [unfolded Inr]]
    have T1: "tabs (db s1) = tabs (db s)" and found: "found = stats_of (tabs (db s)) g" by auto
    show ?thesis
    proof (cases found)
      case None
      with assms f Inr found T1 show ?thesis by (auto simp: recordSuccess_def andThen_Inr)
    next
      case (Some st)
      let ?new = "breaker_step st (Succeeded latency)"
      obtain s2 where db2: "db s2 = db s1" and sv: "andThen (on_db (saveStats D ?new)) (\<lambda>_. ret ()) s2 = (r, s')"
      proof (cases "circuitState st = CLOSED")
        case True
        then have "?new = success_stats latency st" by (simp add: close_circuit_def)
        with True assms f Inr Some that [of s1] show thesis
          by (simp add: recordSuccess_def andThen_Inr Let_def)
      next
        case False
        obtain n s2 where d: "on_redis (redis_del C (circuit_key g)) s1 = (Inr n, s2)"
          using service.kdel_returns [of "circuit_key g" "redis s1"] by (auto simp: on_redis_def)
        with False assms f Inr Some that [of s2] show thesis
          by (auto simp: recordSuccess_def andThen_Inr Let_def close_circuit_def on_redis_eq)
      qed
      from save_stats_run [OF sv] db2 T1 Some found show ?thesis
        by (cases r) (auto simp del: breaker_step.simps)
    qed
  qed
qed

lemma recordFailure_spec:
  assumes "recordFailure D C g latency s = (r, s')"
  shows "payments (tabs (db s')) = payments (tabs (db s)) \<and>
    (case r of
       Inl e \<Rightarrow> db_failure e \<and> tabs (db s') = tabs (db s)
     | Inr _ \<Rightarrow> (case stats_of (tabs (db s)) g of
         None \<Rightarrow> tabs (db s') = tabs (db s)
       | Some st \<Rightarrow> (\<exists>u. tabs (db s') =
           put_stats ((breaker_step st (Failed latency))\<lparr>statsUpdatedAt := u\<rparr>) (tabs (db s))) \<and>
           (circuitState st \<noteq> OPEN \<longrightarrow> consecutiveFailures st \<ge> 2 \<longrightarrow>
              map_option fst (redis_view kv (redis s') (circuit_key g)) = Some ''open'')))"
proof -
  obtain x s1 where f: "on_db (findStatsOf D g) s = (x, s1)" by fastforce
  then have f': "findStatsOf D g (db s) = (x, db s1)" by (simp add: on_db_eq)
  show ?thesis
  proof (cases x)
    case (Inl e)
    with f' implements_failD [OF findStatsOf] have "db_failure e" "tabs (db s1) = tabs (db s)" by blast+
    with assms f Inl show ?thesis by (auto simp: recordFailure_def andThen_Inl)
  next
    case (Inr found)
    from implementsD [OF findStatsOf f' [unfolded Inr]]
    have T1: "tabs (db s1) = tabs (db s)" and found: "found = stats_of (tabs (db s)) g" by auto
    show ?thesis
    proof (cases found)
      case None
      with assms f Inr found T1 show ?thesis by (auto simp: recordFailure_def andThen_Inr)
    next
      case (Some st)
      let ?new = "breaker_step st (Failed latency)"
      let ?trips = "circuitState st \<noteq> OPEN \<and> consecutiveFailures st \<ge> 2"
      obtain s2 where db2: "db s2 = db s1" and sv: "andThen (on_db (saveStats D ?new)) (\<lambda>_. ret ()) s2 = (r, s')"
        and key: "?trips \<Longrightarrow> map_option fst (redis_view kv (redis s2) (circuit_key g)) = Some ''open''"
      proof (cases ?trips)
        case False
        then have "?new = failure_stats latency st" by (auto simp: trip_def)
        with False assms f Inr Some that [of s1] show thesis
          by (auto simp: recordFailure_def andThen_Inr Let_def)
      next
        case True
        obtain b c where d: "redis_set C (circuit_key g) ''open'' None (Some EX_seconds) (Some 30) (redis s1) = (Inr b, c)"
          using service.kset_returns by blast
        with service.kset_stores [OF d] True assms f Inr Some that [of "s1\<lparr>redis := c\<rparr>"] show thesis
          by (auto simp: recordFailure_def andThen_Inr Let_def trip_def on_redis_def andThen_def)
      qed
      from save_stats_run [OF sv] db2 T1 Some found key show ?thesis
        by (cases r) (auto simp del: breaker_step.simps)
    qed
  qed
qed

end

end
