(* ===== verification/Adapters.thy ===== *)
theory Adapters
  imports Services JsNumber
begin

text \<open>
  \<open>src/gateways/adapters/*.ts\<close>: the four gateway adapters, with their mock modes and their HTTP calls. The network (\<open>fetch\<close>), the timers,
  the clock, uuids and SHA-512 are outside the repository: they are fields of the record
  \<open>world\<close>. A charge is the time in milliseconds after which its promise settles and the
  response it settles with; the adapters catch every exception, so it never rejects.
\<close>

subsection \<open>Requests and responses\<close>

datatype http_body = TextBody string | FormBody "(string \<times> string) list"

record http_request =
  url :: string
  http_headers :: "(string \<times> string) list"
  http_body :: http_body

text \<open>A response's headers arrive first; reading the body takes further time.\<close>

record http_response =
  status :: nat
  headers_ms :: nat
  body_ms :: nat
  body :: string

text \<open>
  \<open>sleep d\<close> is how long a \<open>setTimeout\<close> of \<open>d\<close> ms takes by the clock; \<open>fetch\<close> either
  rejects after some time or gives a response; \<open>syntaxError\<close> is what \<open>JSON.parse\<close> throws
  on a text; \<open>uuidv4\<close> is the uuid drawn for a transaction; the last two are the digests
  of \<open>crypto\<close>, as hexadecimal text.
\<close>

record world =
  getenv :: env
  clock :: timestamp
  sleep :: "nat \<Rightarrow> nat"
  fetch :: "http_request \<Rightarrow> (exn \<times> nat) + http_response"
  syntaxError :: "string \<Rightarrow> exn"
  uuidv4 :: "string \<Rightarrow> string"
  sha512_hex :: "string \<Rightarrow> string"
  hmac_sha256_hex :: "string \<Rightarrow> string \<Rightarrow> string"

type_synonym charge = "nat \<times> charge_response"

subsection \<open>Pieces of the standard library\<close>

definition to_lower :: "string \<Rightarrow> string" where
  "to_lower s = map (\<lambda>c. let n = of_char c in if 65 \<le> n \<and> n \<le> (90 :: nat) then char_of (n + 32) else c) s"

definition str_text :: "string option \<Rightarrow> string" where
  "str_text x = (case x of None \<Rightarrow> ''undefined'' | Some s \<Rightarrow> s)"

text \<open>\<open>x.toFixed(2)\<close>: the hundredth nearest to the double, the larger one on a tie.\<close>

definition toFixed2 :: "rat \<Rightarrow> string" where
  "toFixed2 x = (let n = nat (js_round (100 * x))
     in decimal (n div 100) @ ''.'' @ [digit (n div 10 mod 10), digit (n mod 10)])"

definition base64_char :: "nat \<Rightarrow> char" where
  "base64_char n =
     (if n < 26 then char_of (65 + n) else if n < 52 then char_of (71 + n)
      else if n < 62 then char_of (n - 4) else if n = 62 then CHR ''+'' else CHR ''/'')"

fun base64 :: "nat list \<Rightarrow> string" where
  "base64 [] = []"
| "base64 [a] = [base64_char (a div 4), base64_char (a mod 4 * 16), CHR ''='', CHR ''='']"
| "base64 [a, b] = [base64_char (a div 4), base64_char (a mod 4 * 16 + b div 16),
     base64_char (b mod 16 * 4), CHR ''='']"
| "base64 (a # b # c # bs) = [base64_char (a div 4), base64_char (a mod 4 * 16 + b div 16),
     base64_char (b mod 16 * 4 + c div 64), base64_char (c mod 64)] @ base64 bs"

definition basic_auth :: "string option \<Rightarrow> string option \<Rightarrow> string" where
  "basic_auth keyId keySecret =
     ''Basic '' @ base64 (map of_char (str_text keyId @ '':'' @ str_text keySecret))"

text \<open>\<open>await response.json()\<close>.\<close>

definition response_json :: "world \<Rightarrow> http_response \<Rightarrow> exn + json" where
  "response_json w r = (case JSON_parse (body r) of None \<Rightarrow> Inl (syntaxError w (body r)) | Some j \<Rightarrow> Inr j)"

subsection \<open>Responses the adapters share\<close>

definition succeeded :: "json option \<Rightarrow> json \<Rightarrow> nat \<Rightarrow> charge_response" where
  "succeeded i raw ms = \<lparr>success = True, resp_gatewayTxnId = i, rawResponse = raw, error = None, latencyMs = int ms\<rparr>"

definition failed :: "json option \<Rightarrow> json \<Rightarrow> nat \<Rightarrow> charge_response" where
  "failed err raw ms =
     \<lparr>success = False, resp_gatewayTxnId = Some JNull, rawResponse = raw, error = err, latencyMs = int ms\<rparr>"

text \<open>The three outcomes of a mock mode: a slow failure, a decline, a success.\<close>

definition mock_timeout :: "world \<Rightarrow> charge" where
  "mock_timeout w = (sleep w 2000, failed (Some (JStr ''Gateway call timed out''))
     (JObj [(''error'', JStr ''Timeout after 2000ms'')]) (sleep w 2000))"

definition mock_decline :: "world \<Rightarrow> string \<Rightarrow> json \<Rightarrow> charge" where
  "mock_decline w err raw = (sleep w 150, failed (Some (JStr err)) raw (sleep w 150))"

definition mock_success :: "world \<Rightarrow> nat \<Rightarrow> string \<Rightarrow> json \<Rightarrow> charge" where
  "mock_success w ms i raw = (sleep w ms, succeeded (Some (JStr i)) raw (sleep w ms))"

text \<open>The \<open>catch\<close> of every adapter: \<open>err.message || fallback\<close>.\<close>

definition caught :: "string \<Rightarrow> exn \<Rightarrow> nat \<Rightarrow> charge" where
  "caught fallback e ms =
     (ms, failed (js_or (Some (JStr (err_message e))) (Some (JStr fallback)))
        (JObj [(''error'', JStr (err_message e))]) ms)"

text \<open>\<open>data.error?.key || fallback\<close> of a refused call; \<open>data.error\<close> throws on \<open>null\<close>.\<close>

definition refused :: "string \<Rightarrow> string \<Rightarrow> json \<Rightarrow> nat \<Rightarrow> exn + charge_response" where
  "refused key fallback data ms =
     (case get_prop ''error'' (Some data) of
        Inl e \<Rightarrow> Inl e
      | Inr err \<Rightarrow> Inr (failed (js_or (opt_prop key err) (Some (JStr fallback))) data ms))"

definition accepted :: "json \<Rightarrow> nat \<Rightarrow> exn + charge_response" where
  "accepted data ms =
     (case get_prop ''id'' (Some data) of Inl e \<Rightarrow> Inl e | Inr i \<Rightarrow> Inr (succeeded i data ms))"

definition settle :: "string \<Rightarrow> nat \<Rightarrow> exn + charge_response \<Rightarrow> charge" where
  "settle fallback ms r = (case r of Inl e \<Rightarrow> caught fallback e ms | Inr resp \<Rightarrow> (ms, resp))"

subsection \<open>Stripe\<close>

definition stripe_settled :: "nat \<Rightarrow> json \<Rightarrow> nat \<Rightarrow> exn + charge_response" where
  "stripe_settled st data ms =
     (case (if st = 200 then get_prop ''status'' (Some data) else Inr None) of
        Inl e \<Rightarrow> Inl e
      | Inr s \<Rightarrow> if st = 200 \<and> s = Some (JStr ''succeeded'') then accepted data ms
                 else refused ''message'' ''Stripe charging failed'' data ms)"

definition stripe_request :: "string option \<Rightarrow> charge_request \<Rightarrow> http_request" where
  "stripe_request secretKey r =
     \<lparr>url = ''https://api.stripe.com/v1/charges'',
      http_headers = [(''Authorization'', ''Bearer '' @ str_text secretKey),
        (''Content-Type'', ''application/x-www-form-urlencoded''),
        (''Idempotency-Key'', req_idempotencyKey r)],
      http_body = FormBody [(''amount'', decimal (req_amount r)), (''currency'', to_lower (req_currency r)),
        (''description'', ''Transaction '' @ req_transactionId r), (''source'', ''tok_visa'')]\<rparr>"

definition StripeAdapter_charge :: "world \<Rightarrow> charge_request \<Rightarrow> charge" where
  "StripeAdapter_charge w r =
     (let secretKey = getenv w ''STRIPE_SECRET_KEY'';
          isMock = (\<not> str_truthy secretKey \<or> starts_with (str_text secretKey) ''sk_test_xxx'');
          amountStr = decimal (req_amount r)
      in if isMock \<or> ends_with amountStr ''99'' \<or> ends_with amountStr ''00'' then
           if ends_with amountStr ''99'' then mock_timeout w
           else if ends_with amountStr ''00'' then
             mock_decline w ''Simulated Stripe Card Decline''
               (JObj [(''error'', JObj [(''message'', JStr ''Your card was declined.''), (''code'', JStr ''card_declined'')])])
           else mock_success w 200
             (''ch_str_'' @ take 16 (filter (\<lambda>c. c \<noteq> CHR ''-'') (uuidv4 w (req_transactionId r))))
             (JObj [(''status'', JStr ''succeeded''), (''object'', JStr ''charge''),
                (''id'', JStr (''ch_str_'' @ req_transactionId r))])
         else
           (case fetch w (stripe_request secretKey r) of
              Inl (e, ms) \<Rightarrow> caught ''Network error on Stripe'' e ms
            | Inr resp \<Rightarrow>
                let ms = headers_ms resp + body_ms resp
                in (case response_json w resp of
                      Inl e \<Rightarrow> caught ''Network error on Stripe'' e ms
                    | Inr data \<Rightarrow> settle ''Network error on Stripe'' ms (stripe_settled (status resp) data ms))))"

subsection \<open>Razorpay\<close>

definition created :: "nat \<Rightarrow> bool" where
  "created st \<longleftrightarrow> st = 200 \<or> st = 201"

definition razorpay_request :: "string option \<Rightarrow> string option \<Rightarrow> charge_request \<Rightarrow> http_request" where
  "razorpay_request keyId keySecret r =
     \<lparr>url = ''https://api.razorpay.com/v1/orders'',
      http_headers = [(''Authorization'', basic_auth keyId keySecret), (''Content-Type'', ''application/json'')],
      http_body = TextBody (JSON_stringify (JObj [(''amount'', JNum (decimal (req_amount r))),
        (''currency'', JStr (req_currency r)), (''receipt'', JStr (req_transactionId r))]))\<rparr>"

definition RazorpayAdapter_charge :: "world \<Rightarrow> charge_request \<Rightarrow> charge" where
  "RazorpayAdapter_charge w r =
     (let keyId = getenv w ''RAZORPAY_KEY_ID''; keySecret = getenv w ''RAZORPAY_KEY_SECRET'';
          isMock = (\<not> str_truthy keyId \<or> starts_with (str_text keyId) ''rzp_test_xxx'');
          amountStr = decimal (req_amount r)
      in if isMock \<or> ends_with amountStr ''96'' \<or> ends_with amountStr ''01'' \<or>
            ends_with amountStr ''99'' \<or> ends_with amountStr ''00'' then
           if ends_with amountStr ''96'' then mock_timeout w
           else if ends_with amountStr ''01'' then
             mock_decline w ''Simulated Razorpay Failure''
               (JObj [(''error'', JObj [(''description'', JStr ''Payment failed due to customer issue.'')])])
           else mock_success w 250
             (''pay_rzp_'' @ take 16 (filter (\<lambda>c. c \<noteq> CHR ''-'') (uuidv4 w (req_transactionId r))))
             (JObj [(''status'', JStr ''captured''), (''id'', JStr (''pay_rzp_'' @ req_transactionId r)),
                (''amount'', JNum amountStr)])
         else
           (case fetch w (razorpay_request keyId keySecret r) of
              Inl (e, ms) \<Rightarrow> caught ''Network error on Razorpay'' e ms
            | Inr resp \<Rightarrow>
                let ms = headers_ms resp + body_ms resp
                in (case response_json w resp of
                      Inl e \<Rightarrow> caught ''Network error on Razorpay'' e ms
                    | Inr data \<Rightarrow> settle ''Network error on Razorpay'' ms
                        (if created (status resp) then accepted data ms
                         else refused ''description'' ''Razorpay order creation failed'' data ms))))"

subsection \<open>PayU\<close>

definition payu_hash_sequence :: "string option \<Rightarrow> string option \<Rightarrow> string \<Rightarrow> string \<Rightarrow> string" where
  "payu_hash_sequence key salt txnid amountDecimal =
     str_text key @ ''|'' @ txnid @ ''|'' @ amountDecimal @ ''|'' @ ''Transaction '' @ txnid @ ''|'' @
     ''MerchantTest'' @ ''|'' @ ''test@example.com'' @ ''|'' @ ''|'' @ ''|'' @ ''|'' @ ''|'' @ ''||||||'' @ str_text salt"

definition payu_request :: "world \<Rightarrow> string option \<Rightarrow> string option \<Rightarrow> charge_request \<Rightarrow> http_request" where
  "payu_request w key salt r =
     (let txnid = req_transactionId r;
          amountDecimal = toFixed2 (fdiv (of_nat (req_amount r)) 100);
          hash = sha512_hex w (payu_hash_sequence key salt txnid amountDecimal)
      in \<lparr>url = ''https://test.payu.in/_payment'',
          http_headers = [(''Content-Type'', ''application/x-www-form-urlencoded'')],
          http_body = FormBody [(''key'', str_text key), (''txnid'', txnid), (''amount'', amountDecimal),
            (''productinfo'', ''Transaction '' @ txnid), (''firstname'', ''MerchantTest''),
            (''email'', ''test@example.com''), (''phone'', ''9999999999''),
            (''surl'', ''https://localhost:3000/webhooks/payu''),
            (''furl'', ''https://localhost:3000/webhooks/payu''),
            (''hash'', hash), (''service_provider'', ''payu_paisa'')]\<rparr>)"

definition PayUAdapter_charge :: "world \<Rightarrow> charge_request \<Rightarrow> charge" where
  "PayUAdapter_charge w r =
     (let key = getenv w ''PAYU_MERCHANT_KEY''; salt = getenv w ''PAYU_SALT'';
          isMock = (\<not> str_truthy key \<or> starts_with (str_text key) ''payu_test_xxx'' \<or> key = Some ''xxxxxxxxxxxx'');
          amountStr = decimal (req_amount r); txnid = req_transactionId r
      in if isMock \<or> ends_with amountStr ''97'' \<or> ends_with amountStr ''02'' then
           if ends_with amountStr ''97'' then mock_timeout w
           else if ends_with amountStr ''02'' then
             mock_decline w ''Simulated PayU Failure''
               (JObj [(''error'', JObj [(''message'', JStr ''Bank returned failure code.'')])])
           else mock_success w 180 (''payu_mock_'' @ txnid)
             (JObj [(''status'', JStr ''success''), (''mihpayid'', JStr (''payu_mock_'' @ txnid))])
         else
           (case fetch w (payu_request w key salt r) of
              Inl (e, ms) \<Rightarrow> caught ''Network error on PayU'' e ms
            | Inr resp \<Rightarrow>
                (headers_ms resp + body_ms resp,
                 if status resp = 200 \<or> status resp = 302 then
                   succeeded (Some (JStr txnid))
                     (JObj [(''status'', JStr ''initiated''), (''htmlSnippet'', JStr (take 500 (body resp))),
                        (''statusCode'', JNum (decimal (status resp)))]) (headers_ms resp)
                 else failed (Some (JStr (''PayU returned status code '' @ decimal (status resp))))
                   (JObj [(''error'', JStr (body resp))]) (headers_ms resp))))"

subsection \<open>UPI\<close>

definition upi_request :: "string option \<Rightarrow> string option \<Rightarrow> bool \<Rightarrow> charge_request \<Rightarrow> http_request" where
  "upi_request keyId keySecret upi_link r =
     \<lparr>url = ''https://api.razorpay.com/v1/payment_links/'',
      http_headers = [(''Authorization'', basic_auth keyId keySecret), (''Content-Type'', ''application/json'')],
      http_body = TextBody (JSON_stringify (JObj (
        (if upi_link then [(''upi_link'', JStr ''true'')] else []) @
        [(''amount'', JNum (decimal (req_amount r))), (''currency'', JStr (req_currency r)),
         (''reference_id'', JStr (req_transactionId r)),
         (''description'', JStr (''UPI payment for transaction '' @ req_transactionId r)),
         (''customer'', JObj [(''name'', JStr ''UPI Test User''), (''email'', JStr ''test@example.com''),
            (''contact'', JStr ''+919876543210'')]),
         (''notify'', JObj [(''sms'', JBool False), (''email'', JBool False)])])))\<rparr>"

text \<open>
  \<open>data.error?.description?.includes(text)\<close>: strings and arrays have the method, a missing
  description is \<open>undefined\<close>, any other value is a type error.
\<close>

definition upi_unsupported :: "json \<Rightarrow> exn + bool" where
  "upi_unsupported data =
     (let txt = ''UPI Payment Links is not supported in Test Mode'' in
      case get_prop ''error'' (Some data) of
        Inl e \<Rightarrow> Inl e
      | Inr err \<Rightarrow> (case opt_prop ''description'' err of
          None \<Rightarrow> Inr False
        | Some JNull \<Rightarrow> Inr False
        | Some (JStr s) \<Rightarrow> Inr (str_includes s txt)
        | Some (JArr xs) \<Rightarrow> Inr (JStr txt \<in> set xs)
        | _ \<Rightarrow> Inl (JsError ''data.error?.description?.includes is not a function'')))"

definition upi_settled :: "nat \<Rightarrow> json \<Rightarrow> nat \<Rightarrow> exn + charge_response" where
  "upi_settled st data ms =
     (if created st then accepted data ms
      else refused ''description'' ''Razorpay UPI payment link creation failed'' data ms)"

definition UpiAdapter_charge :: "world \<Rightarrow> charge_request \<Rightarrow> charge" where
  "UpiAdapter_charge w r =
     (let keyId = getenv w ''RAZORPAY_KEY_ID''; keySecret = getenv w ''RAZORPAY_KEY_SECRET'';
          isMock = (\<not> str_truthy keyId \<or> starts_with (str_text keyId) ''rzp_test_xxx'' \<or>
            keyId = Some ''rzp_test_mock'' \<or> keyId = Some ''xxxxxxxxxxxx'');
          amountStr = decimal (req_amount r); txnid = req_transactionId r; net = ''Network error on Razorpay UPI''
      in if isMock \<or> ends_with amountStr ''98'' \<or> ends_with amountStr ''99'' \<or>
            ends_with amountStr ''00'' \<or> ends_with amountStr ''03'' then
           if ends_with amountStr ''98'' \<or> ends_with amountStr ''99'' then mock_timeout w
           else if ends_with amountStr ''00'' \<or> ends_with amountStr ''03'' then
             mock_decline w ''Simulated UPI Intent App Failure''
               (JObj [(''error'', JObj [(''message'', JStr ''UPI payment declined by user.'')])])
           else mock_success w 100 (''upi_mock_'' @ txnid)
             (JObj [(''status'', JStr ''SUCCESS''), (''upi_txn_id'', JStr (''upi_mock_'' @ txnid))])
         else
           (case fetch w (upi_request keyId keySecret True r) of
              Inl (e, ms) \<Rightarrow> caught net e ms
            | Inr resp \<Rightarrow>
                let ms = headers_ms resp + body_ms resp
                in (case response_json w resp of
                      Inl e \<Rightarrow> caught net e ms
                    | Inr data \<Rightarrow>
                        (case (if created (status resp) then Inr False else upi_unsupported data) of
                           Inl e \<Rightarrow> caught net e ms
                         | Inr False \<Rightarrow> settle net ms (upi_settled (status resp) data ms)
                         | Inr True \<Rightarrow>
                             (case fetch w (upi_request keyId keySecret False r) of
                                Inl (e, ms2) \<Rightarrow> caught net e (ms + ms2)
                              | Inr resp2 \<Rightarrow>
                                  let ms2 = ms + headers_ms resp2 + body_ms resp2
                                  in (case response_json w resp2 of
                                        Inl e \<Rightarrow> caught net e ms2
                                      | Inr data2 \<Rightarrow> settle net ms2 (upi_settled (status resp2) data2 ms2)))))))"

text \<open>\<open>TransactionsService.getAdapter\<close>: the adapter of a provider.\<close>

fun adapter_charge :: "world \<Rightarrow> GatewayProvider \<Rightarrow> charge_request \<Rightarrow> charge" where
  "adapter_charge w STRIPE r = StripeAdapter_charge w r"
| "adapter_charge w RAZORPAY r = RazorpayAdapter_charge w r"
| "adapter_charge w PAYU r = PayUAdapter_charge w r"
| "adapter_charge w UPI r = UpiAdapter_charge w r"

subsection \<open>Every response is sound\<close>

lemma wf_opt_prop:
  assumes "opt_prop k (Some j) = Some v" "wf_json j"
  shows "wf_json v"
proof (cases j)
  case (JObj kvs)
  with assms have "(k, v) \<in> set kvs" "\<forall>kv \<in> set kvs. wf_json (snd kv)"
    by (auto simp: list_all_iff dest: map_of_SomeD)
  then show ?thesis by force
qed (use assms in simp_all)

lemma wf_get_prop: "get_prop k (Some j) = Inr (Some v) \<Longrightarrow> wf_json j \<Longrightarrow> wf_json v"
  by (cases j) (auto dest: wf_opt_prop simp del: opt_prop.simps wf_json.simps)

text \<open>
  What every response keeps to: an error with a failure and only with it, no gateway id with a
  failure, and an id that can be cached as JSON.
\<close>

definition sound_response :: "charge_response \<Rightarrow> bool" where
  "sound_response r \<longleftrightarrow>
     (if success r then error r = None else truthy (error r) \<and> resp_gatewayTxnId r \<in> {None, Some JNull}) \<and>
     (\<forall>j. resp_gatewayTxnId r = Some j \<longrightarrow> wf_json j)"

lemma sound_caught: "fallback \<noteq> '''' \<Longrightarrow> sound_response (snd (caught fallback e ms))"
  by (auto simp: caught_def failed_def sound_response_def js_or_def)

lemma sound_failed: "truthy err \<Longrightarrow> sound_response (failed err raw ms)"
  by (auto simp: failed_def sound_response_def)

lemma sound_succeeded: "(\<And>j. i = Some j \<Longrightarrow> wf_json j) \<Longrightarrow> sound_response (succeeded i raw ms)"
  by (simp add: succeeded_def sound_response_def)

lemma sound_accepted: "accepted data ms = Inr r \<Longrightarrow> wf_json data \<Longrightarrow> sound_response r"
  by (auto simp: accepted_def split: sum.splits dest: wf_get_prop intro!: sound_succeeded)

lemma sound_refused: "refused k fallback data ms = Inr r \<Longrightarrow> fallback \<noteq> '''' \<Longrightarrow> sound_response r"
  by (auto simp: refused_def js_or_def split: sum.splits if_splits intro!: sound_failed)

lemma sound_settle:
  "fallback \<noteq> '''' \<Longrightarrow> (\<And>r. x = Inr r \<Longrightarrow> sound_response r) \<Longrightarrow> sound_response (snd (settle fallback ms x))"
  by (auto simp: settle_def sound_caught split: sum.split)

lemma sound_mock:
  "sound_response (snd (mock_timeout w))" "err \<noteq> '''' \<Longrightarrow> sound_response (snd (mock_decline w err raw))"
  "sound_response (snd (mock_success w ms i raw))"
  by (auto simp: mock_timeout_def mock_decline_def mock_success_def succeeded_def sound_response_def failed_def)

lemma response_json_wf: "response_json w r = Inr j \<Longrightarrow> wf_json j"
  by (auto simp: response_json_def JSON_parse_wf split: option.splits)

lemma sound_stripe: "sound_response (snd (StripeAdapter_charge w r))"
  unfolding StripeAdapter_charge_def Let_def
  by (auto simp: stripe_settled_def split: sum.split if_splits
      intro!: sound_mock sound_caught sound_settle elim!: sound_accepted sound_refused dest!: response_json_wf)

lemma sound_razorpay: "sound_response (snd (RazorpayAdapter_charge w r))"
  unfolding RazorpayAdapter_charge_def Let_def
  by (auto split: sum.split if_splits
      intro!: sound_mock sound_caught sound_settle elim!: sound_accepted sound_refused dest!: response_json_wf)

lemma sound_payu: "sound_response (snd (PayUAdapter_charge w r))"
  unfolding PayUAdapter_charge_def Let_def
  by (auto split: sum.split if_splits intro!: sound_mock sound_caught sound_failed sound_succeeded)

lemma sound_upi: "sound_response (snd (UpiAdapter_charge w r))"
  unfolding UpiAdapter_charge_def Let_def
  by (auto simp: upi_settled_def split: sum.split if_splits bool.split
      intro!: sound_mock sound_caught sound_settle elim!: sound_accepted sound_refused dest!: response_json_wf)

lemma sound_adapter_charge: "sound_response (snd (adapter_charge w g r))"
  by (cases g) (simp_all add: sound_stripe sound_razorpay sound_payu sound_upi)

subsection \<open>The mock modes\<close>

text \<open>
  The adapters look at the last two digits of the amount; an amount of a single digit has no
  such suffix.
\<close>

definition last_two :: "nat \<Rightarrow> nat \<Rightarrow> bool" where
  "last_two n d \<longleftrightarrow> 10 \<le> n \<and> n mod 100 = d"

lemma last_two_unique: "last_two n a \<Longrightarrow> last_two n b \<longleftrightarrow> a = b"
  by (auto simp: last_two_def)

lemma digit_chars:
  "digit 0 = CHR ''0''" "digit 1 = CHR ''1''" "digit 2 = CHR ''2''" "digit 3 = CHR ''3''"
  "digit 6 = CHR ''6''" "digit 7 = CHR ''7''" "digit 8 = CHR ''8''" "digit 9 = CHR ''9''"
  by code_simp+

lemma ends_with_digits:
  "[digit a, digit b] = s \<Longrightarrow> a < 10 \<Longrightarrow> b < 10 \<Longrightarrow> ends_with (decimal n) s = last_two n (10 * a + b)"
  using ends_with_two_digits [of a b n] by (auto simp: last_two_def)

lemma ends_with_last_two:
  "ends_with (decimal n) ''99'' = last_two n 99" "ends_with (decimal n) ''00'' = last_two n 0"
  "ends_with (decimal n) ''96'' = last_two n 96" "ends_with (decimal n) ''01'' = last_two n 1"
  "ends_with (decimal n) ''97'' = last_two n 97" "ends_with (decimal n) ''02'' = last_two n 2"
  "ends_with (decimal n) ''98'' = last_two n 98" "ends_with (decimal n) ''03'' = last_two n 3"
  using ends_with_digits [of 9 9, unfolded digit_chars, OF refl, of n]
    ends_with_digits [of 0 0, unfolded digit_chars, OF refl, of n]
    ends_with_digits [of 9 6, unfolded digit_chars, OF refl, of n]
    ends_with_digits [of 0 1, unfolded digit_chars, OF refl, of n]
    ends_with_digits [of 9 7, unfolded digit_chars, OF refl, of n]
    ends_with_digits [of 0 2, unfolded digit_chars, OF refl, of n]
    ends_with_digits [of 9 8, unfolded digit_chars, OF refl, of n]
    ends_with_digits [of 0 3, unfolded digit_chars, OF refl, of n]
  by (simp_all add: numeral_2_eq_2)

definition no_keys :: "env \<Rightarrow> bool" where
  "no_keys env \<longleftrightarrow> \<not> str_truthy (env ''STRIPE_SECRET_KEY'') \<and> \<not> str_truthy (env ''RAZORPAY_KEY_ID'') \<and>
     \<not> str_truthy (env ''PAYU_MERCHANT_KEY'')"

fun mock_times_out :: "GatewayProvider \<Rightarrow> nat \<Rightarrow> bool" where
  "mock_times_out STRIPE n = last_two n 99"
| "mock_times_out RAZORPAY n = last_two n 96"
| "mock_times_out PAYU n = last_two n 97"
| "mock_times_out UPI n = (last_two n 98 \<or> last_two n 99)"

fun mock_declines :: "GatewayProvider \<Rightarrow> nat \<Rightarrow> bool" where
  "mock_declines STRIPE n = last_two n 0"
| "mock_declines RAZORPAY n = last_two n 1"
| "mock_declines PAYU n = last_two n 2"
| "mock_declines UPI n = (last_two n 0 \<or> last_two n 3)"

lemma mock_declines_not_timeout: "mock_declines g n \<Longrightarrow> \<not> mock_times_out g n"
  by (cases g) (auto simp: last_two_def)

definition mock_result :: "world \<Rightarrow> nat \<Rightarrow> bool \<Rightarrow> bool \<Rightarrow> charge \<Rightarrow> bool" where
  "mock_result w ms times_out declines c \<longleftrightarrow>
     (if times_out then c = mock_timeout w
      else if declines then \<exists>err raw. c = mock_decline w err raw
      else \<exists>i raw. c = mock_success w ms i raw)"

lemma mock_charge:
  assumes "no_keys (getenv w)"
  shows "\<exists>ms \<le> 250. mock_result w ms (mock_times_out g (req_amount r)) (mock_declines g (req_amount r)) (adapter_charge w g r)"
proof (cases g)
  case STRIPE
  with assms show ?thesis
    by (intro exI [of _ 200]) (auto simp: no_keys_def StripeAdapter_charge_def Let_def ends_with_last_two mock_result_def)
next
  case RAZORPAY
  with assms show ?thesis
    by (intro exI [of _ 250]) (auto simp: no_keys_def RazorpayAdapter_charge_def Let_def ends_with_last_two mock_result_def)
next
  case PAYU
  with assms show ?thesis
    by (intro exI [of _ 180]) (auto simp: no_keys_def PayUAdapter_charge_def Let_def ends_with_last_two mock_result_def)
next
  case UPI
  with assms show ?thesis
    by (intro exI [of _ 100]) (auto simp: no_keys_def UpiAdapter_charge_def Let_def ends_with_last_two mock_result_def)
qed

subsection \<open>Amounts in decimal\<close>

lemma toFixed2_hundredths:
  assumes "n < 2 ^ 52"
  shows "toFixed2 (fdiv (of_nat n) 100) = decimal (n div 100) @ ''.'' @ [digit (n div 10 mod 10), digit (n mod 10)]"
proof -
  let ?x = "of_nat n / 100 :: rat"
  have "(of_nat n :: rat) < 2 ^ 52" using assms by (metis of_nat_less_iff of_nat_numeral of_nat_power)
  then have "\<bar>?x\<bar> / 2 ^ 53 < 1 / 200" by simp
  with ieee.error [of ?x] have "\<bar>rnd ?x - ?x\<bar> < 1 / 200" by linarith
  then have e: "rnd ?x < ?x + 1 / 200" "?x - 1 / 200 < rnd ?x" by linarith+
  have h: "100 * ?x = of_nat n" by simp
  have "js_round (100 * rnd ?x) = int n"
    unfolding js_round_def
  proof (rule floor_unique)
    show "of_int (int n) \<le> 100 * rnd ?x + 1 / 2" "100 * rnd ?x + 1 / 2 < of_int (int n) + 1"
      unfolding of_int_of_nat_eq using e h by linarith+
  qed
  then show ?thesis by (simp add: toFixed2_def fdiv_def)
qed

subsection \<open>A sandbox\<close>

text \<open>
  The environment of a test run: no keys are set, so every adapter is in its mock mode; timers
  are exact and there is no network. The witnesses use it.
\<close>

definition test_world :: world where
  "test_world = \<lparr>getenv = (\<lambda>v. if v = ''NODE_ENV'' then Some ''test'' else None),
     clock = now, sleep = (\<lambda>d. d), fetch = (\<lambda>r. Inl (JsError ''fetch failed'', 1)),
     syntaxError = (\<lambda>s. JsError ''Unexpected token in JSON''), uuidv4 = (\<lambda>i. i), sha512_hex = (\<lambda>s. ''00''),
     hmac_sha256_hex = (\<lambda>k s. ''00ff'')\<rparr>"

end
