(* ===== verification/Transactions.thy ===== *)
theory Transactions
  imports RoutingEngine Adapters
begin

text \<open>
  \<open>src/transactions/transactions.service.ts\<close> and \<open>transactions.controller.ts\<close>: a payment
  under its idempotency lock, the failover loop over the ranked gateways with its time limit,
  the cached answer of a completed payment, and the HTTP handlers.
\<close>

subsection \<open>Messages\<close>

text \<open>
  \<open>JSON.stringify\<close> of a row as TypeORM loads it: the columns in the order of the entity,
  the \<open>bigint\<close> amount as the string the driver gives, dates as ISO text.
\<close>

definition gateway_json :: "GatewayProvider \<Rightarrow> json" where
  "gateway_json g = JStr (gateway_name g)"

definition txn_json :: "transaction \<Rightarrow> json" where
  "txn_json t = JObj
     [(''id'', JStr (txnId t)), (''idempotencyKey'', JStr (idempotencyKey t)),
      (''merchantId'', JStr (merchantId t)), (''amount'', JStr (decimal (amount t))),
      (''currency'', JStr (currency t)), (''currentState'', JStr (state_name (currentState t))),
      (''selectedGateway'', case selectedGateway t of None \<Rightarrow> JNull | Some g \<Rightarrow> gateway_json g),
      (''gatewayTxnId'', gatewayTxnId t),
      (''fallbackGateways'', JArr (map gateway_json (fallbackGateways t))),
      (''attemptCount'', JNum (decimal (attemptCount t))), (''createdAt'', JStr (createdAt t)),
      (''updatedAt'', JStr (updatedAt t)),
      (''finalReconciledAt'', case finalReconciledAt t of None \<Rightarrow> JNull | Some d \<Rightarrow> JStr d)]"

definition processing_json :: json where
  "processing_json = JObj [(''status'', JStr ''processing'')]"

definition completed_json :: "transaction \<Rightarrow> json" where
  "completed_json t = JObj [(''status'', JStr ''completed''), (''transaction'', txn_json t)]"

definition redis_key :: "string \<Rightarrow> string" where
  "redis_key key = ''idempotency:'' @ key"

text \<open>The body of a request; the key is optional, the header may supply it.\<close>

record create_dto =
  dto_idempotencyKey :: "string option"
  dto_merchantId :: string
  dto_amount :: nat
  dto_currency :: string

text \<open>\<open>create\<close> answers with a row, or with the transaction of the cached text.\<close>

datatype create_result = Entity transaction | Cached "json option"

fun response_body :: "create_result \<Rightarrow> json option" where
  "response_body (Entity t) = Some (txn_json t)"
| "response_body (Cached j) = j"

subsection \<open>One attempt\<close>

text \<open>
  \<open>Promise.race\<close> of the charge and the timer of 1.5 s: the outcome of the \<open>try\<close> block
  with the time it took. A charge that settles later is not waited for.
\<close>

definition race_timeout :: "world \<Rightarrow> charge \<Rightarrow> nat \<times> charge_response" where
  "race_timeout w c = (case c of (ms, resp) \<Rightarrow>
     if ms < sleep w 1500 then (ms, resp)
     else (sleep w 1500,
       \<lparr>success = False, resp_gatewayTxnId = None,
        rawResponse = JObj [(''error'', JStr ''Gateway call timed out'')],
        error = Some (JStr ''Gateway call timed out''), latencyMs = int (sleep w 1500)\<rparr>))"

definition attempt_latency :: "nat \<times> charge_response \<Rightarrow> int" where
  "attempt_latency a = (case a of (elapsed, resp) \<Rightarrow> if latencyMs resp \<noteq> 0 then latencyMs resp else int elapsed)"

definition charge_request_of :: "string \<Rightarrow> create_dto \<Rightarrow> string \<Rightarrow> GatewayProvider \<Rightarrow> charge_request" where
  "charge_request_of key dto i g =
     \<lparr>req_transactionId = i, req_amount = dto_amount dto, req_currency = dto_currency dto,
      req_idempotencyKey = key @ ''_'' @ gateway_name g\<rparr>"

definition attempt :: "world \<Rightarrow> string \<Rightarrow> create_dto \<Rightarrow> string \<Rightarrow> GatewayProvider \<Rightarrow> nat \<times> charge_response" where
  "attempt w key dto i g = race_timeout w (adapter_charge w g (charge_request_of key dto i g))"

definition call_gateway ::
  "world \<Rightarrow> string \<Rightarrow> create_dto \<Rightarrow> string \<Rightarrow> GatewayProvider \<Rightarrow> (('d, 'r) node, nat \<times> charge_response) io" where
  "call_gateway w key dto i g = (\<lambda>s.
     (Inr (attempt w key dto i g), s\<lparr>charges := charges s @ [(g, charge_request_of key dto i g)]\<rparr>))"

definition routed_meta :: "GatewayProvider \<Rightarrow> metadata" where
  "routed_meta g = no_metadata\<lparr>m_gateway := Some (Some g),
     m_reason := Some (''Gateway '' @ gateway_name g @ '' selected for attempt'')\<rparr>"

definition processing_meta :: "GatewayProvider \<Rightarrow> metadata" where
  "processing_meta g = no_metadata\<lparr>m_gateway := Some (Some g), m_incrementAttempt := True,
     m_reason := Some (''Initiating API call to '' @ gateway_name g)\<rparr>"

definition success_meta :: "GatewayProvider \<Rightarrow> charge_response \<Rightarrow> metadata" where
  "success_meta g r = no_metadata\<lparr>m_gateway := Some (Some g), m_gatewayTxnId := resp_gatewayTxnId r,
     m_rawGatewayResponse := Some (rawResponse r), m_reason := Some ''Payment charge succeeded''\<rparr>"

definition retry_meta :: "GatewayProvider \<Rightarrow> charge_response \<Rightarrow> metadata" where
  "retry_meta g r = no_metadata\<lparr>m_gateway := Some (Some g), m_rawGatewayResponse := Some (rawResponse r),
     m_reason := Some (''Attempt failed on '' @ gateway_name g @ '': '' @ js_string (error r))\<rparr>"

definition failed_meta :: "GatewayProvider \<Rightarrow> charge_response \<Rightarrow> metadata" where
  "failed_meta g r = no_metadata\<lparr>m_gateway := Some (Some g), m_rawGatewayResponse := Some (rawResponse r),
     m_reason := Some (''All attempts failed. Last error: '' @ js_string (error r))\<rparr>"

lemma sound_attempt: "sound_response (snd (attempt w key dto i g))"
proof -
  obtain ms resp where c: "adapter_charge w g (charge_request_of key dto i g) = (ms, resp)" by fastforce
  with sound_adapter_charge [of w g "charge_request_of key dto i g"] show ?thesis
    by (auto simp: attempt_def race_timeout_def sound_response_def)
qed

text \<open>
  An attempt waits at most as long as the timer of 1.5 s takes, and reports the time it took
  when the adapter reports none.
\<close>

lemma attempt_time: "fst (attempt w key dto i g) \<le> sleep w 1500"
  by (auto simp: attempt_def race_timeout_def split: prod.splits)

text \<open>In mock mode the outcome of an attempt is decided by the amount.\<close>

lemma attempt_mock:
  assumes keys: "no_keys (getenv w)" and timer: "mono (sleep w)" "sleep w 250 < sleep w 1500"
  shows "success (snd (attempt w key dto i g)) \<longleftrightarrow>
    \<not> mock_times_out g (dto_amount dto) \<and> \<not> mock_declines g (dto_amount dto)"
proof -
  let ?r = "charge_request_of key dto i g"
  have amt: "req_amount ?r = dto_amount dto" by (simp add: charge_request_of_def)
  from mock_charge [OF keys, of g ?r] obtain ms where ms: "ms \<le> 250"
    and res: "mock_result w ms (mock_times_out g (dto_amount dto)) (mock_declines g (dto_amount dto)) (adapter_charge w g ?r)"
    unfolding amt by blast
  have "sleep w 1500 \<le> sleep w 2000" "sleep w ms \<le> sleep w 250"
    using timer(1) ms by (auto intro: monoD)
  with timer(2) res show ?thesis
    by (auto simp: mock_result_def attempt_def race_timeout_def mock_timeout_def mock_decline_def mock_success_def
        succeeded_def failed_def split: if_splits prod.splits)
qed

subsection \<open>\<open>TransactionsService\<close>\<close>

text \<open>Caching the answer for a day.\<close>

definition remember :: "'r redis_client \<Rightarrow> string \<Rightarrow> transaction \<Rightarrow> (('d, 'r) node, bool) io" where
  "remember C key t = on_redis (redis_set C (redis_key key) (JSON_stringify (completed_json t))
     None (Some EX_seconds) (Some 86400))"

text \<open>
  The \<open>while\<close> loop, on the current gateway followed by the remaining fallbacks. The
  \<open>throw\<close> behind the loop is the empty list; the calls never reach it.
\<close>

fun execute ::
  "world \<Rightarrow> 'd orm \<Rightarrow> 'r redis_client \<Rightarrow> string \<Rightarrow> create_dto \<Rightarrow> string \<Rightarrow> json option \<Rightarrow>
   GatewayProvider list \<Rightarrow> (('d, 'r) node, create_result) io" where
  "execute w D C key dto i lastError [] =
     throw (JsError (''Payment execution failed: '' @ js_string lastError))"
| "execute w D C key dto i lastError (g # fallbackList) =
     andThen (on_db (transition D (clock w) i ROUTED (routed_meta g))) (\<lambda>_.
     andThen (on_db (transition D (clock w) i PROCESSING (processing_meta g))) (\<lambda>_.
     andThen (call_gateway w key dto i g) (\<lambda>a.
     if success (snd a) then
       andThen (on_db (transition D (clock w) i SUCCESS (success_meta g (snd a)))) (\<lambda>updatedTxn.
       andThen (recordSuccess D C g (attempt_latency a)) (\<lambda>_.
       andThen (remember C key updatedTxn) (\<lambda>_. ret (Entity updatedTxn))))
     else
       andThen (recordFailure D C g (attempt_latency a)) (\<lambda>_.
       if fallbackList \<noteq> [] then
         andThen (on_db (transition D (clock w) i RETRY_PENDING (retry_meta g (snd a)))) (\<lambda>_.
         execute w D C key dto i (error (snd a)) fallbackList)
       else
         andThen (on_db (transition D (clock w) i FAILED (failed_meta g (snd a)))) (\<lambda>failedTxn.
         andThen (remember C key failedTxn) (\<lambda>_. ret (Entity failedTxn)))))))"

text \<open>What a request that does not get the lock makes of the cached text.\<close>

definition still_processing :: exn where
  "still_processing = ConflictException ''Payment request is already processing. Please try again shortly.''"

definition cached_answer :: "world \<Rightarrow> string option \<Rightarrow> exn + create_result option" where
  "cached_answer w cached =
     (if \<not> str_truthy cached then Inr None
      else case JSON_parse (str_text cached) of
        None \<Rightarrow> Inl (syntaxError w (str_text cached))
      | Some parsed \<Rightarrow> (case get_prop ''status'' (Some parsed) of
          Inl e \<Rightarrow> Inl e
        | Inr st \<Rightarrow>
            if st = Some (JStr ''processing'') then Inl still_processing
            else if st = Some (JStr ''completed'') then Inr (Some (Cached (opt_prop ''transaction'' (Some parsed))))
            else Inr None))"

definition answer_existing :: "'r redis_client \<Rightarrow> string \<Rightarrow> transaction \<Rightarrow> (('d, 'r) node, create_result) io" where
  "answer_existing C key existing = andThen (remember C key existing) (\<lambda>_. ret (Entity existing))"

definition create_without_lock ::
  "world \<Rightarrow> 'd orm \<Rightarrow> 'r redis_client \<Rightarrow> string \<Rightarrow> (('d, 'r) node, create_result) io" where
  "create_without_lock w D C key =
     andThen (on_redis (redis_get C (redis_key key))) (\<lambda>cached.
     andThen (from_result (cached_answer w cached)) (\<lambda>answer. case answer of
       Some r \<Rightarrow> ret r
     | None \<Rightarrow>
         andThen (on_db (findTxnByKey D key)) (\<lambda>existing. case existing of
           Some t \<Rightarrow> answer_existing C key t
         | None \<Rightarrow> throw (ConflictException ''Payment request is already processing.''))))"

definition new_payment :: "string \<Rightarrow> create_dto \<Rightarrow> GatewayProvider \<Rightarrow> GatewayProvider list \<Rightarrow> new_transaction" where
  "new_payment key dto primaryGateway fallbacks =
     \<lparr>new_idempotencyKey = key, new_merchantId = dto_merchantId dto, new_amount = dto_amount dto,
      new_currency = dto_currency dto, new_currentState = INITIATED,
      new_selectedGateway = Some primaryGateway, new_fallbackGateways = fallbacks\<rparr>"

definition creation_audit :: "transaction \<Rightarrow> GatewayProvider \<Rightarrow> new_audit" where
  "creation_audit saved primaryGateway =
     \<lparr>new_transactionId = txnId saved, new_fromState = None, new_toState = INITIATED,
      new_auditGateway = Some primaryGateway, new_reason = Some ''transaction created'',
      new_rawGatewayResponse = JNull\<rparr>"

definition no_gateways :: exn where
  "no_gateways = ServiceUnavailableException
     ''No payment gateways are currently configured in the environment.''"

definition create_with_lock ::
  "world \<Rightarrow> 'd orm \<Rightarrow> 'r redis_client \<Rightarrow> string \<Rightarrow> create_dto \<Rightarrow> (('d, 'r) node, create_result) io" where
  "create_with_lock w D C key dto =
     andThen (on_db (findTxnByKey D key)) (\<lambda>existing. case existing of
       Some t \<Rightarrow> answer_existing C key t
     | None \<Rightarrow>
         andThen (getRankedGateways (getenv w) D C (dto_amount dto)) (\<lambda>rankedGateways. case rankedGateways of
           [] \<Rightarrow> throw no_gateways
         | primaryGateway # fallbacks \<Rightarrow>
             andThen (on_db (insertTxn D (new_payment key dto primaryGateway fallbacks))) (\<lambda>saved.
             andThen (on_db (insertAudit D (creation_audit saved primaryGateway))) (\<lambda>_.
             execute w D C key dto (txnId saved) (Some (JStr ''No gateways available''))
               (primaryGateway # fallbacks)))))"

definition create ::
  "world \<Rightarrow> 'd orm \<Rightarrow> 'r redis_client \<Rightarrow> string \<Rightarrow> create_dto \<Rightarrow> (('d, 'r) node, create_result) io" where
  "create w D C key dto =
     andThen (on_redis (redis_set C (redis_key key) (JSON_stringify processing_json)
       (Some NX) (Some EX_seconds) (Some 10))) (\<lambda>isLockAcquired.
     if \<not> isLockAcquired then create_without_lock w D C key
     else catching (create_with_lock w D C key dto) (\<lambda>e.
       andThen (on_redis (redis_del C (redis_key key))) (\<lambda>_. throw e)))"

definition findOne :: "'d orm \<Rightarrow> string \<Rightarrow> (('d, 'r) node, transaction option) io" where
  "findOne D i = on_db (findTxnById D i)"

text \<open>The entries of one transaction (the query asks for them oldest first).\<close>

definition history :: "'d orm \<Rightarrow> string \<Rightarrow> (('d, 'r) node, audit_log list) io" where
  "history D i = on_db (findAudit D i)"

text \<open>\<open>TransactionsService.transition\<close>, which other modules may call, is the state machine's.\<close>

definition service_transition ::
  "'d orm \<Rightarrow> timestamp \<Rightarrow> string \<Rightarrow> TransactionState \<Rightarrow> metadata \<Rightarrow> (('d, 'r) node, transaction) io" where
  "service_transition D clk i toS m = on_db (transition D clk i toS m)"

subsection \<open>\<open>TransactionsController\<close>\<close>

definition post_payment ::
  "world \<Rightarrow> 'd orm \<Rightarrow> 'r redis_client \<Rightarrow> create_dto \<Rightarrow> string option \<Rightarrow> (('d, 'r) node, create_result) io" where
  "post_payment w D C dto headerKey =
     (let dto1 = (if str_truthy headerKey then dto\<lparr>dto_idempotencyKey := headerKey\<rparr> else dto)
      in if \<not> str_truthy (dto_idempotencyKey dto1) then
           throw (BadRequestException ''Idempotency-Key header or idempotencyKey body field is required'')
         else create w D C (str_text (dto_idempotencyKey dto1)) dto1)"

definition get_payment :: "'d orm \<Rightarrow> string \<Rightarrow> (('d, 'r) node, transaction) io" where
  "get_payment D i = andThen (findOne D i) (\<lambda>txn. case txn of
     None \<Rightarrow> throw (NotFoundException ''transaction not found'')
   | Some t \<Rightarrow> ret t)"

definition get_history :: "'d orm \<Rightarrow> string \<Rightarrow> (('d, 'r) node, audit_log list) io" where
  "get_history D i = history D i"

subsection \<open>Invariants of the Redis service\<close>

context redis_invariant
begin

lemma keeps_execute: "keeps (\<lambda>s. Q (redis s)) (execute w D C key dto i e gs)"
proof (induction gs arbitrary: e)
  case Nil
  show ?case unfolding execute.simps by (intro keeping)
next
  case (Cons g gs)
  have "keeps (\<lambda>s. Q (redis s)) (call_gateway w key dto i g)"
    by (simp add: hoare_def call_gateway_def)
  then show ?case
    unfolding execute.simps remember_def by (intro keeping Cons.IH)
qed

lemma keeps_create_without_lock: "keeps (\<lambda>s. Q (redis s)) (create_without_lock w D C key)"
  unfolding create_without_lock_def answer_existing_def remember_def by (intro keeping)

lemma keeps_create_with_lock: "keeps (\<lambda>s. Q (redis s)) (create_with_lock w D C key dto)"
  unfolding create_with_lock_def answer_existing_def remember_def by (intro keeping keeps_execute)

lemma keeps_create: "keeps (\<lambda>s. Q (redis s)) (create w D C key dto)"
  unfolding create_def by (intro keeping keeps_create_with_lock keeps_create_without_lock)

end

subsection \<open>The books\<close>

text \<open>
  The invariant of a payment service: the tables are well kept, the attempt counter of a row
  is the number of its \<open>PROCESSING\<close> entries, and those entries name, in order, exactly the
  gateways that were sent a charge for it.
\<close>

definition processing_trail :: "tables \<Rightarrow> string \<Rightarrow> GatewayProvider option list" where
  "processing_trail T i = map auditGateway (filter (\<lambda>a. toState a = PROCESSING) (trail T i))"

definition charges_for :: "string \<Rightarrow> (GatewayProvider \<times> charge_request) list \<Rightarrow> GatewayProvider option list" where
  "charges_for i cs = map (\<lambda>c. Some (fst c)) (filter (\<lambda>c. req_transactionId (snd c) = i) cs)"

definition charges_recorded :: "tables \<Rightarrow> (GatewayProvider \<times> charge_request) list \<Rightarrow> bool" where
  "charges_recorded T cs \<longleftrightarrow>
     (\<forall>t \<in> set (transactions T). processing_trail T (txnId t) = charges_for (txnId t) cs) \<and>
     (\<forall>c \<in> set cs. txn_by_id T (req_transactionId (snd c)) \<noteq> None)"

definition books :: "('d \<Rightarrow> tables) \<Rightarrow> ('d, 'r) node \<Rightarrow> bool" where
  "books tabs s \<longleftrightarrow> well_kept (tabs (db s)) \<and> attempts_logged (tabs (db s)) \<and>
     charges_recorded (tabs (db s)) (charges s)"

definition just_inserted :: "('d \<Rightarrow> tables) \<Rightarrow> transaction \<Rightarrow> ('d, 'r) node \<Rightarrow> bool" where
  "just_inserted tabs t s \<longleftrightarrow> txn_by_id (tabs (db s)) (txnId t) = Some t \<and>
     trail (tabs (db s)) (txnId t) = [] \<and> currentState t = INITIATED"

lemma charges_for_append [simp]: "charges_for i (cs @ ds) = charges_for i cs @ charges_for i ds"
  by (simp add: charges_for_def)

lemma charges_for_single [simp]:
  "charges_for i [(g, r)] = (if req_transactionId r = i then [Some g] else [])"
  by (simp add: charges_for_def)

lemma books_cong:
  assumes "books tabs s" "payments (tabs (db s')) = payments (tabs (db s))" "charges s' = charges s"
  shows "books tabs s'"
  using assms(1) payments_eqD [OF assms(2)] assms(3)
  by (simp add: books_def well_kept_def attempts_logged_def charges_recorded_def processing_trail_def)

lemma keeps_booksI:
  assumes "\<And>s r s'. m s = (r, s') \<Longrightarrow> payments (tabs (db s')) = payments (tabs (db s)) \<and> charges s' = charges s"
  shows "keeps (books tabs) m"
  using assms by (intro keepsI) (blast intro: books_cong)

lemma transitioned_recorded:
  assumes tr: "transitioned c i s m T t' T'" and cr: "charges_recorded T cs"
  shows "s \<noteq> PROCESSING \<Longrightarrow> charges_recorded T' cs"
    and "s = PROCESSING \<Longrightarrow> m_gateway m = Some (Some g) \<Longrightarrow> req_transactionId r = i \<Longrightarrow>
      charges_recorded T' (cs @ [(g, r)])"
proof -
  from tr obtain t ai ac where t: "t \<in> set (transactions T)" "txnId t = i" "txnId t' = i"
    and tx: "transactions T' = transactions (put_txn t' T)"
    and tl: "\<And>j. trail T' j = trail T j @
       (if j = i then [audit_row (transition_audit t' (currentState t) s m) ai ac] else [])"
    by (rule transitionedE) blast
  have mem: "\<exists>r0 \<in> set (transactions T). txnId r0 = txnId r" if "r \<in> set (transactions T')" for r
    using that set_put_txn [of t' T] t tx by fastforce
  have ids: "txn_by_id T' j \<noteq> None" if "txn_by_id T j \<noteq> None" for j
    using that by (simp add: transitioned_by_id [OF tr])
  have i': "txn_by_id T' i \<noteq> None" by (simp add: transitioned_by_id [OF tr])
  have pt: "processing_trail T' j = processing_trail T j @
      (if j = i \<and> s = PROCESSING then [case m_gateway m of Some (Some g) \<Rightarrow> Some g | _ \<Rightarrow> selectedGateway t'] else [])" for j
    by (simp add: processing_trail_def tl audit_row_def transition_audit_def)
  show "charges_recorded T' cs" if "s \<noteq> PROCESSING"
    using cr that mem ids by (fastforce simp: charges_recorded_def pt)
  show "charges_recorded T' (cs @ [(g, r)])"
    if "s = PROCESSING" "m_gateway m = Some (Some g)" "req_transactionId r = i"
    using cr that mem ids i' by (fastforce simp: charges_recorded_def pt)
qed

lemma metadata_simps [simp]:
  "m_gateway (routed_meta g) = Some (Some g)" "m_gateway (processing_meta g) = Some (Some g)"
  "m_gateway (success_meta g a) = Some (Some g)" "m_gateway (retry_meta g a) = Some (Some g)"
  "m_gateway (failed_meta g a) = Some (Some g)"
  "\<not> m_incrementAttempt (routed_meta g)" "m_incrementAttempt (processing_meta g)"
  "\<not> m_incrementAttempt (success_meta g a)" "\<not> m_incrementAttempt (retry_meta g a)"
  "\<not> m_incrementAttempt (failed_meta g a)"
  "m_gatewayTxnId (routed_meta g) = None" "m_gatewayTxnId (processing_meta g) = None"
  "m_gatewayTxnId (success_meta g a) = resp_gatewayTxnId a" "m_gatewayTxnId (retry_meta g a) = None"
  "m_gatewayTxnId (failed_meta g a) = None"
  by (simp_all add: routed_meta_def processing_meta_def success_meta_def retry_meta_def failed_meta_def no_metadata_def)

context backend
begin

text \<open>A transition keeps the books, unless it announces a charge that is not made yet.\<close>

lemma keeps_books_transition:
  assumes "s \<noteq> PROCESSING" "\<not> m_incrementAttempt m"
  shows "keeps (books tabs) (on_db (transition D c i s m))"
proof (rule keepsI)
  fix \<sigma> r \<sigma>'
  assume b: "books tabs \<sigma>" and run: "on_db (transition D c i s m) \<sigma> = (r, \<sigma>')"
  then have tr: "transition D c i s m (db \<sigma>) = (r, db \<sigma>')" and ch: "charges \<sigma>' = charges \<sigma>"
    by (simp_all add: on_db_eq)
  show "books tabs \<sigma>'"
  proof (cases r)
    case (Inl e)
    with sm.move_fail tr have "tabs (db \<sigma>') = tabs (db \<sigma>)" by blast
    with b ch show ?thesis by (simp add: books_def)
  next
    case (Inr t')
    with sm.move_ok tr have "transitioned c i s m (tabs (db \<sigma>)) t' (tabs (db \<sigma>'))" by blast
    with b ch assms show ?thesis
      by (auto simp: books_def dest: transitioned_well_kept transitioned_attempts_logged transitioned_recorded(1))
  qed
qed

lemma books_processing:
  "hoare (books tabs) (on_db (transition D c i PROCESSING (processing_meta g)))
     (\<lambda>_ s. books tabs (s\<lparr>charges := charges s @ [(g, charge_request_of key dto i g)]\<rparr>)) (\<lambda>_. books tabs)"
proof (rule hoareI)
  fix \<sigma> x \<sigma>'
  assume b: "books tabs \<sigma>" and run: "on_db (transition D c i PROCESSING (processing_meta g)) \<sigma> = (Inr x, \<sigma>')"
  then have "transition D c i PROCESSING (processing_meta g) (db \<sigma>) = (Inr x, db \<sigma>')" and ch: "charges \<sigma>' = charges \<sigma>"
    by (simp_all add: on_db_eq)
  then have tr: "transitioned c i PROCESSING (processing_meta g) (tabs (db \<sigma>)) x (tabs (db \<sigma>'))"
    using sm.move_ok by blast
  have "req_transactionId (charge_request_of key dto i g) = i" by (simp add: charge_request_of_def)
  from transitioned_recorded(2) [OF tr _ refl _ this] transitioned_well_kept [OF tr] transitioned_attempts_logged [OF tr] b ch
  show "books tabs (\<sigma>'\<lparr>charges := charges \<sigma>' @ [(g, charge_request_of key dto i g)]\<rparr>)"
    by (simp add: books_def)
next
  fix \<sigma> e \<sigma>'
  assume b: "books tabs \<sigma>" and run: "on_db (transition D c i PROCESSING (processing_meta g)) \<sigma> = (Inl e, \<sigma>')"
  then show "books tabs \<sigma>'" using sm.move_fail by (fastforce simp: on_db_eq books_def)
qed

lemma books_call_gateway:
  "hoare (\<lambda>s. books tabs (s\<lparr>charges := charges s @ [(g, charge_request_of key dto i g)]\<rparr>))
     (call_gateway w key dto i g) (\<lambda>_. books tabs) (\<lambda>_. books tabs)"
  by (simp add: hoare_def call_gateway_def)

lemma keeps_books_remember: "keeps (books tabs) (remember C key t)"
  by (rule keeps_booksI) (auto simp: remember_def on_redis_eq)

lemma keeps_books_record:
  "keeps (books tabs) (recordSuccess D C g latency)" "keeps (books tabs) (recordFailure D C g latency)"
proof -
  show "keeps (books tabs) (recordSuccess D C g latency)"
    by (rule keeps_booksI, rule conjI)
      (blast dest: recordSuccess_spec, rule charges_unchanged, rule keeps_charges_record)
  show "keeps (books tabs) (recordFailure D C g latency)"
    by (rule keeps_booksI, rule conjI)
      (blast dest: recordFailure_spec, rule charges_unchanged, rule keeps_charges_record)
qed

lemma keeps_books_getRankedGateways: "keeps (books tabs) (getRankedGateways env D C amt)"
  by (rule keeps_booksI, rule conjI)
    (blast dest: getRankedGateways_spec, rule charges_unchanged, rule keeps_charges_getRankedGateways)

text \<open>Hence the whole loop keeps them, wherever it stops.\<close>

lemma keeps_books_execute: "keeps (books tabs) (execute w D C key dto i e gs)"
proof (induction gs arbitrary: e)
  case Nil
  show ?case unfolding execute.simps by (rule keeps_throw)
next
  case (Cons g gs)
  note tr = keeps_books_transition
  have rest: "keeps (books tabs)
     (if success (snd a) then
       andThen (on_db (transition D (clock w) i SUCCESS (success_meta g (snd a)))) (\<lambda>updatedTxn.
       andThen (recordSuccess D C g (attempt_latency a)) (\<lambda>_.
       andThen (remember C key updatedTxn) (\<lambda>_. ret (Entity updatedTxn))))
     else
       andThen (recordFailure D C g (attempt_latency a)) (\<lambda>_.
       if gs \<noteq> [] then
         andThen (on_db (transition D (clock w) i RETRY_PENDING (retry_meta g (snd a)))) (\<lambda>_.
         execute w D C key dto i (error (snd a)) gs)
       else
         andThen (on_db (transition D (clock w) i FAILED (failed_meta g (snd a)))) (\<lambda>failedTxn.
         andThen (remember C key failedTxn) (\<lambda>_. ret (Entity failedTxn)))))" for a
    by (intro keeping keeps_books_record keeps_books_remember tr Cons.IH) simp_all
  show ?case
    unfolding execute.simps
    by (rule keeps_andThen, rule tr, simp, simp, rule hoare_andThen, rule hoare_andThen,
        rule rest, rule books_call_gateway, rule books_processing)
qed

text \<open>Creating a payment: the row first, then its creation entry.\<close>

lemma books_insertTxn:
  "hoare (books tabs) (on_db (insertTxn D (new_payment key dto g gs)))
     (\<lambda>saved s. books tabs s \<and> just_inserted tabs saved s) (\<lambda>_. books tabs)"
proof (rule hoareI)
  fix s t and s' :: "('d, 'b) node"
  let ?T = "tabs (db (s :: ('d, 'b) node))" and ?T' = "tabs (db s')"
  assume b: "books tabs s" and run: "on_db (insertTxn D (new_payment key dto g gs)) s = (Inr t, s')"
  then have ins: "insertTxn D (new_payment key dto g gs) (db s) = (Inr t, db s')" and ch: "charges s' = charges s"
    by (simp_all add: on_db_eq)
  from implementsD [OF insertTxn ins] obtain i c u where
    new: "txn_by_key ?T key = None" "txn_by_id ?T (txnId t) = None" "trail ?T (txnId t) = []"
    and t: "t = txn_row (new_payment key dto g gs) i c u"
    and T': "?T' = ?T\<lparr>transactions := transactions ?T @ [t]\<rparr>"
    by (auto simp: new_payment_def)
  have tf: "idempotencyKey t = key" "currentState t = INITIATED" "attemptCount t = 0" "finalReconciledAt t = None"
    by (simp_all add: t txn_row_def new_payment_def)
  have fresh: "txnId t \<notin> txnId ` set (transactions ?T)" "key \<notin> idempotencyKey ` set (transactions ?T)"
    using new(1,2) by (auto simp: txn_by_id_def txn_by_key_def find_None_iff)
  have tx: "transactions ?T' = transactions ?T @ [t]" by (simp add: T')
  have tl: "trail ?T' j = trail ?T j" for j by (simp add: T' trail_def)
  have bi: "txn_by_id ?T' j = (if j = txnId t then Some t else txn_by_id ?T j)" for j
    using new(2) by (auto simp: T' txn_by_id_def find_append split: option.splits)
  have none: "charges_for (txnId t) (charges s) = []"
    using b new(2) by (auto simp: books_def charges_recorded_def charges_for_def filter_empty_conv)
  have "kept_txn (trail ?T' (txnId t)) t"
    using new(3) tf by (auto simp: tl kept_txn_def)
  with b fresh have "well_kept ?T'"
    by (auto simp: books_def well_kept_def tl tx tf)
  moreover from b tf new(3) have "attempts_logged ?T'"
    by (auto simp: books_def attempts_logged_def tl tx processing_entries_def)
  moreover from b none new(3) have "charges_recorded ?T' (charges s')"
    by (auto simp: books_def charges_recorded_def processing_trail_def tl bi ch tx)
  ultimately show "books tabs s' \<and> just_inserted tabs t s'"
    using new(3) tf by (simp add: books_def just_inserted_def bi tl)
next
  fix s e s'
  assume "books tabs s" "on_db (insertTxn D (new_payment key dto g gs)) s = (Inl e, s')"
  then show "books tabs s'" using implements_failD [OF insertTxn] by (fastforce simp: on_db_eq books_def)
qed

lemma books_creation_audit:
  "hoare (\<lambda>s. books tabs s \<and> just_inserted tabs t s) (on_db (insertAudit D (creation_audit t g)))
     (\<lambda>_. books tabs) (\<lambda>_. books tabs)"
proof (rule hoareI)
  fix s x and s' :: "('d, 'b) node"
  let ?T = "tabs (db (s :: ('d, 'b) node))" and ?T' = "tabs (db s')"
  assume b: "books tabs s \<and> just_inserted tabs t s" and run: "on_db (insertAudit D (creation_audit t g)) s = (Inr x, s')"
  then have ins: "insertAudit D (creation_audit t g) (db s) = (Inr x, db s')" and ch: "charges s' = charges s"
    by (simp_all add: on_db_eq)
  from implementsD [OF insertAudit ins] have x: "fromState x = None" "toState x = INITIATED" "transactionId x = txnId t"
    and T': "?T' = ?T\<lparr>audit := audit ?T @ [x]\<rparr>"
    by (auto simp: audit_row_def creation_audit_def)
  have tl: "trail ?T' j = trail ?T j @ (if j = txnId t then [x] else [])" for j
    using x by (auto simp: T')
  have uniq: "r = t" if "r \<in> set (transactions ?T)" "txnId r = txnId t" for r
    using that b txn_by_id_in [of ?T "txnId t" t]
    by (auto simp: just_inserted_def books_def well_kept_def distinct_map inj_on_def)
  have "kept_txn (trail ?T' (txnId r)) r" if "r \<in> set (transactions ?T)" for r
  proof (cases "txnId r = txnId t")
    case True
    with uniq that have r: "r = t" by blast
    moreover have "finalReconciledAt t = None"
      using b that r by (auto simp: books_def well_kept_def kept_txn_def just_inserted_def)
    ultimately show ?thesis
      using b x by (auto simp: tl just_inserted_def kept_txn_def legal_entry_def)
  next
    case False
    with that b show ?thesis by (auto simp: tl books_def well_kept_def)
  qed
  with b have "well_kept ?T'" by (simp add: books_def well_kept_def T')
  moreover from b x have "attempts_logged ?T'" "charges_recorded ?T' (charges s')"
    by (simp_all add: books_def attempts_logged_def charges_recorded_def processing_trail_def
        processing_entries_def tl ch, simp_all add: T' txn_by_id_def)
  ultimately show "books tabs s'" by (simp add: books_def)
next
  fix s e s'
  assume "books tabs s \<and> just_inserted tabs t s" "on_db (insertAudit D (creation_audit t g)) s = (Inl e, s')"
  then show "books tabs s'" using implements_failD [OF insertAudit] by (fastforce simp: on_db_eq books_def)
qed

text \<open>The whole method, on every path and also when it throws.\<close>

lemma keeps_books_answer_existing: "keeps (books tabs) (answer_existing C key t)"
  unfolding answer_existing_def by (intro keeping keeps_books_remember)

lemma find_by_key_run:
  assumes "on_db (findTxnByKey D key) s = (r, s')"
  shows "tabs (db s') = tabs (db s) \<and> charges s' = charges s \<and> redis s' = redis s \<and>
    (case r of Inl e \<Rightarrow> db_failure e | Inr x \<Rightarrow> x = txn_by_key (tabs (db s)) key)"
  using assms implementsD [OF findTxnByKey, of key "db s"] implements_failD [OF findTxnByKey, of key "db s"]
  by (cases r) (auto simp: on_db_eq)

lemma keeps_books_find_by_key: "keeps (books tabs) (on_db (findTxnByKey D key))"
  by (rule keepsI) (drule find_by_key_run, simp add: books_def)

lemma keeps_books_create: "keeps (books tabs) (create w D C key dto)"
proof -
  have redis: "keeps (books tabs) (on_redis m)" for m :: "('r redis_state, 'x) io"
    by (rule keepsI) (simp add: on_redis_eq books_def)
  have insert: "keeps (books tabs)
      (andThen (on_db (insertTxn D (new_payment key dto g gs))) (\<lambda>saved.
       andThen (on_db (insertAudit D (creation_audit saved g))) (\<lambda>_.
       execute w D C key dto (txnId saved) (Some (JStr ''No gateways available'')) (g # gs))))" for g gs
    by (rule hoare_andThen, rule hoare_andThen, rule keeps_books_execute, rule books_creation_audit, rule books_insertTxn)
  show ?thesis
    unfolding create_def create_with_lock_def create_without_lock_def
    by (intro keeping redis insert keeps_books_answer_existing keeps_books_find_by_key keeps_books_getRankedGateways)
qed

end

end
