(* ===== verification/Failover.thy ===== *)
theory Failover
  imports Transactions
begin

text \<open>
  What the failover loop and \<open>create\<close> promise, as triples over the rows, the audit trail and
  the charges: \<open>settled\<close> is the row a payment ends with, \<open>tried\<close> the gateways it charges,
  \<open>expected_trail\<close> the entries it leaves.
\<close>

subsection \<open>The abstract payment\<close>

text \<open>The gateways a payment charges: in ranked order, up to the first that accepts.\<close>

fun tried :: "(GatewayProvider \<Rightarrow> charge_response) \<Rightarrow> GatewayProvider list \<Rightarrow> GatewayProvider list" where
  "tried resp [] = []"
| "tried resp (g # gs) = g # (if success (resp g) then [] else tried resp gs)"

definition settled ::
  "(GatewayProvider \<Rightarrow> charge_response) \<Rightarrow> GatewayProvider list \<Rightarrow> transaction \<Rightarrow> transaction" where
  "settled resp gs t = t
     \<lparr>currentState := (if \<exists>g \<in> set gs. success (resp g) then SUCCESS else FAILED),
      selectedGateway := Some (last (tried resp gs)),
      gatewayTxnId := (case find (\<lambda>g. success (resp g)) gs of
         Some g \<Rightarrow> (case resp_gatewayTxnId (resp g) of Some j \<Rightarrow> j | None \<Rightarrow> gatewayTxnId t)
       | None \<Rightarrow> gatewayTxnId t),
      attemptCount := attemptCount t + length (tried resp gs)\<rparr>"

text \<open>The content of an audit entry, without its id and timestamp.\<close>

definition audit_content :: "audit_log \<Rightarrow> new_audit" where
  "audit_content a =
     \<lparr>new_transactionId = transactionId a, new_fromState = fromState a, new_toState = toState a,
      new_auditGateway = auditGateway a, new_reason = reason a, new_rawGatewayResponse = rawGatewayResponse a\<rparr>"

definition entry :: "string \<Rightarrow> TransactionState \<Rightarrow> TransactionState \<Rightarrow> GatewayProvider \<Rightarrow> metadata \<Rightarrow> new_audit" where
  "entry i fromS toS g m =
     \<lparr>new_transactionId = i, new_fromState = Some fromS, new_toState = toS, new_auditGateway = Some g,
      new_reason = m_reason m,
      new_rawGatewayResponse = (case m_rawGatewayResponse m of None \<Rightarrow> JNull | Some j \<Rightarrow> j)\<rparr>"

fun expected_trail ::
  "(GatewayProvider \<Rightarrow> charge_response) \<Rightarrow> string \<Rightarrow> TransactionState \<Rightarrow> GatewayProvider list \<Rightarrow> new_audit list" where
  "expected_trail resp i s [] = []"
| "expected_trail resp i s (g # gs) =
     entry i s ROUTED g (routed_meta g) # entry i ROUTED PROCESSING g (processing_meta g) #
     (if success (resp g) then [entry i PROCESSING SUCCESS g (success_meta g (resp g))]
      else if gs = [] then [entry i PROCESSING FAILED g (failed_meta g (resp g))]
      else entry i PROCESSING RETRY_PENDING g (retry_meta g (resp g)) # expected_trail resp i RETRY_PENDING gs)"

definition answers :: "world \<Rightarrow> string \<Rightarrow> create_dto \<Rightarrow> string \<Rightarrow> GatewayProvider \<Rightarrow> charge_response" where
  "answers w key dto i g = snd (attempt w key dto i g)"

definition sent :: "string \<Rightarrow> create_dto \<Rightarrow> string \<Rightarrow> GatewayProvider list \<Rightarrow> (GatewayProvider \<times> charge_request) list" where
  "sent key dto i gs = map (\<lambda>g. (g, charge_request_of key dto i g)) gs"

lemma tried_prefix: "prefix (tried resp gs) gs"
  by (induction gs) auto

lemma tried_nonempty [simp]: "tried resp gs = [] \<longleftrightarrow> gs = []"
  by (cases gs) auto

lemma tried_failures: "g \<in> set (butlast (tried resp gs)) \<Longrightarrow> \<not> success (resp g)"
  by (induction gs) (auto split: if_splits)

lemma tried_last: "gs \<noteq> [] \<Longrightarrow> success (resp (last (tried resp gs))) \<longleftrightarrow> (\<exists>g \<in> set gs. success (resp g))"
  by (induction gs) auto

lemma tried_all: "\<forall>g \<in> set gs. \<not> success (resp g) \<Longrightarrow> tried resp gs = gs"
  by (induction gs) auto

subsection \<open>What the calls do to rows, trail and charges\<close>

definition rows :: "tables \<Rightarrow> string \<Rightarrow> transaction option" where
  "rows T = txn_by_id T"

definition logs :: "tables \<Rightarrow> string \<Rightarrow> new_audit list" where
  "logs T i = map audit_content (trail T i)"

definition snapshot ::
  "('d \<Rightarrow> tables) \<Rightarrow> (string \<rightharpoonup> transaction) \<Rightarrow> (string \<Rightarrow> new_audit list) \<Rightarrow>
   (GatewayProvider \<times> charge_request) list \<Rightarrow> ('d, 'r) node \<Rightarrow> bool" where
  "snapshot tabs R L cs s \<longleftrightarrow> rows (tabs (db s)) = R \<and> logs (tabs (db s)) = L \<and> charges s = cs"

definition cached_text :: "('r \<Rightarrow> entries) \<Rightarrow> string \<Rightarrow> ('d, 'r) node \<Rightarrow> string option" where
  "cached_text kv key s = map_option fst (redis_view kv (redis s) (redis_key key))"

lemma audit_content_row [simp]: "audit_content (audit_row n i c) = n"
  by (simp add: audit_content_def audit_row_def)

lemma transition_audit_entry:
  "m_gateway m = Some (Some g) \<Longrightarrow> transition_audit t fromS toS m = entry (txnId t) fromS toS g m"
  by (simp add: transition_audit_def entry_def)

lemma transitioned_views:
  assumes tr: "transitioned c i s m T t' T'" and t: "txn_by_id T i = Some t"
  shows "\<exists>u. t' = (apply_transition c s m t)\<lparr>updatedAt := u\<rparr>" "rows T' = (rows T)(i \<mapsto> t')"
    "logs T' = (logs T)(i := logs T i @ [transition_audit t' (currentState t) s m])"
proof -
  from tr t obtain u ai ac where "t' = (apply_transition c s m t)\<lparr>updatedAt := u\<rparr>"
    and tl: "\<And>j. trail T' j = trail T j @
       (if j = i then [audit_row (transition_audit t' (currentState t) s m) ai ac] else [])"
    by (elim transitionedE) auto
  then show "\<exists>u. t' = (apply_transition c s m t)\<lparr>updatedAt := u\<rparr>" by blast
  show "rows T' = (rows T)(i \<mapsto> t')"
    by (rule ext) (simp add: rows_def transitioned_by_id [OF tr])
  show "logs T' = (logs T)(i := logs T i @ [transition_audit t' (currentState t) s m])"
    by (rule ext) (simp add: logs_def tl)
qed

lemma at_payments:
  assumes "snapshot tabs R L cs s" "payments (tabs (db s')) = payments (tabs (db s))" "charges s' = charges s"
  shows "snapshot tabs R L cs s'"
  using assms(1,3) payments_eqD [OF assms(2)] by (simp add: snapshot_def rows_def logs_def fun_eq_iff)

text \<open>A row while its gateway is being called.\<close>

definition attempted :: "GatewayProvider \<Rightarrow> transaction \<Rightarrow> timestamp \<Rightarrow> transaction" where
  "attempted g t u = t\<lparr>currentState := PROCESSING, selectedGateway := Some g,
     attemptCount := Suc (attemptCount t), updatedAt := u\<rparr>"

lemma attempted_transitions:
  "(apply_transition c PROCESSING (processing_meta g) ((apply_transition c ROUTED (routed_meta g) t)\<lparr>updatedAt := u1\<rparr>))
     \<lparr>updatedAt := u2\<rparr> = attempted g t u2"
  by (intro transaction.equality) (simp_all add: attempted_def)

definition retried :: "GatewayProvider \<Rightarrow> transaction \<Rightarrow> timestamp \<Rightarrow> transaction" where
  "retried g t u = (attempted g t u)\<lparr>currentState := RETRY_PENDING\<rparr>"

text \<open>Where a payment ends: the row is \<open>t0\<close> up to its update time, and the answer is cached.\<close>

definition ended ::
  "('d \<Rightarrow> tables) \<Rightarrow> ('r \<Rightarrow> entries) \<Rightarrow> string \<Rightarrow> string \<Rightarrow> transaction \<Rightarrow> (string \<rightharpoonup> transaction) \<Rightarrow>
   (string \<Rightarrow> new_audit list) \<Rightarrow> (GatewayProvider \<times> charge_request) list \<Rightarrow> create_result \<Rightarrow> ('d, 'r) node \<Rightarrow> bool" where
  "ended tabs kv key i t0 R L cs x s \<longleftrightarrow>
     (\<exists>t. x = Entity t \<and> (\<exists>u. t = t0\<lparr>updatedAt := u\<rparr>) \<and> snapshot tabs (R(i \<mapsto> t)) L cs s \<and>
        cached_text kv key s = Some (JSON_stringify (completed_json t)))"

text \<open>Rules for composing triples forwards.\<close>

lemma hoare_step:
  assumes "hoare P m R E'" "\<And>e s. E' e s \<Longrightarrow> E e s" "\<And>x. hoare (R x) (f x) Q E"
  shows "hoare P (andThen m f) Q E"
  by (rule hoare_andThen [OF assms(3)]) (rule hoare_conseq [OF assms(1)], simp_all add: assms(2))

lemma hoare_ex:
  assumes "\<And>u. hoare (P u) m Q E"
  shows "hoare (\<lambda>s. \<exists>u. P u s) m Q E"
proof (rule hoareI)
  fix s
  assume "\<exists>u. P u s"
  then obtain u where u: "P u s" by blast
  show "Q x s'" if "m s = (Inr x, s')" for x s'
    using hoare_InrD [OF assms u that] .
  show "E e s'" if "m s = (Inl e, s')" for e s'
    using hoare_InlD [OF assms u that] .
qed

lemma hoare_assume: "(A \<Longrightarrow> hoare P m Q E) \<Longrightarrow> hoare (\<lambda>s. A \<and> P s) m Q E"
  by (auto simp: hoare_def)

context backend
begin

lemma at_transition:
  assumes t: "R i = Some t" and ok: "can_transition (currentState t) s" and g: "m_gateway m = Some (Some g)"
  shows "hoare (snapshot tabs R L cs) (on_db (transition D c i s m))
    (\<lambda>t' \<sigma>. (\<exists>u. t' = (apply_transition c s m t)\<lparr>updatedAt := u\<rparr>) \<and>
       snapshot tabs (R(i \<mapsto> t')) (L(i := L i @ [entry i (currentState t) s g m])) cs \<sigma>)
    (\<lambda>e \<sigma>. db_failure e \<and> snapshot tabs R L cs \<sigma>)"
proof (rule hoareI)
  fix \<sigma> t' \<sigma>'
  assume a: "snapshot tabs R L cs \<sigma>" and "on_db (transition D c i s m) \<sigma> = (Inr t', \<sigma>')"
  then have tr: "transitioned c i s m (tabs (db \<sigma>)) t' (tabs (db \<sigma>'))" and ch: "charges \<sigma>' = charges \<sigma>"
    using sm.move_ok by (auto simp: on_db_eq)
  have t0: "txn_by_id (tabs (db \<sigma>)) i = Some t" using a t by (auto simp: snapshot_def rows_def)
  from transitioned_state [OF tr] have "txnId t' = i" by blast
  with transitioned_views [OF tr t0] a ch transition_audit_entry [OF g, of t' "currentState t" s]
  show "(\<exists>u. t' = (apply_transition c s m t)\<lparr>updatedAt := u\<rparr>) \<and>
      snapshot tabs (R(i \<mapsto> t')) (L(i := L i @ [entry i (currentState t) s g m])) cs \<sigma>'"
    by (simp add: snapshot_def)
next
  fix \<sigma> e \<sigma>'
  assume a: "snapshot tabs R L cs \<sigma>" and "on_db (transition D c i s m) \<sigma> = (Inl e, \<sigma>')"
  then have "tabs (db \<sigma>') = tabs (db \<sigma>)" "db_failure e \<or> transition_refusal (tabs (db \<sigma>)) i s = Some e"
    and ch: "charges \<sigma>' = charges \<sigma>"
    using sm.move_fail [of c i s m "db \<sigma>" e "db \<sigma>'"] by (auto simp: on_db_eq)
  moreover have "transition_refusal (tabs (db \<sigma>)) i s = None"
    using a t ok by (auto simp: transition_refusal_def snapshot_def rows_def)
  ultimately show "db_failure e \<and> snapshot tabs R L cs \<sigma>'"
    using a by (auto simp: snapshot_def)
qed

lemma at_recordSuccess:
  "hoare (snapshot tabs R L cs) (recordSuccess D C g l) (\<lambda>_. snapshot tabs R L cs) (\<lambda>e s. db_failure e \<and> snapshot tabs R L cs s)"
proof (rule hoareI)
  fix s s' :: "('d, 'r) node"
  assume a: "snapshot tabs R L cs s"
  have ch: "recordSuccess D C g l s = (r, s') \<Longrightarrow> charges s' = charges s" for r
    by (rule charges_unchanged, rule keeps_charges_record)
  show "snapshot tabs R L cs s'" if "recordSuccess D C g l s = (Inr x, s')" for x
    using recordSuccess_spec [OF that] ch [OF that] at_payments [OF a] by blast
  show "db_failure e \<and> snapshot tabs R L cs s'" if "recordSuccess D C g l s = (Inl e, s')" for e
    using recordSuccess_spec [OF that] ch [OF that] at_payments [OF a] by auto
qed

lemma at_recordFailure:
  "hoare (snapshot tabs R L cs) (recordFailure D C g l) (\<lambda>_. snapshot tabs R L cs) (\<lambda>e s. db_failure e \<and> snapshot tabs R L cs s)"
proof (rule hoareI)
  fix s s' :: "('d, 'r) node"
  assume a: "snapshot tabs R L cs s"
  have ch: "recordFailure D C g l s = (r, s') \<Longrightarrow> charges s' = charges s" for r
    by (rule charges_unchanged, rule keeps_charges_record)
  show "snapshot tabs R L cs s'" if "recordFailure D C g l s = (Inr x, s')" for x
    using recordFailure_spec [OF that] ch [OF that] at_payments [OF a] by blast
  show "db_failure e \<and> snapshot tabs R L cs s'" if "recordFailure D C g l s = (Inl e, s')" for e
    using recordFailure_spec [OF that] ch [OF that] at_payments [OF a] by auto
qed

lemma at_remember:
  "hoare (snapshot tabs R L cs) (remember C key t)
     (\<lambda>_ s. snapshot tabs R L cs s \<and> cached_text kv key s = Some (JSON_stringify (completed_json t))) (\<lambda>e s. False)"
proof (rule hoareI)
  fix s r s'
  assume a: "snapshot tabs R L cs s" and "remember C key t s = (Inr r, s')"
  then have "redis_set C (redis_key key) (JSON_stringify (completed_json t)) None (Some EX_seconds) (Some 86400) (redis s) =
      (Inr r, redis s')" and "db s' = db s" "charges s' = charges s"
    by (simp_all add: remember_def on_redis_eq)
  with a service.kset_stores show "snapshot tabs R L cs s' \<and> cached_text kv key s' = Some (JSON_stringify (completed_json t))"
    by (auto simp: snapshot_def cached_text_def)
next
  fix s e s'
  assume "remember C key t s = (Inl e, s')"
  then show False
    using service.kset_returns [of "redis_key key" "JSON_stringify (completed_json t)" None "Some EX_seconds" "Some 86400" "redis s"]
    by (auto simp: remember_def on_redis_eq)
qed

lemma at_call_gateway:
  "hoare (snapshot tabs R L cs) (call_gateway w key dto i g)
     (\<lambda>a s. a = attempt w key dto i g \<and> snapshot tabs R L (cs @ [(g, charge_request_of key dto i g)]) s) (\<lambda>e s. False)"
  by (simp add: hoare_def call_gateway_def snapshot_def)

subsection \<open>The loop\<close>

text \<open>Up to the call: two transitions and one charge.\<close>

lemma attempt_triple:
  assumes t: "R i = Some t0" "currentState t0 = INITIATED \<or> currentState t0 = RETRY_PENDING"
    and E: "\<And>e s. db_failure e \<Longrightarrow> charges s = cs \<Longrightarrow> E e s"
    and k: "\<And>u. hoare (snapshot tabs (R(i \<mapsto> attempted g t0 u))
        (L(i := L i @ [entry i (currentState t0) ROUTED g (routed_meta g), entry i ROUTED PROCESSING g (processing_meta g)]))
        (cs @ [(g, charge_request_of key dto i g)])) (k (attempt w key dto i g)) Q E"
  shows "hoare (snapshot tabs R L cs)
    (andThen (on_db (transition D c i ROUTED (routed_meta g))) (\<lambda>_.
     andThen (on_db (transition D c i PROCESSING (processing_meta g))) (\<lambda>_.
     andThen (call_gateway w key dto i g) k))) Q E"
proof (rule hoare_step [OF at_transition [where t = t0 and g = g]])
  show "R i = Some t0" "can_transition (currentState t0) ROUTED" "m_gateway (routed_meta g) = Some (Some g)"
    using t by (auto simp: can_transition_iff)
  show "E e s" if "db_failure e \<and> snapshot tabs R L cs s" for e s
    using that E by (simp add: snapshot_def)
  let ?L1 = "L(i := L i @ [entry i (currentState t0) ROUTED g (routed_meta g)])"
  show "hoare (\<lambda>\<sigma>. (\<exists>u. t1 = (apply_transition c ROUTED (routed_meta g) t0)\<lparr>updatedAt := u\<rparr>) \<and>
      snapshot tabs (R(i \<mapsto> t1)) ?L1 cs \<sigma>)
    (andThen (on_db (transition D c i PROCESSING (processing_meta g))) (\<lambda>_. andThen (call_gateway w key dto i g) k)) Q E" for t1
  proof (rule hoare_assume, elim exE, rule hoare_step [OF at_transition [where t = t1 and g = g]])
    fix u1
    assume t1: "t1 = (apply_transition c ROUTED (routed_meta g) t0)\<lparr>updatedAt := u1\<rparr>"
    then show "(R(i \<mapsto> t1)) i = Some t1" "can_transition (currentState t1) PROCESSING"
      "m_gateway (processing_meta g) = Some (Some g)" by (simp_all add: can_transition_iff)
    show "E e s" if "db_failure e \<and> snapshot tabs (R(i \<mapsto> t1)) ?L1 cs s" for e s
      using that E by (simp add: snapshot_def)
    show "hoare (\<lambda>\<sigma>. (\<exists>u. t2 = (apply_transition c PROCESSING (processing_meta g) t1)\<lparr>updatedAt := u\<rparr>) \<and>
        snapshot tabs (R(i \<mapsto> t1, i \<mapsto> t2)) (?L1(i := ?L1 i @ [entry i (currentState t1) PROCESSING g (processing_meta g)])) cs \<sigma>)
      (andThen (call_gateway w key dto i g) k) Q E" for t2
    proof (rule hoare_assume, elim exE, rule hoare_step [OF at_call_gateway])
      fix u2 a
      assume "t2 = (apply_transition c PROCESSING (processing_meta g) t1)\<lparr>updatedAt := u2\<rparr>"
      then have t2: "t2 = attempted g t0 u2" by (simp only: t1 attempted_transitions)
      have st1: "currentState t1 = ROUTED" by (simp add: t1)
      have "hoare (snapshot tabs (R(i \<mapsto> t1, i \<mapsto> t2))
          (?L1(i := ?L1 i @ [entry i (currentState t1) PROCESSING g (processing_meta g)]))
          (cs @ [(g, charge_request_of key dto i g)])) (k (attempt w key dto i g)) Q E"
        using k [of u2] by (simp add: t2 st1)
      then show "hoare (\<lambda>s. a = attempt w key dto i g \<and> snapshot tabs (R(i \<mapsto> t1, i \<mapsto> t2))
          (?L1(i := ?L1 i @ [entry i (currentState t1) PROCESSING g (processing_meta g)]))
          (cs @ [(g, charge_request_of key dto i g)]) s) (k a) Q E"
        by (auto intro: hoare_assume)
    qed simp
  qed
qed

text \<open>The three ways on: accepted, refused by the last gateway, refused with fallbacks left.\<close>

lemma remember_triple:
  assumes "\<exists>u. t = t0\<lparr>updatedAt := u\<rparr>"
  shows "hoare (snapshot tabs (R(i \<mapsto> t)) L cs) (andThen (remember C key t) (\<lambda>_. ret (Entity t)))
    (ended tabs kv key i t0 R L cs) E"
  using assms
  by (intro hoare_step [OF at_remember] hoare_pre [OF hoare_ret]) (auto simp: ended_def)

lemma success_triple:
  assumes "success (resp g)" and E: "\<And>e s. db_failure e \<Longrightarrow> charges s = cs \<Longrightarrow> E e s"
  shows "hoare (snapshot tabs (R(i \<mapsto> attempted g t0 u)) L cs)
    (andThen (on_db (transition D c i SUCCESS (success_meta g (resp g)))) (\<lambda>t.
     andThen (recordSuccess D C g l) (\<lambda>_. andThen (remember C key t) (\<lambda>_. ret (Entity t)))))
    (ended tabs kv key i (settled resp (g # gs) t0) R (L(i := L i @ [entry i PROCESSING SUCCESS g (success_meta g (resp g))])) cs) E"
proof (rule hoare_step [OF at_transition [where t = "attempted g t0 u" and g = g]])
  fix t
  show "hoare (\<lambda>\<sigma>. (\<exists>v. t = (apply_transition c SUCCESS (success_meta g (resp g)) (attempted g t0 u))\<lparr>updatedAt := v\<rparr>) \<and>
       snapshot tabs (R(i \<mapsto> attempted g t0 u, i \<mapsto> t))
         (L(i := L i @ [entry i (currentState (attempted g t0 u)) SUCCESS g (success_meta g (resp g))])) cs \<sigma>)
     (andThen (recordSuccess D C g l) (\<lambda>_. andThen (remember C key t) (\<lambda>_. ret (Entity t))))
     (ended tabs kv key i (settled resp (g # gs) t0) R (L(i := L i @ [entry i PROCESSING SUCCESS g (success_meta g (resp g))])) cs) E"
  proof (rule hoare_assume, elim exE)
    fix v
    assume "t = (apply_transition c SUCCESS (success_meta g (resp g)) (attempted g t0 u))\<lparr>updatedAt := v\<rparr>"
    then have "t = (settled resp (g # gs) t0)\<lparr>updatedAt := v\<rparr>"
      using assms(1) by (intro transaction.equality) (simp_all add: settled_def attempted_def split: option.split)
    then show "hoare (snapshot tabs (R(i \<mapsto> attempted g t0 u, i \<mapsto> t))
         (L(i := L i @ [entry i (currentState (attempted g t0 u)) SUCCESS g (success_meta g (resp g))])) cs)
       (andThen (recordSuccess D C g l) (\<lambda>_. andThen (remember C key t) (\<lambda>_. ret (Entity t))))
       (ended tabs kv key i (settled resp (g # gs) t0) R (L(i := L i @ [entry i PROCESSING SUCCESS g (success_meta g (resp g))])) cs) E"
      using E by (intro hoare_step [OF at_recordSuccess])
        (auto simp: attempted_def snapshot_def [of _ _ _ cs] intro!: remember_triple)
  qed
qed (use E in \<open>auto simp: attempted_def can_transition_iff snapshot_def\<close>)

lemma failed_triple:
  assumes "\<not> success (resp g)" and E: "\<And>e s. db_failure e \<Longrightarrow> charges s = cs \<Longrightarrow> E e s"
  shows "hoare (snapshot tabs (R(i \<mapsto> attempted g t0 u)) L cs)
    (andThen (on_db (transition D c i FAILED (failed_meta g (resp g)))) (\<lambda>t.
     andThen (remember C key t) (\<lambda>_. ret (Entity t))))
    (ended tabs kv key i (settled resp [g] t0) R (L(i := L i @ [entry i PROCESSING FAILED g (failed_meta g (resp g))])) cs) E"
proof (rule hoare_step [OF at_transition [where t = "attempted g t0 u" and g = g]])
  fix t
  show "hoare (\<lambda>\<sigma>. (\<exists>v. t = (apply_transition c FAILED (failed_meta g (resp g)) (attempted g t0 u))\<lparr>updatedAt := v\<rparr>) \<and>
       snapshot tabs (R(i \<mapsto> attempted g t0 u, i \<mapsto> t))
         (L(i := L i @ [entry i (currentState (attempted g t0 u)) FAILED g (failed_meta g (resp g))])) cs \<sigma>)
     (andThen (remember C key t) (\<lambda>_. ret (Entity t)))
     (ended tabs kv key i (settled resp [g] t0) R (L(i := L i @ [entry i PROCESSING FAILED g (failed_meta g (resp g))])) cs) E"
  proof (rule hoare_assume, elim exE)
    fix v
    assume "t = (apply_transition c FAILED (failed_meta g (resp g)) (attempted g t0 u))\<lparr>updatedAt := v\<rparr>"
    then have "t = (settled resp [g] t0)\<lparr>updatedAt := v\<rparr>"
      using assms(1) by (intro transaction.equality) (simp_all add: settled_def attempted_def)
    then show "hoare (snapshot tabs (R(i \<mapsto> attempted g t0 u, i \<mapsto> t))
         (L(i := L i @ [entry i (currentState (attempted g t0 u)) FAILED g (failed_meta g (resp g))])) cs)
       (andThen (remember C key t) (\<lambda>_. ret (Entity t)))
       (ended tabs kv key i (settled resp [g] t0) R (L(i := L i @ [entry i PROCESSING FAILED g (failed_meta g (resp g))])) cs) E"
      by (auto simp: attempted_def intro!: remember_triple)
  qed
qed (use E in \<open>auto simp: attempted_def can_transition_iff snapshot_def\<close>)

lemma retry_triple:
  assumes E: "\<And>e s. db_failure e \<Longrightarrow> charges s = cs \<Longrightarrow> E e s"
    and k: "\<And>v. hoare (snapshot tabs (R(i \<mapsto> retried g t0 v)) (L(i := L i @ [entry i PROCESSING RETRY_PENDING g m])) cs) k Q E"
    and m: "m = retry_meta g r"
  shows "hoare (snapshot tabs (R(i \<mapsto> attempted g t0 u)) L cs)
    (andThen (on_db (transition D c i RETRY_PENDING m)) (\<lambda>_. k)) Q E"
proof (rule hoare_step [OF at_transition [where t = "attempted g t0 u" and g = g]])
  fix t
  show "hoare (\<lambda>\<sigma>. (\<exists>v. t = (apply_transition c RETRY_PENDING m (attempted g t0 u))\<lparr>updatedAt := v\<rparr>) \<and>
       snapshot tabs (R(i \<mapsto> attempted g t0 u, i \<mapsto> t))
         (L(i := L i @ [entry i (currentState (attempted g t0 u)) RETRY_PENDING g m])) cs \<sigma>) k Q E"
  proof (rule hoare_assume, elim exE)
    fix v
    assume "t = (apply_transition c RETRY_PENDING m (attempted g t0 u))\<lparr>updatedAt := v\<rparr>"
    then have "t = retried g t0 v"
      by (intro transaction.equality) (simp_all add: retried_def attempted_def m)
    with k [of v] show "hoare (snapshot tabs (R(i \<mapsto> attempted g t0 u, i \<mapsto> t))
         (L(i := L i @ [entry i (currentState (attempted g t0 u)) RETRY_PENDING g m])) cs) k Q E"
      by (simp add: attempted_def)
  qed
qed (use E m in \<open>auto simp: attempted_def can_transition_iff snapshot_def\<close>)

lemma settled_retried:
  assumes "\<not> success (resp g)" "gs \<noteq> []"
  shows "(settled resp gs (retried g t0 v))\<lparr>updatedAt := u\<rparr> = (settled resp (g # gs) t0)\<lparr>updatedAt := u\<rparr>"
  using assms by (intro transaction.equality) (simp_all add: settled_def retried_def attempted_def split: option.split)

text \<open>
  The loop: it charges the gateways of \<open>tried\<close> in order, ends with the row \<open>settled\<close> and the
  entries \<open>expected_trail\<close>, and caches the answer. It throws only when the database fails, and
  then it has charged an initial part of \<open>tried\<close>.
\<close>

lemma execute_triple:
  assumes "R i = Some t0" "currentState t0 = INITIATED \<or> currentState t0 = RETRY_PENDING" "gs \<noteq> []"
    and resp: "resp = answers w key dto i"
  shows "hoare (snapshot tabs R L cs) (execute w D C key dto i e gs)
    (ended tabs kv key i (settled resp gs t0) R (L(i := L i @ expected_trail resp i (currentState t0) gs))
       (cs @ sent key dto i (tried resp gs)))
    (\<lambda>e s. db_failure e \<and> (\<exists>n. charges s = cs @ sent key dto i (take n (tried resp gs))))"
  using assms(1,2,3)
proof (induction gs arbitrary: R t0 L cs e)
  case Nil
  then show ?case by simp
next
  case (Cons g gs)
  let ?a = "attempt w key dto i g" and ?cs = "cs @ [(g, charge_request_of key dto i g)]"
  let ?L = "L(i := L i @ [entry i (currentState t0) ROUTED g (routed_meta g), entry i ROUTED PROCESSING g (processing_meta g)])"
  let ?post = "ended tabs kv key i (settled resp (g # gs) t0) R
     (L(i := L i @ expected_trail resp i (currentState t0) (g # gs))) (cs @ sent key dto i (tried resp (g # gs)))"
  define err :: "exn \<Rightarrow> ('d, 'r) node \<Rightarrow> bool" where
    "err = (\<lambda>e s. db_failure e \<and> (\<exists>n. charges s = cs @ sent key dto i (take n (tried resp (g # gs)))))"
  have r: "snd ?a = resp g" by (simp add: resp answers_def)
  have e0: "err e' s" if "db_failure e'" "charges s = cs" for e' and s :: "('d, 'r) node"
    using that by (auto simp: err_def sent_def intro: exI [of _ 0])
  have e1: "err e' s" if "db_failure e'" "charges s = ?cs" for e' and s :: "('d, 'r) node"
    using that by (auto simp: err_def sent_def intro: exI [of _ 1])
  let ?succeed = "\<lambda>a. andThen (on_db (transition D (clock w) i SUCCESS (success_meta g (snd a)))) (\<lambda>updatedTxn.
       andThen (recordSuccess D C g (attempt_latency a)) (\<lambda>_.
       andThen (remember C key updatedTxn) (\<lambda>_. ret (Entity updatedTxn))))"
  let ?retry = "\<lambda>a. andThen (on_db (transition D (clock w) i RETRY_PENDING (retry_meta g (snd a)))) (\<lambda>_.
       execute w D C key dto i (error (snd a)) gs)"
  let ?giveup = "\<lambda>a. andThen (on_db (transition D (clock w) i FAILED (failed_meta g (snd a)))) (\<lambda>failedTxn.
       andThen (remember C key failedTxn) (\<lambda>_. ret (Entity failedTxn)))"
  let ?rest = "\<lambda>a. if success (snd a) then ?succeed a
       else andThen (recordFailure D C g (attempt_latency a)) (\<lambda>_. if gs \<noteq> [] then ?retry a else ?giveup a)"
  have rest: "hoare (snapshot tabs (R(i \<mapsto> attempted g t0 u)) ?L ?cs) (?rest ?a) ?post err" for u
  proof (cases "success (resp g)")
    case True
    have "hoare (snapshot tabs (R(i \<mapsto> attempted g t0 u)) ?L ?cs) (?succeed ?a) ?post err"
      unfolding r by (rule hoare_conseq [OF success_triple [where resp = resp and g = g, OF True e1]])
        (use True in \<open>auto simp: sent_def\<close>)
    with True show ?thesis by (simp only: r if_True)
  next
    case False
    have "hoare (snapshot tabs (R(i \<mapsto> attempted g t0 u)) ?L ?cs) (if gs \<noteq> [] then ?retry ?a else ?giveup ?a) ?post err"
    proof (cases "gs = []")
      case True
      have "hoare (snapshot tabs (R(i \<mapsto> attempted g t0 u)) ?L ?cs) (?giveup ?a) ?post err"
        unfolding r by (rule hoare_conseq [OF failed_triple [where resp = resp and g = g, OF False e1]])
          (use False True in \<open>auto simp: sent_def\<close>)
      with True show ?thesis by (simp only: simp_thms if_False)
    next
      case more: False
      have "hoare (snapshot tabs (R(i \<mapsto> attempted g t0 u)) ?L ?cs) (?retry ?a) ?post err"
        unfolding r
      proof (rule retry_triple [OF e1 _ refl])
        fix v
        show "hoare (snapshot tabs (R(i \<mapsto> retried g t0 v)) (?L(i := ?L i @ [entry i PROCESSING RETRY_PENDING g (retry_meta g (resp g))])) ?cs)
          (execute w D C key dto i (error (resp g)) gs) ?post err"
        proof (rule hoare_conseq [OF Cons.IH [where ?t0.0 = "retried g t0 v" and R = "R(i \<mapsto> retried g t0 v)"
              and L = "?L(i := ?L i @ [entry i PROCESSING RETRY_PENDING g (retry_meta g (resp g))])" and cs = ?cs]])
          show "(R(i \<mapsto> retried g t0 v)) i = Some (retried g t0 v)" "gs \<noteq> []"
            "currentState (retried g t0 v) = INITIATED \<or> currentState (retried g t0 v) = RETRY_PENDING"
            using more by (simp_all add: retried_def)
          show "err e' s" if "db_failure e' \<and> (\<exists>n. charges s = ?cs @ sent key dto i (take n (tried resp gs)))"
            for e' and s :: "('d, 'r) node"
            using that False by (auto simp: err_def sent_def intro: exI [of _ "Suc n" for n])
          show "?post x s" if "ended tabs kv key i (settled resp gs (retried g t0 v)) (R(i \<mapsto> retried g t0 v))
              ((?L(i := ?L i @ [entry i PROCESSING RETRY_PENDING g (retry_meta g (resp g))]))(i :=
                (?L(i := ?L i @ [entry i PROCESSING RETRY_PENDING g (retry_meta g (resp g))])) i @
                expected_trail resp i (currentState (retried g t0 v)) gs))
              (?cs @ sent key dto i (tried resp gs)) x s" for x and s :: "('d, 'r) node"
            using that False more
            by (simp add: ended_def settled_retried [of resp g gs] sent_def) (simp add: retried_def)
        qed
      qed
      with more show ?thesis by (simp only: simp_thms if_True)
    qed
    then have "hoare (snapshot tabs (R(i \<mapsto> attempted g t0 u)) ?L ?cs)
        (andThen (recordFailure D C g (attempt_latency ?a)) (\<lambda>_. if gs \<noteq> [] then ?retry ?a else ?giveup ?a)) ?post err"
      by (intro hoare_step [OF at_recordFailure]) (auto intro!: e1 simp: snapshot_def simp del: tried.simps)
    with False show ?thesis by (simp only: r if_False)
  qed
  show ?case
    unfolding execute.simps err_def [symmetric]
    by (rule attempt_triple, rule Cons.prems(1), rule Cons.prems(2), erule (1) e0, rule rest)
qed

end

end
