(* ===== verification/Idempotency.thy ===== *)
theory Idempotency
  imports Failover
begin

text \<open>
  What \<open>create\<close> promises for an idempotency key: one payment per key, replays that change and
  charge nothing and answer with the same body, a conflict while the first request runs, and a
  free key after a failure.
\<close>

subsection \<open>The cached text\<close>

lemma decimal_num_char: "list_all num_char (decimal n) \<and> num_start (hd (decimal n))"
proof (induction n rule: decimal.induct)
  case (1 n)
  have d: "num_start (digit k)" if "k < 10" for k
    using that by (simp add: num_start_def digit_def of_char_of)
  show ?case
  proof (cases "n < 10")
    case True
    with d [of n] show ?thesis by (subst (1 2) decimal.simps) (simp add: num_char_def)
  next
    case False
    with 1 d [of "n mod 10"] show ?thesis
      by (subst (1 2) decimal.simps) (simp add: num_char_def [of "digit _"] hd_append)
  qed
qed

lemma wf_txn_json: "wf_json (gatewayTxnId t) \<Longrightarrow> wf_json (txn_json t)"
  using decimal_num_char [of "attemptCount t"]
  by (auto simp: txn_json_def gateway_json_def list_all_iff split: option.splits)

lemma stringify_nonempty: "wf_json j \<Longrightarrow> JSON_stringify j \<noteq> []"
  using stringify_first by fastforce

lemma cached_answer_completed:
  assumes "wf_json (gatewayTxnId t)"
  shows "cached_answer w (Some (JSON_stringify (completed_json t))) = Inr (Some (Cached (Some (txn_json t))))"
proof -
  have wf: "wf_json (completed_json t)"
    using wf_txn_json [OF assms] by (simp add: completed_json_def)
  show ?thesis
    using JSON_parse_stringify [OF wf] stringify_nonempty [OF wf]
    by (simp add: cached_answer_def str_text_def) (simp add: completed_json_def)
qed

lemma cached_answer_processing:
  "cached_answer w (Some (JSON_stringify processing_json)) = Inl still_processing"
proof -
  have wf: "wf_json processing_json" by (simp add: processing_json_def)
  show ?thesis
    using JSON_parse_stringify [OF wf] stringify_nonempty [OF wf]
    by (simp add: cached_answer_def str_text_def) (simp add: processing_json_def)
qed

lemma cached_answer_none [simp]: "cached_answer w None = Inr None"
  by (simp add: cached_answer_def)

subsection \<open>A new payment, abstractly\<close>

text \<open>
  What the ranking may return for the statistics \<open>ST\<close>: the configured gateways, some of the
  tripped ones cooled down, in the order of \<open>ranking\<close>.
\<close>

definition rankable :: "env \<Rightarrow> gateway_stats list \<Rightarrow> nat \<Rightarrow> GatewayProvider list \<Rightarrow> bool" where
  "rankable env ST amt gs \<longleftrightarrow> (\<exists>sts sts'.
     mset sts = mset (filter (\<lambda>st. env ''NODE_ENV'' = Some ''test'' \<or> isGatewayConfigured env (gateway st)) ST) \<and>
     list_all2 cooled sts sts' \<and> gs = ranking amt sts')"

lemma rankable_configured:
  assumes "rankable env ST amt gs" "g \<in> set gs"
  shows "g \<in> gateway ` set ST" "env ''NODE_ENV'' = Some ''test'' \<or> isGatewayConfigured env g"
proof -
  from assms obtain sts sts' where
    m: "mset sts = mset (filter (\<lambda>st. env ''NODE_ENV'' = Some ''test'' \<or> isGatewayConfigured env (gateway st)) ST)"
    and c: "list_all2 cooled sts sts'" and gs: "gs = ranking amt sts'"
    by (auto simp: rankable_def)
  have "g \<in> set (map gateway sts')" using set_ranking [of amt sts'] assms(2) gs by auto
  then have "g \<in> set (map gateway sts)" by (simp only: map_gateway_cooled [OF c])
  moreover from m have "set sts = set (filter (\<lambda>st. env ''NODE_ENV'' = Some ''test'' \<or> isGatewayConfigured env (gateway st)) ST)"
    by (rule mset_eq_setD)
  ultimately show "g \<in> gateway ` set ST" "env ''NODE_ENV'' = Some ''test'' \<or> isGatewayConfigured env g" by auto
qed

lemma rankable_distinct:
  assumes "rankable env ST amt gs" "distinct (map gateway ST)"
  shows "distinct gs"
proof -
  from assms obtain sts sts' where
    m: "mset sts = mset (filter (\<lambda>st. env ''NODE_ENV'' = Some ''test'' \<or> isGatewayConfigured env (gateway st)) ST)"
    and c: "list_all2 cooled sts sts'" and gs: "gs = ranking amt sts'"
    by (auto simp: rankable_def)
  have "mset (map gateway sts) = mset (map gateway (filter (\<lambda>st. env ''NODE_ENV'' = Some ''test'' \<or> isGatewayConfigured env (gateway st)) ST))"
    using m by simp
  moreover have "distinct (map gateway (filter (\<lambda>st. env ''NODE_ENV'' = Some ''test'' \<or> isGatewayConfigured env (gateway st)) ST))"
    using assms(2) by (rule distinct_map_filter)
  ultimately have "distinct (map gateway sts)" by (metis mset_eq_imp_distinct_iff)
  then have "distinct (map gateway sts')" by (simp only: map_gateway_cooled [OF c])
  then show ?thesis by (simp add: gs distinct_ranking)
qed

text \<open>The row of a new payment, as \<open>INSERT\<close> returns it.\<close>

definition new_row :: "string \<Rightarrow> create_dto \<Rightarrow> GatewayProvider list \<Rightarrow> transaction \<Rightarrow> bool" where
  "new_row key dto gs t \<longleftrightarrow> (\<exists>i c u. t = txn_row (new_payment key dto (hd gs) (tl gs)) i c u)"

lemma new_row_fields:
  assumes "new_row key dto gs t"
  shows "idempotencyKey t = key" "merchantId t = dto_merchantId dto" "amount t = dto_amount dto"
    "currency t = dto_currency dto" "currentState t = INITIATED" "selectedGateway t = Some (hd gs)"
    "fallbackGateways t = tl gs" "gatewayTxnId t = JNull" "attemptCount t = 0" "finalReconciledAt t = None"
  using assms by (auto simp: new_row_def txn_row_def new_payment_def)

text \<open>The whole payment: a fresh row, its creation entry, and the loop over \<open>gs\<close>.\<close>

definition paid ::
  "('d \<Rightarrow> tables) \<Rightarrow> ('r \<Rightarrow> entries) \<Rightarrow> world \<Rightarrow> string \<Rightarrow> create_dto \<Rightarrow> GatewayProvider list \<Rightarrow>
   (string \<rightharpoonup> transaction) \<Rightarrow> (string \<Rightarrow> new_audit list) \<Rightarrow> (GatewayProvider \<times> charge_request) list \<Rightarrow>
   create_result \<Rightarrow> ('d, 'r) node \<Rightarrow> bool" where
  "paid tabs kv w key dto gs R L cs x s \<longleftrightarrow>
     (\<exists>t0. new_row key dto gs t0 \<and> R (txnId t0) = None \<and> L (txnId t0) = [] \<and>
        (let i = txnId t0; resp = answers w key dto i
         in ended tabs kv key i (settled resp gs t0) R
              (L(i := creation_audit t0 (hd gs) # expected_trail resp i INITIATED gs))
              (cs @ sent key dto i (tried resp gs)) x s))"

text \<open>A payment that failed may have sent some of its charges, never one after an acceptance.\<close>

definition partly_charged ::
  "world \<Rightarrow> string \<Rightarrow> create_dto \<Rightarrow> (GatewayProvider \<times> charge_request) list \<Rightarrow> (GatewayProvider \<times> charge_request) list \<Rightarrow> bool" where
  "partly_charged w key dto cs cs' \<longleftrightarrow>
     (\<exists>gs i n. cs' = cs @ sent key dto i (take n (tried (answers w key dto i) gs)))"

subsection \<open>A key that has its payment\<close>

context backend
begin

lemma answer_existing_run:
  assumes "answer_existing C key t s = (r, s')"
  shows "r = Inr (Entity t) \<and> db s' = db s \<and> charges s' = charges s \<and>
    cached_text kv key s' = Some (JSON_stringify (completed_json t))"
proof -
  obtain b c where run: "redis_set C (redis_key key) (JSON_stringify (completed_json t)) None (Some EX_seconds) (Some 86400) (redis s) = (Inr b, c)"
    using service.kset_returns by blast
  then have "remember C key t s = (Inr b, s\<lparr>redis := c\<rparr>)"
    by (simp add: remember_def on_redis_def)
  with assms service.kset_stores [OF run] show ?thesis
    by (auto simp: answer_existing_def andThen_Inr cached_text_def)
qed

lemma create_with_lock_existing:
  assumes "create_with_lock w D C key dto s = (r, s')" "txn_by_key (tabs (db s)) key = Some t"
  shows "tabs (db s') = tabs (db s) \<and> charges s' = charges s \<and>
    (r = Inr (Entity t) \<or> (\<exists>e. r = Inl e \<and> db_failure e))"
proof -
  obtain x s1 where f: "on_db (findTxnByKey D key) s = (x, s1)" by fastforce
  show ?thesis
  proof (cases x)
    case (Inl e)
    with f assms(1) find_by_key_run [OF f] show ?thesis
      by (auto simp: create_with_lock_def andThen_Inl)
  next
    case (Inr found)
    with find_by_key_run [OF f] assms(2) have s1: "found = Some t" "tabs (db s1) = tabs (db s)" "charges s1 = charges s"
      by auto
    with assms(1) f Inr have "answer_existing C key t s1 = (r, s')"
      by (simp add: create_with_lock_def andThen_Inr)
    from answer_existing_run [OF this] s1 show ?thesis by simp
  qed
qed

text \<open>The key is locked by another request or completed: whatever the answer, nothing changes.\<close>

lemma create_without_lock_run:
  assumes "create_without_lock w D C key s = (r, s')"
  shows "tabs (db s') = tabs (db s) \<and> charges s' = charges s \<and>
    (case r of
       Inl e \<Rightarrow> True
     | Inr (Entity t) \<Rightarrow> txn_by_key (tabs (db s)) key = Some t
     | Inr (Cached j) \<Rightarrow> \<exists>cached. cached_answer w cached = Inr (Some (Cached j)) \<and>
         redis_get C (redis_key key) (redis s) = (Inr cached, redis s'))"
proof -
  obtain cached s1 where g: "on_redis (redis_get C (redis_key key)) s = (Inr cached, s1)"
    using service.kget_returns [of "redis_key key" "redis s"] by (auto simp: on_redis_def)
  then have s1: "db s1 = db s" "charges s1 = charges s" "redis_get C (redis_key key) (redis s) = (Inr cached, redis s1)"
    by (simp_all add: on_redis_eq)
  show ?thesis
  proof (cases "cached_answer w cached")
    case (Inl e)
    with assms g s1 show ?thesis by (auto simp: create_without_lock_def andThen_Inr andThen_Inl)
  next
    case (Inr answer)
    show ?thesis
    proof (cases answer)
      case (Some x)
      with assms g Inr have "r = Inr x" "s' = s1" by (simp_all add: create_without_lock_def andThen_Inr)
      moreover from Inr Some obtain j where "x = Cached j"
        by (auto simp: cached_answer_def split: if_splits option.splits sum.splits)
      ultimately show ?thesis using s1 Inr Some by auto
    next
      case None
      obtain y s2 where f: "on_db (findTxnByKey D key) s1 = (y, s2)" by fastforce
      from find_by_key_run [OF f] s1 have s2: "tabs (db s2) = tabs (db s)" "charges s2 = charges s"
        "\<And>z. y = Inr z \<Longrightarrow> z = txn_by_key (tabs (db s)) key" by (auto split: sum.splits)
      have rest: "(case y of Inl e \<Rightarrow> (Inl e, s2) | Inr z \<Rightarrow> (case z of Some t \<Rightarrow> answer_existing C key t
          | None \<Rightarrow> throw (ConflictException ''Payment request is already processing.'')) s2) = (r, s')"
        using assms g Inr None f by (simp add: create_without_lock_def andThen_Inr) (simp add: andThen_def split: sum.splits)
      show ?thesis
        using rest s2 by (auto split: sum.splits option.splits dest: answer_existing_run)
    qed
  qed
qed

text \<open>The two branches of \<open>create\<close>: the lock is taken, or it is ours.\<close>

lemma create_cases:
  assumes "create w D C key dto s = (r, s')"
  obtains (busy) s1 where
    "redis_set C (redis_key key) (JSON_stringify processing_json) (Some NX) (Some EX_seconds) (Some 10) (redis s) = (Inr False, redis s1)"
    "db s1 = db s" "charges s1 = charges s" "create_without_lock w D C key s1 = (r, s')"
    "isMockMode (redis s1) \<longrightarrow> isMockMode (redis s')"
  | (ours) s1 r2 s2 where
    "redis_set C (redis_key key) (JSON_stringify processing_json) (Some NX) (Some EX_seconds) (Some 10) (redis s) = (Inr True, redis s1)"
    "db s1 = db s" "charges s1 = charges s" "create_with_lock w D C key dto s1 = (r2, s2)"
    "r = r2" "db s' = db s2" "charges s' = charges s2"
    "case r2 of Inl e \<Rightarrow> cached_text kv key s' = None | Inr x \<Rightarrow> s' = s2"
    "isMockMode (redis s1) \<longrightarrow> isMockMode (redis s')"
proof -
  obtain b c where set: "redis_set C (redis_key key) (JSON_stringify processing_json) (Some NX) (Some EX_seconds) (Some 10) (redis s) = (Inr b, c)"
    using service.kset_returns by blast
  define s1 where "s1 = s\<lparr>redis := c\<rparr>"
  have run: "on_redis (redis_set C (redis_key key) (JSON_stringify processing_json) (Some NX) (Some EX_seconds) (Some 10)) s = (Inr b, s1)"
    using set by (simp add: on_redis_def s1_def)
  have s1: "redis s1 = c" "db s1 = db s" "charges s1 = charges s" by (simp_all add: s1_def)
  show thesis
  proof (cases b)
    case False
    with assms run have "create_without_lock w D C key s1 = (r, s')" by (simp add: create_def andThen_Inr)
    with set s1 False keepsD [OF mock_mode.keeps_create_without_lock _ this] show thesis
      by (intro busy [of s1]) simp_all
  next
    case True
    obtain r2 s2 where body: "create_with_lock w D C key dto s1 = (r2, s2)" by fastforce
    from assms run True have c: "catching (create_with_lock w D C key dto) (\<lambda>e.
        andThen (on_redis (redis_del C (redis_key key))) (\<lambda>_. throw e)) s1 = (r, s')"
      by (simp add: create_def andThen_Inr)
    obtain n c2 where del: "redis_del C (redis_key key) (redis s2) = (Inr n, c2)"
      using service.kdel_returns by blast
    have "r = r2" "db s' = db s2" "charges s' = charges s2"
      "case r2 of Inl e \<Rightarrow> cached_text kv key s' = None | Inr x \<Rightarrow> s' = s2"
      using c body del service.kdel_removes [OF del]
      by (cases r2; auto simp: catching_def andThen_def on_redis_def cached_text_def)+
    moreover have "isMockMode (redis s1) \<longrightarrow> isMockMode (redis s')"
      using keepsD [OF keeps_catching [OF mock_mode.keeps_create_with_lock keeps_andThen [OF mock_mode.keeps_on_redis(3) keeps_throw]] _ c]
      by blast
    ultimately show thesis using set s1 True body by (intro ours [of s1 r2 s2]) simp_all
  qed
qed

lemma create_replay:
  assumes "create w D C key dto s = (r, s')" "txn_by_key (tabs (db s)) key = Some t"
  shows "tabs (db s') = tabs (db s) \<and> charges s' = charges s \<and> (\<forall>t'. r = Inr (Entity t') \<longrightarrow> t' = t)"
  using assms(1)
proof (cases rule: create_cases)
  case (busy s1)
  with create_without_lock_run [OF busy(4)] assms(2) show ?thesis by auto
next
  case (ours s1 r2 s2)
  with create_with_lock_existing [OF ours(4), of t] assms(2) show ?thesis by auto
qed

text \<open>A completed payment is answered with the body of its first answer.\<close>

lemma create_replay_body:
  assumes run: "create w D C key dto s = (Inr x, s')"
    and t: "txn_by_key (tabs (db s)) key = Some t" "wf_json (gatewayTxnId t)"
    and cached: "cached_text kv key s = Some (JSON_stringify (completed_json t))"
    and mock: "quiet (redis_key key) (redis s)"
  shows "response_body x = Some (txn_json t)"
  using run
proof (cases rule: create_cases)
  case (busy s1)
  from redis_set_refused [OF busy(1) mock] cached
  have c1: "quiet (redis_key key) (redis s1)"
    "cached_text kv key s1 = Some (JSON_stringify (completed_json t))"
    by (simp_all add: cached_text_def)
  show ?thesis
  proof (cases x)
    case (Entity t')
    with create_without_lock_run [OF busy(4)] busy(2) t(1) show ?thesis by simp
  next
    case (Cached j)
    with create_without_lock_run [OF busy(4)] obtain text' where
      a: "cached_answer w text' = Inr (Some (Cached j))" and g: "redis_get C (redis_key key) (redis s1) = (Inr text', redis s')"
      by auto
    from redis_get_text [OF g c1(1)] c1(2) a have "text' = Some (JSON_stringify (completed_json t))"
      by (auto simp: cached_text_def)
    with a cached_answer_completed [OF t(2)] Cached show ?thesis by auto
  qed
next
  case (ours s1 r2 s2)
  with create_with_lock_existing [OF ours(4), of t] t(1) show ?thesis by auto
qed

text \<open>While the first request holds the lock, a second one is a conflict.\<close>

lemma create_conflict:
  assumes run: "create w D C key dto s = (r, s')"
    and cached: "cached_text kv key s = Some (JSON_stringify processing_json)"
    and steady: "isMockMode (redis s') = isMockMode (redis s)"
  shows "r = Inl still_processing \<and> tabs (db s') = tabs (db s) \<and> charges s' = charges s \<and>
    cached_text kv key s' = cached_text kv key s"
proof -
  have set_mode: "isMockMode (redis s) \<Longrightarrow> isMockMode c"
    if "redis_set C (redis_key key) v md dm n (redis s) = (b, c)" for v md dm n b c
    using keepsD [OF mock_mode.keeps_set _ that] by blast
  from run show ?thesis
  proof (cases rule: create_cases)
    case (busy s1)
    then have mode: "isMockMode (redis s1) = isMockMode (redis s)" using set_mode steady by blast
    with redis_set_steady [OF busy(1)] have view: "redis_view kv (redis s1) = redis_view kv (redis s)"
      by (auto simp: set_effect_def split: if_splits)
    obtain x s2 where g: "on_redis (redis_get C (redis_key key)) s1 = (Inr x, s2)"
      using service.kget_returns [of "redis_key key" "redis s1"] by (auto simp: on_redis_def)
    then have g': "redis_get C (redis_key key) (redis s1) = (Inr x, redis s2)" and s2: "db s2 = db s1" "charges s2 = charges s1"
      by (simp_all add: on_redis_eq)
    define rest where "rest = (\<lambda>answer :: create_result option. case answer of
       Some r \<Rightarrow> ret r
     | None \<Rightarrow>
         andThen (on_db (findTxnByKey D key)) (\<lambda>existing. case existing of
           Some t \<Rightarrow> answer_existing C key t
         | None \<Rightarrow> throw (ConflictException ''Payment request is already processing.'')))"
    from busy(4) g have body: "andThen (from_result (cached_answer w x)) rest s2 = (r, s')"
      by (simp add: create_without_lock_def rest_def andThen_Inr)
    have "keeps (\<lambda>s. isMockMode (redis s)) (andThen (from_result (cached_answer w x)) rest)"
      unfolding rest_def answer_existing_def remember_def by (intro keeping)
    from keepsD [OF this _ body] have "isMockMode (redis s2) \<longrightarrow> isMockMode (redis s')" by blast
    with mode steady keepsD [OF mock_mode.keeps_get _ g'] have m2: "isMockMode (redis s2) = isMockMode (redis s1)"
      by blast
    have "wf_json processing_json" by (simp add: processing_json_def)
    from redis_get_present [OF g' m2 _ stringify_nonempty [OF this]] cached view
    have "x = Some (JSON_stringify processing_json)" by (auto simp: cached_text_def)
    with body have "r = Inl still_processing" "s' = s2"
      by (simp_all add: cached_answer_processing andThen_Inl)
    with redis_get_steady [OF g' m2] view s2 busy(2,3) show ?thesis by (simp add: cached_text_def)
  next
    case (ours s1 r2 s2)
    then have mode: "isMockMode (redis s1) = isMockMode (redis s)" using set_mode steady by blast
    with redis_set_steady [OF ours(1)] cached show ?thesis
      by (auto simp: set_effect_def cached_text_def split: if_splits)
  qed
qed

subsection \<open>A key without a payment\<close>

lemma at_insertTxn:
  "hoare (snapshot tabs R L cs) (on_db (insertTxn D n))
    (\<lambda>t s. ((\<exists>i c u. t = txn_row n i c u) \<and> R (txnId t) = None \<and> L (txnId t) = []) \<and> snapshot tabs (R(txnId t \<mapsto> t)) L cs s)
    (\<lambda>e s. db_failure e \<and> snapshot tabs R L cs s)"
proof (rule hoareI)
  fix s t and s' :: "('d, 'b) node"
  assume a: "snapshot tabs R L cs s" and "on_db (insertTxn D n) s = (Inr t, s')"
  then have ins: "insertTxn D n (db s) = (Inr t, db s')" and ch: "charges s' = charges s" by (simp_all add: on_db_eq)
  from implementsD [OF insertTxn ins] have new: "txn_by_id (tabs (db s)) (txnId t) = None" "trail (tabs (db s)) (txnId t) = []"
      "\<exists>i c u. t = txn_row n i c u"
    and T': "tabs (db s') = tabs (db s)\<lparr>transactions := transactions (tabs (db s)) @ [t]\<rparr>" by auto
  have "rows (tabs (db s')) = (rows (tabs (db s)))(txnId t \<mapsto> t)"
    using new(1) by (auto simp: rows_def T' txn_by_id_def find_append fun_eq_iff split: option.splits)
  moreover have "logs (tabs (db s')) = logs (tabs (db s))"
    by (simp add: logs_def T' trail_def fun_eq_iff)
  moreover have "R (txnId t) = None" "L (txnId t) = []"
    using a new(1,2) by (auto simp: snapshot_def rows_def logs_def)
  ultimately show "((\<exists>i c u. t = txn_row n i c u) \<and> R (txnId t) = None \<and> L (txnId t) = []) \<and>
      snapshot tabs (R(txnId t \<mapsto> t)) L cs s'"
    using a ch new(3) by (simp add: snapshot_def)
next
  fix s e and s' :: "('d, 'b) node"
  assume "snapshot tabs R L cs s" "on_db (insertTxn D n) s = (Inl e, s')"
  then show "db_failure e \<and> snapshot tabs R L cs s'"
    using implements_failD [OF insertTxn, of n "db s" e "db s'"] by (auto simp: on_db_eq snapshot_def)
qed

lemma at_insertAudit:
  "hoare (snapshot tabs R L cs) (on_db (insertAudit D n))
    (\<lambda>x. snapshot tabs R (L(new_transactionId n := L (new_transactionId n) @ [n])) cs)
    (\<lambda>e s. db_failure e \<and> snapshot tabs R L cs s)"
proof (rule hoareI)
  fix s x and s' :: "('d, 'b) node"
  assume a: "snapshot tabs R L cs s" and "on_db (insertAudit D n) s = (Inr x, s')"
  then have ins: "insertAudit D n (db s) = (Inr x, db s')" and ch: "charges s' = charges s" by (simp_all add: on_db_eq)
  from implementsD [OF insertAudit ins] obtain i c where x: "x = audit_row n i c"
    and T': "tabs (db s') = tabs (db s)\<lparr>audit := audit (tabs (db s)) @ [x]\<rparr>" by auto
  have xi: "transactionId x = new_transactionId n" by (simp add: x audit_row_def)
  have "rows (tabs (db s')) = rows (tabs (db s))" by (simp add: rows_def T' txn_by_id_def fun_eq_iff)
  moreover have "logs (tabs (db s')) = (logs (tabs (db s)))(new_transactionId n := logs (tabs (db s)) (new_transactionId n) @ [n])"
    using xi by (auto simp: logs_def T' fun_eq_iff) (simp_all add: x)
  ultimately show "snapshot tabs R (L(new_transactionId n := L (new_transactionId n) @ [n])) cs s'"
    using a ch by (simp add: snapshot_def)
next
  fix s e and s' :: "('d, 'b) node"
  assume "snapshot tabs R L cs s" "on_db (insertAudit D n) s = (Inl e, s')"
  then show "db_failure e \<and> snapshot tabs R L cs s'"
    using implements_failD [OF insertAudit, of n "db s" e "db s'"] by (auto simp: on_db_eq snapshot_def)
qed

text \<open>The row, its creation entry, and the loop.\<close>

lemma creation_triple:
  assumes gs: "gs = g # fs"
  shows "hoare (snapshot tabs R L cs)
    (andThen (on_db (insertTxn D (new_payment key dto g fs))) (\<lambda>saved.
     andThen (on_db (insertAudit D (creation_audit saved g))) (\<lambda>_. execute w D C key dto (txnId saved) e gs)))
    (paid tabs kv w key dto gs R L cs)
    (\<lambda>e s. db_failure e \<and> (\<exists>i n. charges s = cs @ sent key dto i (take n (tried (answers w key dto i) gs))))"
proof -
  define err :: "exn \<Rightarrow> ('d, 'r) node \<Rightarrow> bool" where
    "err = (\<lambda>e s. db_failure e \<and> (\<exists>i n. charges s = cs @ sent key dto i (take n (tried (answers w key dto i) gs))))"
  have e0: "err e s" if "db_failure e \<and> snapshot tabs R' L' cs s" for e s R' L'
    using that by (auto simp: err_def snapshot_def sent_def intro!: exI [of _ 0])
  show ?thesis
    unfolding err_def [symmetric]
  proof (rule hoare_step [OF at_insertTxn], erule e0, rule hoare_assume)
    fix t
    assume new: "(\<exists>i c u. t = txn_row (new_payment key dto g fs) i c u) \<and> R (txnId t) = None \<and> L (txnId t) = []"
    then have row: "new_row key dto gs t" by (simp add: new_row_def gs)
    have ci: "new_transactionId (creation_audit t g) = txnId t" by (simp add: creation_audit_def)
    let ?resp = "answers w key dto (txnId t)" and ?L = "L(txnId t := L (txnId t) @ [creation_audit t g])"
    have "hoare (snapshot tabs (R(txnId t \<mapsto> t)) ?L cs) (execute w D C key dto (txnId t) e gs)
      (ended tabs kv key (txnId t) (settled ?resp gs t) (R(txnId t \<mapsto> t))
         (?L(txnId t := ?L (txnId t) @ expected_trail ?resp (txnId t) (currentState t) gs))
         (cs @ sent key dto (txnId t) (tried ?resp gs)))
      (\<lambda>e s. db_failure e \<and> (\<exists>n. charges s = cs @ sent key dto (txnId t) (take n (tried ?resp gs))))"
      by (rule execute_triple) (simp_all add: new_row_fields [OF row] gs)
    then have "hoare (snapshot tabs (R(txnId t \<mapsto> t)) ?L cs) (execute w D C key dto (txnId t) e gs)
      (paid tabs kv w key dto gs R L cs) err"
    proof (rule hoare_conseq)
      have hd: "hd gs = g" by (simp add: gs)
      show "paid tabs kv w key dto gs R L cs x s"
        if "ended tabs kv key (txnId t) (settled ?resp gs t) (R(txnId t \<mapsto> t))
           (?L(txnId t := ?L (txnId t) @ expected_trail ?resp (txnId t) (currentState t) gs))
           (cs @ sent key dto (txnId t) (tried ?resp gs)) x s" for x s
        using that new row unfolding paid_def Let_def hd
        by (intro exI [of _ t]) (simp add: ended_def new_row_fields [OF row])
    qed (auto simp: err_def)
    then show "hoare (snapshot tabs (R(txnId t \<mapsto> t)) L cs)
      (andThen (on_db (insertAudit D (creation_audit t g))) (\<lambda>_. execute w D C key dto (txnId t) e gs))
      (paid tabs kv w key dto gs R L cs) err"
      by (intro hoare_step [OF at_insertAudit]) (erule e0, simp only: ci)
  qed
qed

lemma create_with_lock_new:
  assumes run: "create_with_lock w D C key dto s = (r, s')" and key: "txn_by_key (tabs (db s)) key = None"
  shows "case r of
      Inl e \<Rightarrow> (db_failure e \<or> e = no_gateways) \<and>
        partly_charged w key dto (charges s) (charges s')
    | Inr x \<Rightarrow> \<exists>gs. rankable (getenv w) (stats (tabs (db s))) (dto_amount dto) gs \<and> gs \<noteq> [] \<and>
        paid tabs kv w key dto gs (rows (tabs (db s))) (logs (tabs (db s))) (charges s) x s'"
proof -
  have none: "partly_charged w key dto (charges s) (charges s)"
    unfolding partly_charged_def by (rule exI [of _ "[]"], rule exI [of _ "[]"], rule exI [of _ 0]) (simp add: sent_def)
  obtain x1 s1 where f: "on_db (findTxnByKey D key) s = (x1, s1)" by fastforce
  note f1 = find_by_key_run [OF f]
  show ?thesis
  proof (cases x1)
    case (Inl e)
    with run f f1 none show ?thesis by (auto simp: create_with_lock_def andThen_Inl)
  next
    case (Inr y)
    obtain x2 s2 where g: "getRankedGateways (getenv w) D C (dto_amount dto) s1 = (x2, s2)" by fastforce
    note g1 = getRankedGateways_spec [OF g]
    have ch2: "charges s2 = charges s"
      using charges_unchanged [OF keeps_charges_getRankedGateways g] f1 by simp
    define k where "k = (\<lambda>rankedGateways. case rankedGateways of
         [] \<Rightarrow> throw no_gateways
       | g # fs \<Rightarrow> andThen (on_db (insertTxn D (new_payment key dto g fs))) (\<lambda>saved.
           andThen (on_db (insertAudit D (creation_audit saved g))) (\<lambda>_.
           execute w D C key dto (txnId saved) (Some (JStr ''No gateways available'')) (g # fs))))"
    have "andThen (getRankedGateways (getenv w) D C (dto_amount dto)) k s1 = (r, s')"
      using run f Inr f1 key by (simp add: create_with_lock_def andThen_Inr k_def del: execute.simps)
    with g have body: "(case x2 of Inl e \<Rightarrow> (Inl e, s2) | Inr gs \<Rightarrow> k gs s2) = (r, s')"
      by (simp add: andThen_def)
    show ?thesis
    proof (cases x2)
      case (Inl e)
      with body g1 ch2 none show ?thesis by auto
    next
      case (Inr gs)
      with g1 f1 obtain sts sts' where rank: "rankable (getenv w) (stats (tabs (db s))) (dto_amount dto) gs"
        and pay: "payments (tabs (db s2)) = payments (tabs (db s))"
        by (auto simp: rankable_def)
      have snap: "snapshot tabs (rows (tabs (db s))) (logs (tabs (db s))) (charges s) s2"
        by (rule at_payments [of tabs _ _ _ s]) (simp_all add: snapshot_def pay ch2)
      show ?thesis
      proof (cases gs)
        case Nil
        with body Inr ch2 none show ?thesis by (auto simp: k_def)
      next
        case (Cons g fs)
        with body Inr have main: "andThen (on_db (insertTxn D (new_payment key dto g fs))) (\<lambda>saved.
           andThen (on_db (insertAudit D (creation_audit saved g))) (\<lambda>_.
           execute w D C key dto (txnId saved) (Some (JStr ''No gateways available'')) gs)) s2 = (r, s')"
          by (simp add: k_def del: execute.simps)
        note triple = creation_triple [OF Cons, of "rows (tabs (db s))" "logs (tabs (db s))" "charges s" key dto w
            "Some (JStr ''No gateways available'')"]
        show ?thesis
        proof (cases r)
          case (Inl e)
          with hoare_InlD [OF triple snap] main show ?thesis by (auto simp: partly_charged_def)
        next
          case (Inr x)
          with hoare_InrD [OF triple snap] main rank Cons show ?thesis by auto
        qed
      qed
    qed
  qed
qed

text \<open>With a free key, \<open>create\<close> makes the payment or leaves the key free.\<close>

lemma create_new:
  assumes run: "create w D C key dto s = (r, s')" and key: "txn_by_key (tabs (db s)) key = None"
    and free: "cached_text kv key s = None" "mockStore (redis s) (redis_key key) = None"
  shows "case r of
      Inl e \<Rightarrow> (db_failure e \<or> e = no_gateways) \<and> cached_text kv key s' = None
    | Inr x \<Rightarrow> \<exists>gs. rankable (getenv w) (stats (tabs (db s))) (dto_amount dto) gs \<and> gs \<noteq> [] \<and>
        paid tabs kv w key dto gs (rows (tabs (db s))) (logs (tabs (db s))) (charges s) x s'"
  using run
proof (cases rule: create_cases)
  case (busy s1)
  with redis_set_free [OF busy(1)] free show ?thesis by (simp add: cached_text_def)
next
  case (ours s1 r2 s2)
  with create_with_lock_new [OF ours(4)] key show ?thesis by (cases r) auto
qed

end

subsection \<open>The request again\<close>

lemma settled_fields [simp]:
  "txnId (settled resp gs t) = txnId t" "idempotencyKey (settled resp gs t) = idempotencyKey t"
  by (simp_all add: settled_def)

lemma wf_settled:
  assumes "\<And>g. sound_response (resp g)" "wf_json (gatewayTxnId t)"
  shows "wf_json (gatewayTxnId (settled resp gs t))"
  using assms by (auto simp: settled_def sound_response_def split: option.split)

lemma txn_by_key_member:
  assumes "t \<in> set (transactions T)" "distinct (map idempotencyKey (transactions T))"
  shows "txn_by_key T (idempotencyKey t) = Some t"
proof (cases "txn_by_key T (idempotencyKey t)")
  case None
  with assms(1) show ?thesis by (auto simp: txn_by_key_def find_None_iff')
next
  case (Some r)
  then have "r \<in> set (transactions T)" "idempotencyKey r = idempotencyKey t"
    by (auto simp: txn_by_key_def dest: find_SomeD)
  with assms Some show ?thesis by (auto simp: distinct_map inj_on_def)
qed

lemma paid_row:
  assumes "paid tabs kv w key dto gs R L cs x s"
  obtains t where "x = Entity t" "txn_by_id (tabs (db s)) (txnId t) = Some t" "idempotencyKey t = key"
    "wf_json (gatewayTxnId t)" "cached_text kv key s = Some (JSON_stringify (completed_json t))"
proof -
  from assms obtain t0 t u L' cs' where new: "new_row key dto gs t0" and x: "x = Entity t"
    and t: "t = (settled (answers w key dto (txnId t0)) gs t0)\<lparr>updatedAt := u\<rparr>"
    and snap: "snapshot tabs (R(txnId t0 \<mapsto> t)) L' cs' s"
    and c: "cached_text kv key s = Some (JSON_stringify (completed_json t))"
    by (auto simp: paid_def ended_def Let_def)
  have "wf_json (gatewayTxnId (settled (answers w key dto (txnId t0)) gs t0))"
    by (rule wf_settled) (simp_all add: answers_def sound_attempt new_row_fields [OF new])
  moreover have "txn_by_id (tabs (db s)) (txnId t0) = Some t"
    using snap by (simp add: snapshot_def rows_def)
  ultimately show thesis
    using that [of t] x c t by (simp add: new_row_fields [OF new])
qed

context backend
begin

text \<open>A request repeated after its payment ended gets the same body and charges nothing.\<close>

lemma create_idempotent:
  assumes first: "create w D C key dto s = (Inr x, s1)" and second: "create w' D C key dto' s1 = (Inr y, s2)"
    and books: "books tabs s" and key: "txn_by_key (tabs (db s)) key = None"
    and free: "cached_text kv key s = None" "mockStore (redis s) (redis_key key) = None"
  shows "response_body y = response_body x \<and> tabs (db s2) = tabs (db s1) \<and> charges s2 = charges s1"
proof -
  from create_new [OF first key free] obtain gs R L cs where "paid tabs kv w key dto gs R L cs x s1" by auto
  then obtain t where t: "x = Entity t" "txn_by_id (tabs (db s1)) (txnId t) = Some t" "idempotencyKey t = key"
      "wf_json (gatewayTxnId t)" "cached_text kv key s1 = Some (JSON_stringify (completed_json t))"
    by (rule paid_row)
  have "books tabs s1" using keepsD [OF keeps_books_create books first] .
  then have by_key: "txn_by_key (tabs (db s1)) key = Some t"
    using txn_by_key_member [OF txn_by_id_in [OF t(2)]] t(3) by (auto simp: books_def well_kept_def)
  have "quiet (redis_key key) (redis s)" using free(2) by (simp add: quiet_def)
  then have "quiet (redis_key key) (redis s1)" using keepsD [OF mock_quiet.keeps_create _ first] by blast
  from create_replay_body [OF second by_key t(4,5) this] create_replay [OF second by_key] t(1)
  show ?thesis by simp
qed

text \<open>Which gateways a new payment charges.\<close>

lemma create_attempts:
  assumes run: "create w D C key dto s = (Inr x, s')" and key: "txn_by_key (tabs (db s)) key = None"
    and free: "cached_text kv key s = None" "mockStore (redis s) (redis_key key) = None"
    and d: "distinct (map gateway (stats (tabs (db s))))"
  shows "\<exists>gs i. charges s' = charges s @ sent key dto i gs \<and> gs \<noteq> [] \<and> distinct gs \<and> length gs \<le> 4 \<and>
    (\<forall>g \<in> set gs. getenv w ''NODE_ENV'' = Some ''test'' \<or> isGatewayConfigured (getenv w) g) \<and>
    (\<forall>g \<in> set (butlast gs). \<not> success (answers w key dto i g))"
proof -
  from create_new [OF run key free] obtain gs where
    gs: "rankable (getenv w) (stats (tabs (db s))) (dto_amount dto) gs" "gs \<noteq> []"
    and paid: "paid tabs kv w key dto gs (rows (tabs (db s))) (logs (tabs (db s))) (charges s) x s'" by auto
  from paid obtain i where ch: "charges s' = charges s @ sent key dto i (tried (answers w key dto i) gs)"
    by (auto simp: paid_def ended_def snapshot_def Let_def)
  let ?ts = "tried (answers w key dto i) gs"
  have p: "prefix ?ts gs" by (rule tried_prefix)
  then have "distinct ?ts" using rankable_distinct [OF gs(1) d] by (metis distinct_append prefix_def)
  then show ?thesis
    using ch gs distinct_gateways_length tried_failures rankable_configured(2) [OF gs(1)] set_mono_prefix [OF p]
    by (intro exI [of _ ?ts] exI [of _ i]) auto
qed

end

end
