(* ===== verification/Webhooks.thy ===== *)
theory Webhooks
  imports Adapters
begin

text \<open>
  \<open>src/webhooks/webhooks.controller.ts\<close>, \<open>webhooks.service.ts\<close> and
  \<open>reconciliation-queue.service.ts\<close>: the endpoints with their signature checks, the ingestion
  that stores an event once, and the queue the worker reads.
\<close>

subsection \<open>Hexadecimal text\<close>

text \<open>
  \<open>Buffer.from(s, 'hex')\<close>: pairs of digits up to the first pair that is not two digits; the
  rest of the text is dropped.
\<close>

fun hex_nibble :: "char \<Rightarrow> nat option" where
  "hex_nibble c =
     (let n = of_char c in
      if 48 \<le> n \<and> n \<le> 57 then Some (n - 48)
      else if 97 \<le> n \<and> n \<le> 102 then Some (n - 87)
      else if 65 \<le> n \<and> n \<le> 70 then Some (n - 55) else None)"

fun from_hex :: "string \<Rightarrow> nat list" where
  "from_hex (a # b # s) =
     (case (hex_nibble a, hex_nibble b) of
        (Some x, Some y) \<Rightarrow> (16 * x + y) # from_hex s
      | _ \<Rightarrow> [])"
| "from_hex s = []"

text \<open>\<open>digest('hex')\<close> of a byte string.\<close>

definition to_hex :: "nat list \<Rightarrow> string" where
  "to_hex bs = concat (map (\<lambda>b. [hex_digit (b div 16), hex_digit (b mod 16)]) bs)"

text \<open>\<open>s.split(c)\<close>.\<close>

fun split_on :: "char \<Rightarrow> string \<Rightarrow> string list" where
  "split_on c [] = [[]]"
| "split_on c (x # xs) =
     (if x = c then [] # split_on c xs
      else (case split_on c xs of [] \<Rightarrow> [[x]] | p # ps \<Rightarrow> (x # p) # ps))"

subsection \<open>Signatures\<close>

text \<open>\<open>timingSafeEqual\<close> after the comparison of the lengths is equality of the bytes.\<close>

definition verifyRazorpaySignature :: "world \<Rightarrow> string \<Rightarrow> string \<Rightarrow> string \<Rightarrow> bool" where
  "verifyRazorpaySignature w rawBody signature secret =
     (let expectedSig = hmac_sha256_hex w secret rawBody;
          sigBuf = from_hex signature; expectedSigBuf = from_hex expectedSig
      in if length sigBuf \<noteq> length expectedSigBuf then False else sigBuf = expectedSigBuf)"

definition verifyStripeSignature :: "world \<Rightarrow> string \<Rightarrow> string \<Rightarrow> string \<Rightarrow> bool" where
  "verifyStripeSignature w rawBody signature secret =
     (let parts = split_on (CHR '','') signature in
      case (find (\<lambda>p. starts_with p ''t='') parts, find (\<lambda>p. starts_with p ''v1='') parts) of
        (Some timestampPart, Some signaturePart) \<Rightarrow>
          (let timestamp = split_on (CHR ''='') timestampPart ! 1;
               stripeSig = split_on (CHR ''='') signaturePart ! 1;
               signedPayload = timestamp @ ''.'' @ rawBody;
               expectedSig = hmac_sha256_hex w secret signedPayload;
               stripeSigBuf = from_hex stripeSig; expectedSigBuf = from_hex expectedSig
           in if length stripeSigBuf \<noteq> length expectedSigBuf then False else stripeSigBuf = expectedSigBuf)
      | _ \<Rightarrow> False)"

text \<open>\<open>body.k || ''\<close>, as a template literal prints it.\<close>

definition payu_field :: "string \<Rightarrow> json \<Rightarrow> string" where
  "payu_field k content = js_string (js_or (opt_prop k (Some content)) (Some (JStr '''')))"

definition payu_hash_string :: "json \<Rightarrow> string \<Rightarrow> string" where
  "payu_hash_string content salt =
     (let hashString = salt @ ''|'' @ payu_field ''status'' content @ ''|'' @ payu_field ''udf5'' content @ ''|'' @
            payu_field ''udf4'' content @ ''|'' @ payu_field ''udf3'' content @ ''|'' @ payu_field ''udf2'' content @ ''|'' @
            payu_field ''udf1'' content @ ''|'' @ payu_field ''email'' content @ ''|'' @ payu_field ''firstname'' content @ ''|'' @
            payu_field ''productinfo'' content @ ''|'' @ payu_field ''amount'' content @ ''|'' @ payu_field ''txnid'' content @ ''|'' @
            payu_field ''key'' content
      in if truthy (opt_prop ''additionalCharges'' (Some content))
         then payu_field ''additionalCharges'' content @ ''|'' @ hashString else hashString)"

text \<open>\<open>receivedHash.toLowerCase()\<close> throws on anything but a string, which counts as refused.\<close>

definition verifyPayUSignature :: "world \<Rightarrow> json \<Rightarrow> string \<Rightarrow> bool" where
  "verifyPayUSignature w content salt =
     (case js_or (opt_prop ''hash'' (Some content)) (Some (JStr '''')) of
        Some (JStr receivedHash) \<Rightarrow> to_lower (sha512_hex w (payu_hash_string content salt)) = to_lower receivedHash
      | _ \<Rightarrow> False)"

subsection \<open>The queue\<close>

definition queueName :: string where
  "queueName = ''payment_orchestrator:reconciliation_queue''"

definition pushEvent :: "'r redis_client \<Rightarrow> string \<Rightarrow> (('d, 'r) node, unit) io" where
  "pushEvent C recordId = andThen (on_redis (getClient_lpush C queueName recordId)) (\<lambda>_. ret ())"

subsection \<open>Ingestion\<close>

text \<open>
  The text a \<open>varchar\<close> column or a query parameter makes of a value: the driver sends strings
  as they are and everything else as text.
\<close>

fun column_text :: "json \<Rightarrow> string" where
  "column_text (JStr s) = s"
| "column_text (JNum t) = t"
| "column_text (JBool b) = (if b then ''true'' else ''false'')"
| "column_text j = JSON_stringify j"

record incoming_webhook =
  hook_gateway :: GatewayProvider
  hook_eventId :: string
  hook_eventType :: string
  hook_payload :: json
  hook_signatureVerified :: bool

definition isUniqueViolation :: "exn \<Rightarrow> bool" where
  "isUniqueViolation e = (case e of QueryFailedError code m \<Rightarrow> code = Some ''23505'' | _ \<Rightarrow> False)"

definition stored_event :: "incoming_webhook \<Rightarrow> new_event" where
  "stored_event ev =
     \<lparr>new_eventGateway = hook_gateway ev, new_eventId = hook_eventId ev, new_eventType = hook_eventType ev,
      new_payload = hook_payload ev, new_signatureVerified = hook_signatureVerified ev, new_processed = False\<rparr>"

text \<open>The answer \<open>{ duplicate, record? }\<close>.\<close>

definition ingest ::
  "'d orm \<Rightarrow> 'r redis_client \<Rightarrow> incoming_webhook \<Rightarrow> (('d, 'r) node, bool \<times> webhook_event option) io" where
  "ingest D C ev = catching
     (andThen (on_db (insertEvent D (stored_event ev))) (\<lambda>record.
      andThen (pushEvent C (eventRecordId record)) (\<lambda>_. ret (False, Some record))))
     (\<lambda>e. if isUniqueViolation e then ret (True, None) else throw e)"

subsection \<open>The endpoints\<close>

text \<open>
  A request: the parsed body, the raw bytes the parser kept, and the signature header. The
  reply is \<open>{ received: false, error }\<close> or \<open>{ received: true, duplicate }\<close>.
\<close>

record webhook_request =
  req_body :: json
  req_rawBody :: "string option"
  req_signature :: "string option"

datatype webhook_reply = Rejected string | Received bool

definition signature_failed :: webhook_reply where
  "signature_failed = Rejected ''Signature verification failed''"

text \<open>The tail of the four handlers: ingest a verified event.\<close>

definition accept_webhook ::
  "'d orm \<Rightarrow> 'r redis_client \<Rightarrow> bool \<Rightarrow> incoming_webhook \<Rightarrow> (('d, 'r) node, webhook_reply) io" where
  "accept_webhook D C verified ev =
     (if \<not> verified then ret signature_failed
      else andThen (ingest D C ev) (\<lambda>result. ret (Received (fst result))))"

text \<open>\<open>body?.a ?? body?.b ?? 'unknown'\<close>.\<close>

definition body_text :: "string list \<Rightarrow> json \<Rightarrow> string" where
  "body_text ks content =
     (case foldr (\<lambda>k rest. js_coalesce (opt_prop k (Some content)) rest) ks (Some (JStr ''unknown'')) of
        None \<Rightarrow> ''unknown'' | Some j \<Rightarrow> column_text j)"

text \<open>\<open>signature \<and> req.rawBody\<close>: a header that is not empty and a body that was captured.\<close>

definition checked :: "(string \<Rightarrow> string \<Rightarrow> string \<Rightarrow> bool) \<Rightarrow> webhook_request \<Rightarrow> string option \<Rightarrow> bool" where
  "checked verify req secret =
     (case (req_signature req, req_rawBody req) of
        (Some signature, Some raw) \<Rightarrow> signature \<noteq> '''' \<and> verify raw signature (str_text secret)
      | _ \<Rightarrow> False)"

definition stripe_webhook ::
  "world \<Rightarrow> 'd orm \<Rightarrow> 'r redis_client \<Rightarrow> webhook_request \<Rightarrow> (('d, 'r) node, webhook_reply) io" where
  "stripe_webhook w D C req =
     (let secret = getenv w ''STRIPE_WEBHOOK_SECRET'';
          isPlaceholder = (\<not> str_truthy secret \<or> starts_with (str_text secret) ''whsec_xxx'');
          verified = (isPlaceholder \<or> checked (verifyStripeSignature w) req secret)
      in accept_webhook D C verified
           \<lparr>hook_gateway = STRIPE, hook_eventId = body_text [''id''] (req_body req),
            hook_eventType = body_text [''type''] (req_body req), hook_payload = req_body req,
            hook_signatureVerified = verified\<rparr>)"

definition razorpay_placeholder :: "string option \<Rightarrow> bool" where
  "razorpay_placeholder secret \<longleftrightarrow>
     \<not> str_truthy secret \<or> starts_with (str_text secret) ''rzp_test_xxx'' \<or> secret = Some ''xxxxxxxxxxxx''"

definition razorpay_webhook ::
  "world \<Rightarrow> 'd orm \<Rightarrow> 'r redis_client \<Rightarrow> webhook_request \<Rightarrow> (('d, 'r) node, webhook_reply) io" where
  "razorpay_webhook w D C req =
     (let secret = getenv w ''RAZORPAY_KEY_SECRET'';
          verified = (razorpay_placeholder secret \<or> checked (verifyRazorpaySignature w) req secret)
      in accept_webhook D C verified
           \<lparr>hook_gateway = RAZORPAY, hook_eventId = body_text [''id'', ''event_id''] (req_body req),
            hook_eventType = body_text [''event''] (req_body req), hook_payload = req_body req,
            hook_signatureVerified = verified\<rparr>)"

definition payu_webhook ::
  "world \<Rightarrow> 'd orm \<Rightarrow> 'r redis_client \<Rightarrow> webhook_request \<Rightarrow> (('d, 'r) node, webhook_reply) io" where
  "payu_webhook w D C req =
     (let salt = getenv w ''PAYU_SALT''; content = req_body req;
          isPlaceholder = (\<not> str_truthy salt \<or> starts_with (str_text salt) ''payu_test_xxx'' \<or> salt = Some ''xxxxxxxxxxxx'');
          verified = (isPlaceholder \<or>
            truthy (opt_prop ''hash'' (Some content)) \<and> verifyPayUSignature w content (str_text salt))
      in accept_webhook D C verified
           \<lparr>hook_gateway = PAYU, hook_eventId = body_text [''mihpayid'', ''txnid''] content,
            hook_eventType = body_text [''status''] content, hook_payload = content,
            hook_signatureVerified = verified\<rparr>)"

definition upi_webhook ::
  "world \<Rightarrow> 'd orm \<Rightarrow> 'r redis_client \<Rightarrow> webhook_request \<Rightarrow> (('d, 'r) node, webhook_reply) io" where
  "upi_webhook w D C req =
     (let secret = getenv w ''RAZORPAY_KEY_SECRET'';
          verified = (razorpay_placeholder secret \<or> checked (verifyRazorpaySignature w) req secret)
      in accept_webhook D C verified
           \<lparr>hook_gateway = UPI, hook_eventId = body_text [''id'', ''event_id''] (req_body req),
            hook_eventType = body_text [''event''] (req_body req), hook_payload = req_body req,
            hook_signatureVerified = verified\<rparr>)"

subsection \<open>Hexadecimal round trip\<close>

lemma hex_nibble_digit: "d < 16 \<Longrightarrow> hex_nibble (hex_digit d) = Some d"
  by (auto simp: hex_digit_def Let_def of_char_of)

declare hex_nibble.simps [simp del]

lemma to_hex_Cons: "to_hex (b # bs) = hex_digit (b div 16) # hex_digit (b mod 16) # to_hex bs"
  by (simp add: to_hex_def)

text \<open>The bytes of a digest are read back, whatever follows them unless it goes on in digits.\<close>

lemma from_hex_append:
  assumes "list_all (\<lambda>b. b < 256) bs"
  shows "from_hex (to_hex bs @ s) = bs @ from_hex s"
  using assms
proof (induction bs)
  case (Cons b bs)
  then have "b div 16 < 16" "b mod 16 < 16" by auto
  with Cons show ?case by (simp add: to_hex_Cons hex_nibble_digit)
qed (simp add: to_hex_def)

lemma from_hex_to_hex: "list_all (\<lambda>b. b < 256) bs \<Longrightarrow> from_hex (to_hex bs) = bs"
  using from_hex_append [of bs "[]"] by simp

lemma hex_nibble_bound: "hex_nibble c = Some x \<Longrightarrow> x < 16"
  by (auto simp: hex_nibble.simps Let_def split: if_splits)

lemma from_hex_bytes: "list_all (\<lambda>b. b < 256) (from_hex s)"
proof (induction s rule: from_hex.induct)
  case (1 a b s)
  then show ?case by (fastforce split: option.split dest: hex_nibble_bound)
qed auto

subsection \<open>Splitting\<close>

lemma split_on_nonempty [simp]: "split_on c s \<noteq> []"
  by (induction s) (auto split: list.split)

lemma split_on_plain: "c \<notin> set s \<Longrightarrow> split_on c s = [s]"
  by (induction s) auto

lemma split_on_append: "c \<notin> set p \<Longrightarrow> split_on c (p @ c # s) = p # split_on c s"
  by (induction p) auto

text \<open>\<open>p.split('=')[1]\<close> is defined on the parts the method looks at.\<close>

lemma split_on_second: "c \<in> set s \<Longrightarrow> 2 \<le> length (split_on c s)"
proof (induction s)
  case (Cons x xs)
  then show ?case
    by (cases "split_on c xs") (auto simp: Suc_le_eq)
qed simp

lemma stripe_parts_defined:
  "starts_with p ''t='' \<or> starts_with p ''v1='' \<Longrightarrow> 1 < length (split_on (CHR ''='') p)"
  using split_on_second [of "CHR ''=''" p] by (auto simp: starts_with_def prefix_def)

subsection \<open>Signature checks\<close>

lemma verifyRazorpaySignature_iff:
  "verifyRazorpaySignature w raw sig secret \<longleftrightarrow> from_hex sig = from_hex (hmac_sha256_hex w secret raw)"
  by (auto simp: verifyRazorpaySignature_def Let_def)

text \<open>The header Stripe sends: a timestamp and the signature of it and the body.\<close>

definition stripe_header :: "string \<Rightarrow> string \<Rightarrow> string" where
  "stripe_header timestamp sig = ''t='' @ timestamp @ '',v1='' @ sig"

lemma to_hex_chars: "c \<in> set (to_hex bs) \<Longrightarrow> list_all (\<lambda>b. b < 256) bs \<Longrightarrow> hex_nibble c \<noteq> None"
  by (fastforce simp: to_hex_def list_all_iff hex_nibble_digit)

lemma not_hex: "hex_nibble (CHR '','') = None" "hex_nibble (CHR ''='') = None"
  by (simp_all add: hex_nibble.simps)

lemma verifyStripe_header:
  assumes "CHR '','' \<notin> set ts" "CHR ''='' \<notin> set ts" and "CHR '','' \<notin> set sig" "CHR ''='' \<notin> set sig"
  shows "verifyStripeSignature w raw (stripe_header ts sig) secret \<longleftrightarrow>
    from_hex sig = from_hex (hmac_sha256_hex w secret (ts @ ''.'' @ raw))"
proof -
  have "split_on (CHR '','') (stripe_header ts sig) = [''t='' @ ts, ''v1='' @ sig]"
    using split_on_append [of "CHR '',''" "''t='' @ ts" "''v1='' @ sig"] split_on_plain [of "CHR '',''" "''v1='' @ sig"] assms
    by (simp add: stripe_header_def)
  moreover have "split_on (CHR ''='') (''t='' @ ts) = [''t'', ts]"
    using split_on_append [of "CHR ''=''" "''t''" ts] split_on_plain [OF assms(2)] by simp
  moreover have "split_on (CHR ''='') (''v1='' @ sig) = [''v1'', sig]"
    using split_on_append [of "CHR ''=''" "''v1''" sig] split_on_plain [OF assms(4)] by simp
  ultimately show ?thesis
    by (auto simp: verifyStripeSignature_def starts_with_def Let_def)
qed

lemma verifyStripe_sound:
  assumes "verifyStripeSignature w raw header secret"
  shows "\<exists>ts sig. from_hex sig = from_hex (hmac_sha256_hex w secret (ts @ ''.'' @ raw)) \<and>
    (\<exists>p \<in> set (split_on (CHR '','') header). starts_with p ''v1='' \<and> sig = split_on (CHR ''='') p ! 1) \<and>
    (\<exists>p \<in> set (split_on (CHR '','') header). starts_with p ''t='' \<and> ts = split_on (CHR ''='') p ! 1)"
  using assms by (fastforce simp: verifyStripeSignature_def Let_def split: option.splits if_splits dest: find_SomeD)

subsection \<open>The queue as a FIFO\<close>

text \<open>
  The interface of the queue: the ids waiting, oldest first. While the queue is durable (a
  Redis list) it is a FIFO; the stub of the mock mode holds one id, which a push replaces.
\<close>

locale event_queue =
  fixes waiting :: "'s \<Rightarrow> string list" and durable :: "'s \<Rightarrow> bool"
    and push :: "string \<Rightarrow> ('s, nat) io" and pop :: "('s, (string \<times> string) option) io"
  assumes push: "push x s = (Inr n, s') \<Longrightarrow> x \<noteq> '''' \<Longrightarrow>
      waiting s' = (if durable s then waiting s @ [x] else [x]) \<and> durable s' = durable s"
    and push_fail: "push x s = (Inl e, s') \<Longrightarrow> \<not> db_failure e \<and> durable s"
    and pop: "pop s = (Inr y, s') \<Longrightarrow> durable s' = durable s \<and>
      (case y of None \<Rightarrow> waiting s = [] \<and> waiting s' = []
       | Some (q, x) \<Rightarrow> waiting s = x # waiting s')"
begin

text \<open>What was pushed on a durable queue is popped in the same order.\<close>

lemma fifo:
  assumes "promise_all (map push xs) s = (Inr ns, s1)" "\<forall>x \<in> set xs. x \<noteq> ''''" "durable s"
  shows "waiting s1 = waiting s @ xs \<and> durable s1"
  using assms
proof (induction xs arbitrary: s ns)
  case (Cons x xs)
  from Cons.prems(1) obtain n s0 ns' where p: "push x s = (Inr n, s0)" and
    rest: "promise_all (map push xs) s0 = (Inr ns', s1)"
    by (auto simp: Let_def split: prod.splits sum.splits)
  from push [OF p] Cons.prems have "waiting s0 = waiting s @ [x]" "durable s0" by auto
  with Cons.IH [OF rest] Cons.prems(2) show ?case by simp
qed auto

lemma pops_in_order:
  assumes "promise_all (replicate k pop) s = (Inr ys, s1)" "k \<le> length (waiting s)"
  shows "map (map_option snd) ys = map Some (take k (waiting s)) \<and> waiting s1 = drop k (waiting s)"
  using assms
proof (induction k arbitrary: s ys)
  case (Suc k)
  from Suc.prems(1) obtain y s0 ys' where p: "pop s = (Inr y, s0)" and ys: "ys = y # ys'" and
    rest: "promise_all (replicate k pop) s0 = (Inr ys', s1)"
    by (auto simp: Let_def split: prod.splits sum.splits)
  from pop [OF p] Suc.prems(2) obtain q x where "y = Some (q, x)" "waiting s = x # waiting s0"
    by (auto split: option.splits)
  with Suc.IH [OF rest] Suc.prems(2) ys show ?case by simp
qed auto

end

text \<open>The ids waiting in the store in use: a list is pushed on the left and popped on the right.\<close>

definition waiting_in :: "('r \<Rightarrow> string \<Rightarrow> string list) \<Rightarrow> string \<Rightarrow> 'r redis_state \<Rightarrow> string list" where
  "waiting_in ls q s =
     (if isMockMode s then (case mockStore s q of None \<Rightarrow> [] | Some x \<Rightarrow> if x = '''' then [] else [x])
      else rev (ls (client s) q))"

context redis_server
begin

lemma getClient_lpush_law:
  assumes "getClient_lpush C q x s = (Inr n, s')" "x \<noteq> ''''"
  shows "waiting_in lists q s' = (if \<not> isMockMode s then waiting_in lists q s @ [x] else [x]) \<and>
    (\<not> isMockMode s') = (\<not> isMockMode s)"
  using assms by (auto simp: getClient_eqs mock_lpush_def on_client_def waiting_in_def
      dest: client_lpush split: prod.splits if_splits)

lemma getClient_lpush_fail:
  "getClient_lpush C q x s = (Inl e, s') \<Longrightarrow> \<not> db_failure e \<and> \<not> isMockMode s"
  by (auto simp: getClient_eqs mock_lpush_def on_client_def
      dest: client_lpush_fail split: prod.splits if_splits)

lemma getClient_brpop_law:
  assumes "getClient_brpop C q t s = (Inr y, s')"
  shows "(\<not> isMockMode s') = (\<not> isMockMode s) \<and>
    (case y of None \<Rightarrow> waiting_in lists q s = [] \<and> waiting_in lists q s' = []
     | Some (q', x) \<Rightarrow> waiting_in lists q s = x # waiting_in lists q s')"
proof (cases "isMockMode s")
  case True
  with assms show ?thesis
    by (auto simp: getClient_eqs mock_brpop_def waiting_in_def split: option.splits if_splits)
next
  case False
  with assms obtain c where run: "client_brpop C q t (client s) = (Inr y, c)" and s': "s' = s\<lparr>client := c\<rparr>"
    by (auto simp: getClient_eqs on_client_def split: prod.splits)
  from client_brpop [OF run] have y: "case y of None \<Rightarrow> lists (client s) q = [] \<and> lists c = lists (client s)
     | Some (q', item) \<Rightarrow> q' = q \<and> lists (client s) q \<noteq> [] \<and> item = last (lists (client s) q) \<and>
                           lists c = (lists (client s))(q := butlast (lists (client s) q))" by blast
  have "rev xs = last xs # rev (butlast xs)" if "xs \<noteq> []" for xs :: "string list"
    using append_butlast_last_id [OF that] by (metis rev_eq_Cons_iff rev_rev_ident)
  with y False s' show ?thesis
    by (auto simp: waiting_in_def split: option.splits)
qed

end

sublocale redis_server \<subseteq> queue: event_queue "waiting_in lists queueName" "\<lambda>s. \<not> isMockMode s"
  "getClient_lpush C queueName" "getClient_brpop C queueName 2"
  by unfold_locales (rule getClient_lpush_law getClient_lpush_fail getClient_brpop_law; assumption)+

subsection \<open>An event is stored once\<close>

text \<open>What the tables are after the insert of an event.\<close>

definition event_stored :: "incoming_webhook \<Rightarrow> tables \<Rightarrow> webhook_event \<Rightarrow> tables \<Rightarrow> bool" where
  "event_stored ev T e T' \<longleftrightarrow>
     \<not> event_key_used T (hook_gateway ev) (hook_eventId ev) \<and> event_by_id T (eventRecordId e) = None \<and>
     (\<exists>i c. e = event_row (stored_event ev) i c) \<and> T' = T\<lparr>events := events T @ [e]\<rparr>"

lemma event_stored_used:
  "event_stored ev T e T' \<Longrightarrow> event_key_used T' (hook_gateway ev) (hook_eventId ev)"
  by (auto simp: event_stored_def event_key_used_def event_row_def stored_event_def)

lemma event_stored_new: "event_stored ev T e T' \<Longrightarrow> \<not> event_key_used T (hook_gateway ev) (hook_eventId ev)"
  by (simp add: event_stored_def)

lemma unique_violation_db: "isUniqueViolation e \<Longrightarrow> db_failure e"
  by (auto simp: isUniqueViolation_def split: exn.splits)

context backend
begin

lemma insertEvent_run:
  assumes "on_db (insertEvent D (stored_event ev)) s = (r, s')"
  shows "redis s' = redis s \<and> charges s' = charges s \<and>
    (case r of
       Inl e \<Rightarrow> db_failure e \<and> tabs (db s') = tabs (db s) \<and>
         (isUniqueViolation e \<longrightarrow> event_key_used (tabs (db s)) (hook_gateway ev) (hook_eventId ev))
     | Inr e \<Rightarrow> event_stored ev (tabs (db s)) e (tabs (db s')))"
proof -
  from assms have run: "insertEvent D (stored_event ev) (db s) = (r, db s')" and s': "redis s' = redis s" "charges s' = charges s"
    by (simp_all add: on_db_eq)
  show ?thesis
  proof (cases r)
    case (Inl e)
    with run insertEvent_unique [of "stored_event ev" "db s" _ "db s'"] implements_failD [OF insertEvent]
    show ?thesis
      by (fastforce simp: s' isUniqueViolation_def stored_event_def split: exn.splits)
  next
    case (Inr e)
    with run implementsD [OF insertEvent, of "stored_event ev" "db s" e "db s'"] show ?thesis
      by (auto simp: s' event_stored_def stored_event_def)
  qed
qed

lemma pushEvent_run:
  assumes "pushEvent C x s = (r, s')" "x \<noteq> ''''"
  shows "db s' = db s \<and> charges s' = charges s \<and>
    (case r of
       Inl e \<Rightarrow> \<not> db_failure e \<and> \<not> isMockMode (redis s)
     | Inr _ \<Rightarrow> waiting_in lists queueName (redis s') =
         (if isMockMode (redis s) then [x] else waiting_in lists queueName (redis s) @ [x]))"
proof -
  obtain y c where run: "getClient_lpush C queueName x (redis s) = (y, c)" by fastforce
  with assms(1) have r: "r = (case y of Inl e \<Rightarrow> Inl e | Inr _ \<Rightarrow> Inr ())" "s' = s\<lparr>redis := c\<rparr>"
    by (auto simp: pushEvent_def on_redis_def andThen_def split: sum.splits)
  show ?thesis
  proof (cases y)
    case (Inl e)
    with r queue.push_fail run show ?thesis by auto
  next
    case (Inr n)
    with r queue.push [OF run [unfolded Inr] assms(2)] show ?thesis by simp
  qed
qed

text \<open>
  The four ways an ingestion ends: the event is known; it is stored and queued; the insert
  fails; or it is stored and the push fails, which leaves it out of the queue.
\<close>

lemma ingest_cases:
  assumes "ingest D C ev s = (r, s')"
  obtains (duplicate) "r = Inr (True, None)" "tabs (db s') = tabs (db s)" "redis s' = redis s"
      "event_key_used (tabs (db s)) (hook_gateway ev) (hook_eventId ev)" "charges s' = charges s"
  | (queued) e where "r = Inr (False, Some e)" "event_stored ev (tabs (db s)) e (tabs (db s'))" "charges s' = charges s"
      "eventRecordId e \<noteq> '''' \<Longrightarrow> waiting_in lists queueName (redis s') =
         (if isMockMode (redis s) then [eventRecordId e] else waiting_in lists queueName (redis s) @ [eventRecordId e])"
  | (refused) e where "r = Inl e" "db_failure e" "tabs (db s') = tabs (db s)" "redis s' = redis s" "charges s' = charges s"
  | (stranded) e x where "r = Inl x" "event_stored ev (tabs (db s)) e (tabs (db s'))" "charges s' = charges s"
proof -
  obtain y s1 where ins: "on_db (insertEvent D (stored_event ev)) s = (y, s1)" by fastforce
  note run1 = insertEvent_run [OF ins]
  show thesis
  proof (cases y)
    case (Inl e)
    with assms ins have "r = (if isUniqueViolation e then Inr (True, None) else Inl e)" "s' = s1"
      by (auto simp: ingest_def catching_def andThen_Inl split: if_splits)
    with run1 Inl duplicate refused show thesis by (cases "isUniqueViolation e") auto
  next
    case (Inr e)
    obtain z s2 where p: "pushEvent C (eventRecordId e) s1 = (z, s2)" by fastforce
    have same: "db s2 = db s1" "charges s2 = charges s1"
      using p by (auto simp: pushEvent_def on_redis_def andThen_def split: prod.splits sum.splits)
    have not_db: "\<not> db_failure x" if "z = Inl x" for x
      using p that queue.push_fail by (fastforce simp: pushEvent_def on_redis_def andThen_def split: prod.splits sum.splits)
    then have not_unique: "\<not> isUniqueViolation x" if "z = Inl x" for x
      using that unique_violation_db by blast
    have r: "r = (case z of Inl x \<Rightarrow> Inl x | Inr _ \<Rightarrow> Inr (False, Some e))" "s' = s2"
      using assms ins Inr p not_unique
      by (auto simp: ingest_def catching_def andThen_Inr andThen_def split: sum.splits)
    from run1 Inr have st: "event_stored ev (tabs (db s)) e (tabs (db s1))" and rd: "redis s1 = redis s" "charges s1 = charges s" by auto
    show thesis
    proof (cases z)
      case (Inl x)
      with r st same rd show thesis by (intro stranded [of x e]) auto
    next
      case (Inr u)
      with r st same rd pushEvent_run [OF p] show thesis by (intro queued [of e]) auto
    qed
  qed
qed

text \<open>The same as one statement.\<close>

lemma ingest_outcome:
  assumes "ingest D C ev s = (r, s')"
  shows "charges s' = charges s \<and>
    (case r of
       Inr (duplicate, record) \<Rightarrow>
         if event_key_used (tabs (db s)) (hook_gateway ev) (hook_eventId ev)
         then duplicate \<and> record = None \<and> tabs (db s') = tabs (db s) \<and> redis s' = redis s
         else \<exists>e. \<not> duplicate \<and> record = Some e \<and> event_stored ev (tabs (db s)) e (tabs (db s')) \<and>
           (eventRecordId e \<noteq> [] \<longrightarrow> waiting_in lists queueName (redis s') =
             (if isMockMode (redis s) then [eventRecordId e] else waiting_in lists queueName (redis s) @ [eventRecordId e]))
     | Inl x \<Rightarrow> db_failure x \<and> tabs (db s') = tabs (db s) \<and> redis s' = redis s \<or>
         (\<exists>e. event_stored ev (tabs (db s)) e (tabs (db s'))))"
  using assms
proof (cases rule: ingest_cases)
  case (queued e)
  with event_stored_new [OF queued(2)] show ?thesis by simp
next
  case (stranded e x)
  then show ?thesis by auto
qed simp_all

end

subsection \<open>Only signed events get in\<close>

text \<open>The routes of the controller.\<close>

fun webhook ::
  "GatewayProvider \<Rightarrow> world \<Rightarrow> 'd orm \<Rightarrow> 'r redis_client \<Rightarrow> webhook_request \<Rightarrow> (('d, 'r) node, webhook_reply) io" where
  "webhook STRIPE w D C req = stripe_webhook w D C req"
| "webhook RAZORPAY w D C req = razorpay_webhook w D C req"
| "webhook PAYU w D C req = payu_webhook w D C req"
| "webhook UPI w D C req = upi_webhook w D C req"

text \<open>
  What a signature has to be: Stripe's header names a timestamp and the MAC of timestamp and
  body, Razorpay's header is the MAC of the body, PayU's body carries a digest of its fields.
\<close>

fun webhook_secret :: "world \<Rightarrow> GatewayProvider \<Rightarrow> string option" where
  "webhook_secret w STRIPE = getenv w ''STRIPE_WEBHOOK_SECRET''"
| "webhook_secret w PAYU = getenv w ''PAYU_SALT''"
| "webhook_secret w g = getenv w ''RAZORPAY_KEY_SECRET''"

fun unsigned_mode :: "GatewayProvider \<Rightarrow> string option \<Rightarrow> bool" where
  "unsigned_mode STRIPE secret = (\<not> str_truthy secret \<or> starts_with (str_text secret) ''whsec_xxx'')"
| "unsigned_mode PAYU secret =
     (\<not> str_truthy secret \<or> starts_with (str_text secret) ''payu_test_xxx'' \<or> secret = Some ''xxxxxxxxxxxx'')"
| "unsigned_mode g secret =
     (\<not> str_truthy secret \<or> starts_with (str_text secret) ''rzp_test_xxx'' \<or> secret = Some ''xxxxxxxxxxxx'')"

definition mac_matches :: "world \<Rightarrow> string \<Rightarrow> string \<Rightarrow> string \<Rightarrow> bool" where
  "mac_matches w secret signedText sig \<longleftrightarrow> from_hex sig = from_hex (hmac_sha256_hex w secret signedText)"

fun signed :: "GatewayProvider \<Rightarrow> world \<Rightarrow> string \<Rightarrow> webhook_request \<Rightarrow> bool" where
  "signed STRIPE w secret req \<longleftrightarrow> (\<exists>header raw ts sig. req_signature req = Some header \<and> req_rawBody req = Some raw \<and>
     mac_matches w secret (ts @ ''.'' @ raw) sig \<and>
     (\<exists>p \<in> set (split_on (CHR '','') header). starts_with p ''v1='' \<and> sig = split_on (CHR ''='') p ! 1) \<and>
     (\<exists>p \<in> set (split_on (CHR '','') header). starts_with p ''t='' \<and> ts = split_on (CHR ''='') p ! 1))"
| "signed PAYU w secret req \<longleftrightarrow> (\<exists>h. opt_prop ''hash'' (Some (req_body req)) = Some (JStr h) \<and> h \<noteq> '''' \<and>
     to_lower h = to_lower (sha512_hex w (payu_hash_string (req_body req) secret)))"
| "signed g w secret req \<longleftrightarrow> (\<exists>sig raw. req_signature req = Some sig \<and> req_rawBody req = Some raw \<and>
     sig \<noteq> '''' \<and> mac_matches w secret raw sig)"

text \<open>The event of a request.\<close>

fun event_of :: "GatewayProvider \<Rightarrow> json \<Rightarrow> incoming_webhook" where
  "event_of g content =
     \<lparr>hook_gateway = g,
      hook_eventId = body_text (case g of STRIPE \<Rightarrow> [''id''] | PAYU \<Rightarrow> [''mihpayid'', ''txnid''] | _ \<Rightarrow> [''id'', ''event_id'']) content,
      hook_eventType = body_text (case g of STRIPE \<Rightarrow> [''type''] | PAYU \<Rightarrow> [''status''] | _ \<Rightarrow> [''event'']) content,
      hook_payload = content, hook_signatureVerified = True\<rparr>"

lemma checkedD:
  "checked verify req secret \<Longrightarrow> \<exists>sig raw. req_signature req = Some sig \<and> req_rawBody req = Some raw \<and>
     sig \<noteq> '''' \<and> verify raw sig (str_text secret)"
  by (auto simp: checked_def split: option.splits)

lemma signed_razorpay:
  "checked (verifyRazorpaySignature w) req secret \<Longrightarrow> signed RAZORPAY w (str_text secret) req \<and> signed UPI w (str_text secret) req"
  by (drule checkedD) (auto simp: verifyRazorpaySignature_iff mac_matches_def)

lemma signed_stripe:
  "checked (verifyStripeSignature w) req secret \<Longrightarrow> signed STRIPE w (str_text secret) req"
  by (drule checkedD) (fastforce simp: mac_matches_def dest: verifyStripe_sound)

lemma signed_payu:
  "truthy (opt_prop ''hash'' (Some (req_body req))) \<Longrightarrow> verifyPayUSignature w (req_body req) (str_text secret) \<Longrightarrow>
     signed PAYU w (str_text secret) req"
  by (auto simp: verifyPayUSignature_def js_or_def split: option.splits json.splits)

text \<open>Every endpoint refuses without a trace, or ingests an event that is signed.\<close>

lemma webhook_cases:
  obtains (refused) "webhook g w D C req = ret signature_failed"
  | (let_in) "webhook g w D C req = andThen (ingest D C (event_of g (req_body req))) (\<lambda>result. ret (Received (fst result)))"
      "unsigned_mode g (webhook_secret w g) \<or> signed g w (str_text (webhook_secret w g)) req"
proof (cases g)
  case STRIPE
  with that signed_stripe [of w req "getenv w ''STRIPE_WEBHOOK_SECRET''"] show thesis
    by (cases "unsigned_mode g (webhook_secret w g) \<or> checked (verifyStripeSignature w) req (webhook_secret w g)")
      (auto simp: stripe_webhook_def accept_webhook_def Let_def simp del: signed.simps)
next
  case RAZORPAY
  with that signed_razorpay [of w req "getenv w ''RAZORPAY_KEY_SECRET''"] show thesis
    by (cases "unsigned_mode g (webhook_secret w g) \<or> checked (verifyRazorpaySignature w) req (webhook_secret w g)")
      (auto simp: razorpay_webhook_def razorpay_placeholder_def accept_webhook_def Let_def simp del: signed.simps)
next
  case PAYU
  with that signed_payu [of req w "getenv w ''PAYU_SALT''"] show thesis
    by (cases "unsigned_mode g (webhook_secret w g) \<or>
        truthy (opt_prop ''hash'' (Some (req_body req))) \<and> verifyPayUSignature w (req_body req) (str_text (webhook_secret w g))")
      (auto simp: payu_webhook_def accept_webhook_def Let_def simp del: signed.simps)
next
  case UPI
  with that signed_razorpay [of w req "getenv w ''RAZORPAY_KEY_SECRET''"] show thesis
    by (cases "unsigned_mode g (webhook_secret w g) \<or> checked (verifyRazorpaySignature w) req (webhook_secret w g)")
      (auto simp: upi_webhook_def razorpay_placeholder_def accept_webhook_def Let_def simp del: signed.simps)
qed

lemma webhook_guarded:
  assumes "webhook g w D C req s = (r, s')" "\<not> unsigned_mode g (webhook_secret w g)"
    and "\<not> signed g w (str_text (webhook_secret w g)) req"
  shows "r = Inr (Rejected ''Signature verification failed'') \<and> s' = s"
  using webhook_cases [of g w D C req]
proof cases
  case refused
  with assms(1) show ?thesis by (simp add: signature_failed_def)
qed (use assms in simp)

text \<open>
  And a request the gateway itself signed is let in: the header (or PayU's field) carries the
  digest \<open>mac\<close> in hexadecimal, Stripe's timestamp is in digits.
\<close>

fun genuine :: "GatewayProvider \<Rightarrow> world \<Rightarrow> string \<Rightarrow> nat list \<Rightarrow> webhook_request \<Rightarrow> bool" where
  "genuine STRIPE w secret mac req \<longleftrightarrow> (\<exists>raw n. req_rawBody req = Some raw \<and>
     hmac_sha256_hex w secret (decimal n @ ''.'' @ raw) = to_hex mac \<and>
     req_signature req = Some (stripe_header (decimal n) (to_hex mac)))"
| "genuine PAYU w secret mac req \<longleftrightarrow>
     sha512_hex w (payu_hash_string (req_body req) secret) = to_hex mac \<and>
     opt_prop ''hash'' (Some (req_body req)) = Some (JStr (to_hex mac))"
| "genuine g w secret mac req \<longleftrightarrow> (\<exists>raw. req_rawBody req = Some raw \<and>
     hmac_sha256_hex w secret raw = to_hex mac \<and> req_signature req = Some (to_hex mac))"

lemma to_hex_nonempty: "mac \<noteq> [] \<Longrightarrow> to_hex mac \<noteq> []"
  by (cases mac) (simp_all add: to_hex_Cons)

lemma decimal_chars: "c \<in> set (decimal n) \<Longrightarrow> \<exists>d < 10. c = digit d"
proof (induction n rule: decimal.induct)
  case (1 n)
  show ?case
  proof (cases "n < 10")
    case True
    then have "decimal n = [digit n]" by (subst decimal.simps) simp
    with 1(2) True show ?thesis by auto
  next
    case False
    then have "decimal n = decimal (n div 10) @ [digit (n mod 10)]" by (subst decimal.simps) simp
    moreover have "n mod 10 < 10" by simp
    ultimately show ?thesis using 1 False by (auto intro: exI [of _ "n mod 10"])
  qed
qed

lemma digit_neq: "d < 10 \<Longrightarrow> (of_char c :: nat) < 48 \<or> 57 < (of_char c :: nat) \<Longrightarrow> c \<noteq> digit d"
  by (auto simp: digit_def of_char_of)

lemma decimal_plain: "CHR '','' \<notin> set (decimal n)" "CHR ''='' \<notin> set (decimal n)"
  using decimal_chars [of "CHR '',''" n] decimal_chars [of "CHR ''=''" n]
    digit_neq [of _ "CHR '',''"] digit_neq [of _ "CHR ''=''"] by auto

lemma genuine_let_in:
  assumes "genuine g w (str_text (webhook_secret w g)) mac req" "mac \<noteq> []" "list_all (\<lambda>b. b < 256) mac"
  shows "webhook g w D C req = andThen (ingest D C (event_of g (req_body req))) (\<lambda>result. ret (Received (fst result)))"
proof -
  note h = to_hex_nonempty [OF assms(2)]
  have plain: "CHR '','' \<notin> set (to_hex mac)" "CHR ''='' \<notin> set (to_hex mac)"
    using to_hex_chars [of _ mac] assms(3) not_hex by blast+
  show ?thesis
  proof (cases g)
    case STRIPE
    with assms(1) have "checked (verifyStripeSignature w) req (getenv w ''STRIPE_WEBHOOK_SECRET'')"
      using verifyStripe_header [OF decimal_plain plain, of w]
      by (auto simp: checked_def) (simp add: stripe_header_def)
    with STRIPE show ?thesis by (simp add: stripe_webhook_def accept_webhook_def Let_def)
  next
    case RAZORPAY
    with assms(1) h have "checked (verifyRazorpaySignature w) req (getenv w ''RAZORPAY_KEY_SECRET'')"
      by (auto simp: checked_def verifyRazorpaySignature_iff)
    with RAZORPAY show ?thesis by (simp add: razorpay_webhook_def accept_webhook_def Let_def)
  next
    case PAYU
    with assms(1) h have "truthy (opt_prop ''hash'' (Some (req_body req))) \<and>
        verifyPayUSignature w (req_body req) (str_text (getenv w ''PAYU_SALT''))"
      by (auto simp: verifyPayUSignature_def js_or_def)
    with PAYU show ?thesis by (simp add: payu_webhook_def accept_webhook_def Let_def)
  next
    case UPI
    with assms(1) h have "checked (verifyRazorpaySignature w) req (getenv w ''RAZORPAY_KEY_SECRET'')"
      by (auto simp: checked_def verifyRazorpaySignature_iff)
    with UPI show ?thesis by (simp add: upi_webhook_def accept_webhook_def Let_def)
  qed
qed

end
