(* ===== verification/Reconciliation.thy ===== *)
theory Reconciliation
  imports Webhooks
begin

text \<open>
  \<open>src/webhooks/reconciliation-worker.service.ts\<close>: the worker that takes the events off the
  queue and drives their transactions to \<open>RECONCILED\<close> through the state machine.
\<close>

subsection \<open>Which payment an event is about\<close>

text \<open>A chain of \<open>||\<close> that ends in \<open>null\<close>.\<close>

definition first_truthy :: "json option list \<Rightarrow> json" where
  "first_truthy xs = (case find truthy xs of Some (Some j) \<Rightarrow> j | _ \<Rightarrow> JNull)"

fun extractGatewayTxnId :: "GatewayProvider \<Rightarrow> json \<Rightarrow> json" where
  "extractGatewayTxnId g p =
     (if \<not> truthy (Some p) then JNull
      else case g of
        STRIPE \<Rightarrow> first_truthy
          [opt_prop ''id'' (opt_prop ''object'' (opt_prop ''data'' (Some p))), opt_prop ''id'' (Some p)]
      | RAZORPAY \<Rightarrow>
          (let entity = opt_prop ''entity'' (opt_prop ''payment'' (opt_prop ''payload'' (Some p)))
           in first_truthy [opt_prop ''id'' entity, opt_prop ''order_id'' entity, opt_prop ''id'' (Some p)])
      | PAYU \<Rightarrow> first_truthy [opt_prop ''mihpayid'' (Some p), opt_prop ''txnid'' (Some p), opt_prop ''id'' (Some p)]
      | UPI \<Rightarrow> first_truthy [opt_prop ''upi_txn_id'' (Some p), opt_prop ''id'' (Some p)])"

declare extractGatewayTxnId.simps [simp del]

text \<open>\<open>payload?.idempotencyKey || '___none___'\<close>.\<close>

definition payload_key :: "json \<Rightarrow> string" where
  "payload_key p = column_text
     (case js_or (opt_prop ''idempotencyKey'' (Some p)) (Some (JStr ''___none___'')) of None \<Rightarrow> JNull | Some j \<Rightarrow> j)"

subsection \<open>Driving a transaction to \<open>RECONCILED\<close>\<close>

definition hook_meta :: "GatewayProvider \<Rightarrow> string \<Rightarrow> metadata" where
  "hook_meta g why = no_metadata\<lparr>m_gateway := Some (Some g), m_reason := Some why\<rparr>"

text \<open>
  One conditional block of the method: if the state is the expected one, a transition whose
  result is the next state.
\<close>

definition advance ::
  "'d orm \<Rightarrow> timestamp \<Rightarrow> string \<Rightarrow> TransactionState \<Rightarrow> TransactionState \<Rightarrow> metadata \<Rightarrow> TransactionState \<Rightarrow>
   (('d, 'r) node, TransactionState) io" where
  "advance D clk i fromS toS m state =
     (if state = fromS
      then andThen (on_db (transition D clk i toS m)) (\<lambda>updated. ret (currentState updated))
      else ret state)"

definition success_hook_meta :: "GatewayProvider \<Rightarrow> json \<Rightarrow> json \<Rightarrow> metadata" where
  "success_hook_meta g gid raw = (hook_meta g ''Webhook reconciliation success transition'')
     \<lparr>m_gatewayTxnId := Some gid, m_rawGatewayResponse := Some raw\<rparr>"

definition reconciled_hook_meta :: "GatewayProvider \<Rightarrow> json \<Rightarrow> metadata" where
  "reconciled_hook_meta g raw = (hook_meta g ''Webhook reconciliation completed'')
     \<lparr>m_rawGatewayResponse := Some raw\<rparr>"

definition processing_hook_meta :: "GatewayProvider \<Rightarrow> metadata" where
  "processing_hook_meta g = (hook_meta g ''Webhook reconciliation processing attempt'')\<lparr>m_incrementAttempt := True\<rparr>"

definition driveToReconciled ::
  "'d orm \<Rightarrow> timestamp \<Rightarrow> transaction \<Rightarrow> GatewayProvider \<Rightarrow> json \<Rightarrow> json \<Rightarrow> (('d, 'r) node, unit) io" where
  "driveToReconciled D clk txn g gid raw =
     (let i = txnId txn in
      if currentState txn = RECONCILED then ret ()
      else
        andThen (advance D clk i INITIATED ROUTED (hook_meta g ''Webhook reconciliation auto-routing'') (currentState txn)) (\<lambda>s1.
        andThen (advance D clk i RETRY_PENDING ROUTED (hook_meta g ''Webhook reconciliation auto-routing after retry'') s1) (\<lambda>s2.
        andThen (advance D clk i ROUTED PROCESSING (processing_hook_meta g) s2) (\<lambda>s3.
        andThen (advance D clk i PROCESSING SUCCESS (success_hook_meta g gid raw) s3) (\<lambda>s4.
        andThen (advance D clk i SUCCESS RECONCILED (reconciled_hook_meta g raw) s4) (\<lambda>_. ret ()))))))"

subsection \<open>One event, and the loop\<close>

definition mark_processed :: "timestamp \<Rightarrow> webhook_event \<Rightarrow> webhook_event" where
  "mark_processed t e = e\<lparr>processed := True, processedAt := Some t\<rparr>"

definition save_processed :: "'d orm \<Rightarrow> timestamp \<Rightarrow> webhook_event \<Rightarrow> (('d, 'r) node, unit) io" where
  "save_processed D t e = andThen (on_db (saveEvent D (mark_processed t e))) (\<lambda>_. ret ())"

definition processEvent :: "'d orm \<Rightarrow> timestamp \<Rightarrow> string \<Rightarrow> (('d, 'r) node, unit) io" where
  "processEvent D clk recordId =
     andThen (on_db (findEvent D recordId)) (\<lambda>found. case found of
       None \<Rightarrow> ret ()
     | Some e \<Rightarrow>
         if processed e then ret ()
         else
           let gid = extractGatewayTxnId (eventGateway e) (payload e) in
           if gid = JNull then save_processed D clk e
           else
             andThen (on_db (findTxnByGatewayOrKey D gid (payload_key (payload e)))) (\<lambda>txn. case txn of
               None \<Rightarrow> save_processed D clk e
             | Some t \<Rightarrow>
                 andThen (driveToReconciled D clk t (eventGateway e) gid (payload e)) (\<lambda>_.
                 save_processed D clk e)))"

text \<open>
  One iteration of \<open>pollQueue\<close>: an exception of the queue or of an event is logged, and the
  loop goes on after a pause. \<open>pollQueue n\<close> is the worker that is stopped after \<open>n\<close> iterations.
\<close>

definition poll_once :: "'d orm \<Rightarrow> 'r redis_client \<Rightarrow> timestamp \<Rightarrow> (('d, 'r) node, unit) io" where
  "poll_once D C clk = catching
     (andThen (on_redis (getClient_brpop C queueName 2)) (\<lambda>result. case result of
        None \<Rightarrow> ret ()
      | Some (_, recordId) \<Rightarrow> processEvent D clk recordId))
     (\<lambda>err. ret ())"

fun pollQueue :: "nat \<Rightarrow> 'd orm \<Rightarrow> 'r redis_client \<Rightarrow> timestamp \<Rightarrow> (('d, 'r) node, unit) io" where
  "pollQueue 0 D C clk = ret ()"
| "pollQueue (Suc n) D C clk = andThen (poll_once D C clk) (\<lambda>_. pollQueue n D C clk)"

end
