(* ===== verification/Settlement.thy ===== *)
theory Settlement
  imports Failover Reconciliation
begin

text \<open>
  What the reconciliation worker promises: the path it drives a payment along, the outcome of
  an event, that processing it again changes nothing, and that a healthy worker empties its
  queue.
\<close>

subsection \<open>The path to \<open>RECONCILED\<close>\<close>

text \<open>The entries a webhook leaves, from the state it finds the payment in.\<close>

fun hook_rank :: "TransactionState \<Rightarrow> nat" where
  "hook_rank INITIATED = 4"
| "hook_rank RETRY_PENDING = 4"
| "hook_rank ROUTED = 3"
| "hook_rank PROCESSING = 2"
| "hook_rank SUCCESS = 1"
| "hook_rank FAILED = 0"
| "hook_rank RECONCILED = 0"

function hook_trail :: "string \<Rightarrow> GatewayProvider \<Rightarrow> json \<Rightarrow> json \<Rightarrow> TransactionState \<Rightarrow> new_audit list" where
  "hook_trail i g gid raw INITIATED =
     entry i INITIATED ROUTED g (hook_meta g ''Webhook reconciliation auto-routing'') # hook_trail i g gid raw ROUTED"
| "hook_trail i g gid raw RETRY_PENDING =
     entry i RETRY_PENDING ROUTED g (hook_meta g ''Webhook reconciliation auto-routing after retry'') # hook_trail i g gid raw ROUTED"
| "hook_trail i g gid raw ROUTED =
     entry i ROUTED PROCESSING g (processing_hook_meta g) # hook_trail i g gid raw PROCESSING"
| "hook_trail i g gid raw PROCESSING =
     entry i PROCESSING SUCCESS g (success_hook_meta g gid raw) # hook_trail i g gid raw SUCCESS"
| "hook_trail i g gid raw SUCCESS = [entry i SUCCESS RECONCILED g (reconciled_hook_meta g raw)]"
| "hook_trail i g gid raw FAILED = []"
| "hook_trail i g gid raw RECONCILED = []"
  by pat_completeness auto

termination by (relation "measure (\<lambda>(i, g, gid, raw, s). hook_rank s)") auto

text \<open>The row a webhook leaves; a failed payment is left alone, and so is a reconciled one.\<close>

definition hooked :: "timestamp \<Rightarrow> GatewayProvider \<Rightarrow> json \<Rightarrow> transaction \<Rightarrow> timestamp \<Rightarrow> transaction" where
  "hooked clk g gid t u =
     (if terminal (currentState t) then t
      else t\<lparr>currentState := RECONCILED, selectedGateway := Some g,
             gatewayTxnId := (if currentState t = SUCCESS then gatewayTxnId t else gid),
             attemptCount := attemptCount t + (if currentState t \<in> {INITIATED, RETRY_PENDING, ROUTED} then 1 else 0),
             updatedAt := u, finalReconciledAt := Some clk\<rparr>)"

lemma terminal_simps [simp]:
  "terminal FAILED" "terminal RECONCILED" "\<not> terminal INITIATED" "\<not> terminal ROUTED"
  "\<not> terminal PROCESSING" "\<not> terminal RETRY_PENDING" "\<not> terminal SUCCESS"
  by (simp_all add: terminal_iff)

lemma hook_meta_simps [simp]:
  "m_gateway (hook_meta g why) = Some (Some g)" "m_gateway (success_hook_meta g gid raw) = Some (Some g)"
  "m_gateway (reconciled_hook_meta g raw) = Some (Some g)" "m_gateway (processing_hook_meta g) = Some (Some g)"
  "\<not> m_incrementAttempt (hook_meta g why)" "\<not> m_incrementAttempt (success_hook_meta g gid raw)"
  "\<not> m_incrementAttempt (reconciled_hook_meta g raw)" "m_incrementAttempt (processing_hook_meta g)"
  "m_gatewayTxnId (hook_meta g why) = None" "m_gatewayTxnId (success_hook_meta g gid raw) = Some gid"
  "m_gatewayTxnId (reconciled_hook_meta g raw) = None" "m_gatewayTxnId (processing_hook_meta g) = None"
  by (simp_all add: hook_meta_def success_hook_meta_def reconciled_hook_meta_def processing_hook_meta_def no_metadata_def)

text \<open>One step of the path and the rest of it amount to the same row.\<close>

lemma hooked_step:
  assumes "(currentState t, s, m) \<in> {(INITIATED, ROUTED, hook_meta g why), (RETRY_PENDING, ROUTED, hook_meta g why),
      (ROUTED, PROCESSING, processing_hook_meta g), (PROCESSING, SUCCESS, success_hook_meta g gid raw)}"
  shows "hooked clk g gid ((apply_transition clk s m t)\<lparr>updatedAt := v\<rparr>) u = hooked clk g gid t u"
  using assms by (cases t) (auto simp: hooked_def apply_transition_def)

lemma hooked_last:
  assumes "currentState t = SUCCESS"
  shows "(apply_transition clk RECONCILED (reconciled_hook_meta g raw) t)\<lparr>updatedAt := u\<rparr> = hooked clk g gid t u"
  using assms by (cases t) (auto simp: hooked_def apply_transition_def)

text \<open>The blocks of \<open>driveToReconciled\<close> as a list, and the method as a pass over it.\<close>

definition hook_steps :: "GatewayProvider \<Rightarrow> json \<Rightarrow> json \<Rightarrow> (TransactionState \<times> TransactionState \<times> metadata) list" where
  "hook_steps g gid raw =
     [(INITIATED, ROUTED, hook_meta g ''Webhook reconciliation auto-routing''),
      (RETRY_PENDING, ROUTED, hook_meta g ''Webhook reconciliation auto-routing after retry''),
      (ROUTED, PROCESSING, processing_hook_meta g), (PROCESSING, SUCCESS, success_hook_meta g gid raw),
      (SUCCESS, RECONCILED, reconciled_hook_meta g raw)]"

fun drive_steps ::
  "'d orm \<Rightarrow> timestamp \<Rightarrow> string \<Rightarrow> (TransactionState \<times> TransactionState \<times> metadata) list \<Rightarrow> TransactionState \<Rightarrow>
   (('d, 'r) node, unit) io" where
  "drive_steps D clk i [] = (\<lambda>s. ret ())"
| "drive_steps D clk i ((a, b, m) # steps) = (\<lambda>s. andThen (advance D clk i a b m s) (drive_steps D clk i steps))"

lemma driveToReconciled_steps:
  "driveToReconciled D clk t g gid raw =
     (if currentState t = RECONCILED then ret ()
      else drive_steps D clk (txnId t) (hook_steps g gid raw) (currentState t))"
  by (simp add: driveToReconciled_def hook_steps_def Let_def)

lemma drive_steps_skip: "s \<noteq> a \<Longrightarrow> drive_steps D clk i ((a, b, m) # steps) s = drive_steps D clk i steps s"
  by (simp add: advance_def)

lemma drive_steps_take:
  "drive_steps D clk i ((a, b, m) # steps) a =
     andThen (on_db (transition D clk i b m)) (\<lambda>updated. drive_steps D clk i steps (currentState updated))"
  by (simp add: advance_def andThen_assoc)

subsection \<open>Driving a payment\<close>

text \<open>
  The triple of one transition, over a predicate of the database that transitions keep: it is
  what \<open>at_transition\<close> and a healthy database have in common.
\<close>

definition transition_triple ::
  "'d orm \<Rightarrow> ('d \<Rightarrow> tables) \<Rightarrow> ('d \<Rightarrow> bool) \<Rightarrow> timestamp \<Rightarrow> string \<Rightarrow> (exn \<Rightarrow> ('d, 'r) node \<Rightarrow> bool) \<Rightarrow>
   (GatewayProvider \<times> charge_request) list \<Rightarrow> bool" where
  "transition_triple D tabs P clk i E cs \<longleftrightarrow>
     (\<forall>R L t s m g. R i = Some t \<longrightarrow> can_transition (currentState t) s \<longrightarrow> m_gateway m = Some (Some g) \<longrightarrow>
        hoare (\<lambda>\<sigma>. P (db \<sigma>) \<and> snapshot tabs R L cs \<sigma>) (on_db (transition D clk i s m))
          (\<lambda>t' \<sigma>. (\<exists>u. t' = (apply_transition clk s m t)\<lparr>updatedAt := u\<rparr>) \<and> P (db \<sigma>) \<and>
             snapshot tabs (R(i \<mapsto> t')) (L(i := L i @ [entry i (currentState t) s g m])) cs \<sigma>) E)"

definition hook_done ::
  "('d \<Rightarrow> tables) \<Rightarrow> ('d \<Rightarrow> bool) \<Rightarrow> timestamp \<Rightarrow> GatewayProvider \<Rightarrow> json \<Rightarrow> json \<Rightarrow> transaction \<Rightarrow>
   (string \<rightharpoonup> transaction) \<Rightarrow> (string \<Rightarrow> new_audit list) \<Rightarrow> (GatewayProvider \<times> charge_request) list \<Rightarrow> ('d, 'r) node \<Rightarrow> bool" where
  "hook_done tabs P clk g gid raw t R L cs \<sigma> \<longleftrightarrow> P (db \<sigma>) \<and>
     (\<exists>u. snapshot tabs (R(txnId t \<mapsto> hooked clk g gid t u))
       (L(txnId t := L (txnId t) @ hook_trail (txnId t) g gid raw (currentState t))) cs \<sigma>)"

lemma hook_step:
  assumes tr: "transition_triple D tabs P clk i E cs"
    and t: "R i = Some t" "currentState t = a" "can_transition a b" "m_gateway m = Some (Some g)"
    and rest: "\<And>u. hoare (\<lambda>\<sigma>. P (db \<sigma>) \<and> snapshot tabs (R(i \<mapsto> (apply_transition clk b m t)\<lparr>updatedAt := u\<rparr>))
        (L(i := L i @ [entry i a b g m])) cs \<sigma>) (drive_steps D clk i steps b) Q E"
  shows "hoare (\<lambda>\<sigma>. P (db \<sigma>) \<and> snapshot tabs R L cs \<sigma>) (drive_steps D clk i ((a, b, m) # steps) a) Q E"
  unfolding drive_steps_take
proof (rule hoare_andThen)
  from tr t show "hoare (\<lambda>\<sigma>. P (db \<sigma>) \<and> snapshot tabs R L cs \<sigma>) (on_db (transition D clk i b m))
      (\<lambda>t' \<sigma>. (\<exists>u. t' = (apply_transition clk b m t)\<lparr>updatedAt := u\<rparr>) \<and> P (db \<sigma>) \<and>
         snapshot tabs (R(i \<mapsto> t')) (L(i := L i @ [entry i a b g m])) cs \<sigma>) E"
    unfolding transition_triple_def by blast
  show "hoare (\<lambda>\<sigma>. (\<exists>u. t' = (apply_transition clk b m t)\<lparr>updatedAt := u\<rparr>) \<and> P (db \<sigma>) \<and>
         snapshot tabs (R(i \<mapsto> t')) (L(i := L i @ [entry i a b g m])) cs \<sigma>)
      (drive_steps D clk i steps (currentState t')) Q E" for t'
    by (rule hoare_assume) (use rest in auto)
qed

lemma hook_done_step:
  assumes "(currentState t, s, m) \<in> {(INITIATED, ROUTED, hook_meta g why), (RETRY_PENDING, ROUTED, hook_meta g why),
      (ROUTED, PROCESSING, processing_hook_meta g), (PROCESSING, SUCCESS, success_hook_meta g gid raw)}"
    and "hook_trail (txnId t) g gid raw (currentState t) = e # hook_trail (txnId t) g gid raw s"
  shows "hook_done tabs P clk g gid raw ((apply_transition clk s m t)\<lparr>updatedAt := v\<rparr>)
      (R(txnId t \<mapsto> t')) (L(txnId t := L (txnId t) @ [e])) cs = hook_done tabs P clk g gid raw t R L cs"
  using hooked_step [OF assms(1)] assms(2) by (intro ext) (simp add: hook_done_def)

text \<open>The blocks from one state on, for any row in that state.\<close>

definition drives ::
  "'d orm \<Rightarrow> ('d \<Rightarrow> tables) \<Rightarrow> ('d \<Rightarrow> bool) \<Rightarrow> timestamp \<Rightarrow> string \<Rightarrow> GatewayProvider \<Rightarrow> json \<Rightarrow> json \<Rightarrow>
   (exn \<Rightarrow> ('d, 'r) node \<Rightarrow> bool) \<Rightarrow> (GatewayProvider \<times> charge_request) list \<Rightarrow>
   (TransactionState \<times> TransactionState \<times> metadata) list \<Rightarrow> TransactionState \<Rightarrow> bool" where
  "drives D tabs P clk i g gid raw E cs steps s \<longleftrightarrow>
     (\<forall>R L t. R i = Some t \<longrightarrow> txnId t = i \<longrightarrow> currentState t = s \<longrightarrow>
        hoare (\<lambda>\<sigma>. P (db \<sigma>) \<and> snapshot tabs R L cs \<sigma>) (drive_steps D clk i steps s)
          (\<lambda>_. hook_done tabs P clk g gid raw t R L cs) E)"

lemma drives_last:
  assumes tr: "transition_triple D tabs P clk i E cs"
  shows "drives D tabs P clk i g gid raw E cs [(SUCCESS, RECONCILED, reconciled_hook_meta g raw)] SUCCESS"
  unfolding drives_def
proof (intro allI impI)
  fix R :: "string \<Rightarrow> transaction option" and L t
  assume "R i = Some t" "txnId t = i" "currentState t = SUCCESS"
  then show "hoare (\<lambda>\<sigma>. P (db \<sigma>) \<and> snapshot tabs R L cs \<sigma>)
      (drive_steps D clk i [(SUCCESS, RECONCILED, reconciled_hook_meta g raw)] SUCCESS)
      (\<lambda>_. hook_done tabs P clk g gid raw t R L cs) E"
    by (intro hook_step [OF tr]) (auto simp: can_transition_iff hooked_last [where gid = gid] hook_done_def hoare_def)
qed

lemma drives_step:
  assumes tr: "transition_triple D tabs P clk i E cs"
    and rest: "drives D tabs P clk i g gid raw E cs steps b"
    and s: "(a, b, m) \<in> {(INITIATED, ROUTED, hook_meta g why), (RETRY_PENDING, ROUTED, hook_meta g why),
      (ROUTED, PROCESSING, processing_hook_meta g), (PROCESSING, SUCCESS, success_hook_meta g gid raw)}"
    and e: "hook_trail i g gid raw a = entry i a b g m # hook_trail i g gid raw b"
  shows "drives D tabs P clk i g gid raw E cs ((a, b, m) # steps) a"
  unfolding drives_def
proof (intro allI impI)
  fix R :: "string \<Rightarrow> transaction option" and L t
  assume t: "R i = Some t" "txnId t = i" "currentState t = a"
  show "hoare (\<lambda>\<sigma>. P (db \<sigma>) \<and> snapshot tabs R L cs \<sigma>) (drive_steps D clk i ((a, b, m) # steps) a)
      (\<lambda>_. hook_done tabs P clk g gid raw t R L cs) E"
  proof (rule hook_step [where t = t, OF tr])
    show "R i = Some t" "currentState t = a" by (fact t)+
    show "can_transition a b" "m_gateway m = Some (Some g)" using s by (auto simp: can_transition_iff)
    have s': "(currentState t, b, m) \<in> {(INITIATED, ROUTED, hook_meta g why), (RETRY_PENDING, ROUTED, hook_meta g why),
        (ROUTED, PROCESSING, processing_hook_meta g), (PROCESSING, SUCCESS, success_hook_meta g gid raw)}"
      using s t(3) by simp
    have e': "hook_trail (txnId t) g gid raw (currentState t) = entry i a b g m # hook_trail (txnId t) g gid raw b"
      using e t(2,3) by simp
    fix u
    let ?t = "(apply_transition clk b m t)\<lparr>updatedAt := u\<rparr>"
    have "hoare (\<lambda>\<sigma>. P (db \<sigma>) \<and> snapshot tabs (R(i \<mapsto> ?t)) (L(i := L i @ [entry i a b g m])) cs \<sigma>)
        (drive_steps D clk i steps b)
        (\<lambda>_. hook_done tabs P clk g gid raw ?t (R(i \<mapsto> ?t)) (L(i := L i @ [entry i a b g m])) cs) E"
      using rest t(2) by (auto simp: drives_def)
    then show "hoare (\<lambda>\<sigma>. P (db \<sigma>) \<and> snapshot tabs (R(i \<mapsto> ?t)) (L(i := L i @ [entry i a b g m])) cs \<sigma>)
        (drive_steps D clk i steps b) (\<lambda>_. hook_done tabs P clk g gid raw t R L cs) E"
      unfolding hook_done_step [OF s' e', unfolded t(2)] .
  qed
qed

lemma drives_hook_steps:
  assumes tr: "transition_triple D tabs P clk i E cs" and s: "\<not> terminal s"
  shows "drives D tabs P clk i g gid raw E cs (hook_steps g gid raw) s"
proof -
  note step = drives_step [OF tr]
  let ?p = "(PROCESSING, SUCCESS, success_hook_meta g gid raw)" and ?l = "[(SUCCESS, RECONCILED, reconciled_hook_meta g raw)]"
  have processing: "drives D tabs P clk i g gid raw E cs (?p # ?l) PROCESSING"
    by (rule step [OF drives_last [OF tr]]) simp_all
  have routed: "drives D tabs P clk i g gid raw E cs ((ROUTED, PROCESSING, processing_hook_meta g) # ?p # ?l) ROUTED"
    by (rule step [OF processing]) simp_all
  have skip: "drives D tabs P clk i g gid raw E cs ((a, b, m) # steps) s \<longleftrightarrow> drives D tabs P clk i g gid raw E cs steps s"
    if "s \<noteq> a" for a b m steps s
    unfolding drives_def drive_steps_skip [OF that] ..
  let ?r = "(RETRY_PENDING, ROUTED, hook_meta g ''Webhook reconciliation auto-routing after retry'')"
  have "drives D tabs P clk i g gid raw E cs (?r # (ROUTED, PROCESSING, processing_hook_meta g) # ?p # ?l) ROUTED"
    using routed by (simp add: skip)
  from step [OF this] have initiated: "drives D tabs P clk i g gid raw E cs (hook_steps g gid raw) INITIATED"
    by (simp add: hook_steps_def)
  have "drives D tabs P clk i g gid raw E cs (?r # (ROUTED, PROCESSING, processing_hook_meta g) # ?p # ?l) RETRY_PENDING"
    by (rule step [OF routed]) simp_all
  with s drives_last [OF tr, of g gid raw] processing routed initiated show ?thesis
    by (cases s) (simp_all add: hook_steps_def skip)
qed

lemma driveToReconciled_terminal: "terminal (currentState t) \<Longrightarrow> driveToReconciled D clk t g gid raw = ret ()"
  by (auto simp: driveToReconciled_steps terminal_iff hook_steps_def drive_steps_skip simp del: drive_steps.simps(2))

lemma driveToReconciled_live:
  "\<not> terminal (currentState t) \<Longrightarrow>
     driveToReconciled D clk t g gid raw = drive_steps D clk (txnId t) (hook_steps g gid raw) (currentState t)"
  by (auto simp: driveToReconciled_steps terminal_iff)

text \<open>Hence the method: unless the payment has failed, it ends \<open>RECONCILED\<close>.\<close>

lemma driveToReconciled_triple:
  assumes tr: "transition_triple D tabs P clk (txnId t) E cs" and t: "R (txnId t) = Some t"
  shows "hoare (\<lambda>\<sigma>. P (db \<sigma>) \<and> snapshot tabs R L cs \<sigma>) (driveToReconciled D clk t g gid raw)
    (\<lambda>_. hook_done tabs P clk g gid raw t R L cs) E"
proof (cases "terminal (currentState t)")
  case True
  have "R(txnId t \<mapsto> t) = R" using t by auto
  moreover have "hook_trail i g gid raw (currentState t) = []" for i using True by (auto simp: terminal_iff)
  ultimately show ?thesis using True by (simp add: driveToReconciled_terminal hoare_def hook_done_def hooked_def)
next
  case False
  with drives_hook_steps [OF tr False, of g gid raw] t show ?thesis
    by (simp add: drives_def driveToReconciled_live)
qed

subsection \<open>The outcome of an event\<close>

text \<open>The payment an event is about: by the id of the gateway, or by the key in the payload.\<close>

definition about :: "webhook_event \<Rightarrow> transaction \<Rightarrow> bool" where
  "about e t \<longleftrightarrow> (let gid = extractGatewayTxnId (eventGateway e) (payload e) in gid \<noteq> JNull \<and>
     ((\<exists>x. gid = JStr x \<and> gatewayTxnId t = gid) \<or> idempotencyKey t = payload_key (payload e)))"

text \<open>What the worker makes of an unprocessed event: it settles at most one payment, and marks it.\<close>

definition settles ::
  "timestamp \<Rightarrow> webhook_event \<Rightarrow> transaction \<Rightarrow> tables \<Rightarrow> tables \<Rightarrow> bool" where
  "settles clk e t T T' \<longleftrightarrow> (let gid = extractGatewayTxnId (eventGateway e) (payload e) in
     t \<in> set (transactions T) \<and> gid \<noteq> JNull \<and>
     (\<forall>x. gid = JStr x \<longrightarrow> about e t) \<and>
     (\<exists>u. rows T' = (rows T)(txnId t \<mapsto> hooked clk (eventGateway e) gid t u)) \<and>
     logs T' = (logs T)(txnId t := logs T (txnId t) @
       hook_trail (txnId t) (eventGateway e) gid (payload e) (currentState t)))"

definition marks :: "timestamp \<Rightarrow> webhook_event \<Rightarrow> tables \<Rightarrow> tables \<Rightarrow> bool" where
  "marks clk e T T' \<longleftrightarrow> events T' = events (put_event (mark_processed clk e) T)"

lemma mark_processed_id [simp]: "eventRecordId (mark_processed clk e) = eventRecordId e"
  by (simp add: mark_processed_def)

lemma marks_event:
  assumes "marks clk e T T'" "event_by_id T (eventRecordId e) \<noteq> None"
  shows "event_by_id T' j = (if j = eventRecordId e then Some (mark_processed clk e) else event_by_id T j)"
  using assms event_by_id_cong [of T' "put_event (mark_processed clk e) T" j]
  by (auto simp: marks_def event_by_id_put_event)

lemma rows_member:
  assumes "t \<in> set (transactions T)" "distinct (map txnId (transactions T))"
  shows "rows T (txnId t) = Some t"
proof (cases "rows T (txnId t)")
  case None
  with assms(1) show ?thesis by (auto simp: rows_def txn_by_id_def find_None_iff')
next
  case (Some r)
  then have "r \<in> set (transactions T)" "txnId r = txnId t"
    by (auto simp: rows_def txn_by_id_def dest: find_SomeD)
  with assms Some show ?thesis by (auto simp: distinct_map inj_on_def)
qed

context backend
begin

lemma transition_triple_any:
  "transition_triple D tabs (\<lambda>d. events (tabs d) = EV) clk i (\<lambda>_ (_ :: ('d, 'b) node). True) cs"
  unfolding transition_triple_def
proof (intro allI impI)
  fix R :: "string \<Rightarrow> transaction option" and L t s g and m :: metadata
  assume t: "R i = Some t" "can_transition (currentState t) s" "m_gateway m = Some (Some g)"
  show "hoare (\<lambda>\<sigma>. events (tabs (db \<sigma>)) = EV \<and> snapshot tabs R L cs \<sigma>) (on_db (transition D clk i s m))
      (\<lambda>t' \<sigma>. (\<exists>u. t' = (apply_transition clk s m t)\<lparr>updatedAt := u\<rparr>) \<and> events (tabs (db \<sigma>)) = EV \<and>
         snapshot tabs (R(i \<mapsto> t')) (L(i := L i @ [entry i (currentState t) s g m])) cs \<sigma>) (\<lambda>_ (_ :: ('d, 'b) node). True)"
  proof (rule hoareI)
    fix \<sigma> t' and \<sigma>' :: "('d, 'b) node"
    assume a: "events (tabs (db \<sigma>)) = EV \<and> snapshot tabs R L cs \<sigma>" and run: "on_db (transition D clk i s m) \<sigma> = (Inr t', \<sigma>')"
    then have "transition D clk i s m (db \<sigma>) = (Inr t', db \<sigma>')" by (simp add: on_db_eq)
    from sm.move_ok [OF this] have "events (tabs (db \<sigma>')) = events (tabs (db \<sigma>))" by (auto elim: transitionedE)
    with hoare_InrD [OF at_transition [where R = R and t = t, OF t] _ run] a
    show "(\<exists>u. t' = (apply_transition clk s m t)\<lparr>updatedAt := u\<rparr>) \<and> events (tabs (db \<sigma>')) = EV \<and>
        snapshot tabs (R(i \<mapsto> t')) (L(i := L i @ [entry i (currentState t) s g m])) cs \<sigma>'" by auto
  qed simp
qed

lemma save_processed_run:
  assumes "save_processed D clk e s = (r, s')" "event_by_id (tabs (db s)) (eventRecordId e) \<noteq> None"
  shows "redis s' = redis s \<and> charges s' = charges s \<and>
    (case r of Inl x \<Rightarrow> db_failure x \<and> tabs (db s') = tabs (db s)
     | Inr _ \<Rightarrow> tabs (db s') = put_event (mark_processed clk e) (tabs (db s)))"
proof -
  obtain x s1 where sv: "on_db (saveEvent D (mark_processed clk e)) s = (x, s1)" by fastforce
  with assms(1) have r: "r = (case x of Inl e \<Rightarrow> Inl e | Inr _ \<Rightarrow> Inr ())" "s' = s1"
    by (auto simp: save_processed_def andThen_def split: sum.splits)
  show ?thesis
  proof (cases x)
    case (Inl e')
    with sv implements_failD [OF saveEvent] r show ?thesis by (auto simp: on_db_eq)
  next
    case (Inr e')
    with sv implementsD [OF saveEvent, of "mark_processed clk e" "db s" e' "db s1"] r assms(2) show ?thesis
      by (simp add: on_db_eq)
  qed
qed

lemma put_event_views [simp]:
  "rows (put_event e T) = rows T" "logs (put_event e T) = logs T"
  by (simp_all add: rows_def logs_def fun_eq_iff)

text \<open>The part of \<open>processEvent\<close> that looks for the payment.\<close>

lemma match_run:
  assumes gid: "gid = extractGatewayTxnId (eventGateway e) (payload e)" "gid \<noteq> JNull"
    and run: "andThen (on_db (findTxnByGatewayOrKey D gid (payload_key (payload e)))) (\<lambda>txn. case txn of
         None \<Rightarrow> save_processed D clk e
       | Some t \<Rightarrow> andThen (driveToReconciled D clk t (eventGateway e) gid (payload e)) (\<lambda>_. save_processed D clk e)) s = (Inr (), s')"
    and here: "event_by_id (tabs (db s)) (eventRecordId e) \<noteq> None"
    and d: "distinct (map txnId (transactions (tabs (db s))))"
  shows "charges s' = charges s \<and>
    ((\<forall>t \<in> set (transactions (tabs (db s))). \<not> about e t) \<and> tabs (db s') = put_event (mark_processed clk e) (tabs (db s)) \<or>
     (\<exists>t. settles clk e t (tabs (db s)) (tabs (db s')) \<and> marks clk e (tabs (db s)) (tabs (db s'))))"
proof -
  let ?T = "tabs (db s)"
  from run obtain txn s2 where g: "on_db (findTxnByGatewayOrKey D gid (payload_key (payload e))) s = (Inr txn, s2)"
    and rest: "(case txn of
         None \<Rightarrow> save_processed D clk e
       | Some t \<Rightarrow> andThen (driveToReconciled D clk t (eventGateway e) gid (payload e)) (\<lambda>_. save_processed D clk e)) s2 = (Inr (), s')"
    by (rule andThen_InrD)
  from g have g': "findTxnByGatewayOrKey D gid (payload_key (payload e)) (db s) = (Inr txn, db s2)"
    and ch2: "charges s2 = charges s" by (simp_all add: on_db_eq)
  note law = implementsD [OF findTxnByGatewayOrKey g']
  then have T2: "tabs (db s2) = ?T" by simp
  show ?thesis
  proof (cases txn)
    case None
    with law gid have none: "\<forall>t \<in> set (transactions ?T). \<not> about e t" by (auto simp: about_def Let_def)
    from None rest have "save_processed D clk e s2 = (Inr (), s')" by simp
    from save_processed_run [OF this] here T2 ch2 none show ?thesis by simp
  next
    case (Some t)
    with law have t: "t \<in> set (transactions ?T)"
      "\<forall>x. gid = JStr x \<longrightarrow> gatewayTxnId t = gid \<or> idempotencyKey t = payload_key (payload e)" by auto
    note row = rows_member [OF t(1) d]
    from Some rest obtain s3 where dr: "driveToReconciled D clk t (eventGateway e) gid (payload e) s2 = (Inr (), s3)"
      and sv: "save_processed D clk e s3 = (Inr (), s')" by (auto elim: andThen_InrD)
    have "snapshot tabs (rows ?T) (logs ?T) (charges s) s2" by (simp add: snapshot_def T2 ch2)
    with hoare_InrD [OF driveToReconciled_triple [where P = "\<lambda>d. events (tabs d) = events ?T" and R = "rows ?T"
          and t = t, OF transition_triple_any row] _ dr, of "logs ?T"] T2
    obtain u where s3: "events (tabs (db s3)) = events ?T" "charges s3 = charges s"
      "rows (tabs (db s3)) = (rows ?T)(txnId t \<mapsto> hooked clk (eventGateway e) gid t u)"
      "logs (tabs (db s3)) = (logs ?T)(txnId t := logs ?T (txnId t) @
         hook_trail (txnId t) (eventGateway e) gid (payload e) (currentState t))"
      by (auto simp: hook_done_def snapshot_def)
    then have "event_by_id (tabs (db s3)) (eventRecordId e) \<noteq> None" using here by (simp add: event_by_id_def)
    from save_processed_run [OF sv this] have s': "tabs (db s') = put_event (mark_processed clk e) (tabs (db s3))"
      "charges s' = charges s" by (simp_all add: s3)
    have "settles clk e t ?T (tabs (db s'))"
      unfolding settles_def Let_def gid(1) [symmetric] using t gid s3 by (auto simp: s' about_def Let_def)
    moreover have "marks clk e ?T (tabs (db s'))" by (simp add: marks_def s' put_event_def s3)
    ultimately show ?thesis using s' by blast
  qed
qed

text \<open>A run that returns.\<close>

lemma processEvent_cases:
  assumes run: "processEvent D clk i s = (Inr (), s')" and d: "distinct (map txnId (transactions (tabs (db s))))"
  obtains (idle) "tabs (db s') = tabs (db s)" "charges s' = charges s"
      "case event_by_id (tabs (db s)) i of None \<Rightarrow> True | Some e \<Rightarrow> processed e"
  | (unmatched) e where "event_by_id (tabs (db s)) i = Some e" "\<not> processed e" "charges s' = charges s"
      "\<forall>t \<in> set (transactions (tabs (db s))). \<not> about e t"
      "tabs (db s') = put_event (mark_processed clk e) (tabs (db s))"
  | (settled) e t where "event_by_id (tabs (db s)) i = Some e" "\<not> processed e" "charges s' = charges s"
      "settles clk e t (tabs (db s)) (tabs (db s'))" "marks clk e (tabs (db s)) (tabs (db s'))"
proof -
  from run obtain found s1 where f: "on_db (findEvent D i) s = (Inr found, s1)"
    and rest: "(case found of None \<Rightarrow> ret ()
     | Some e \<Rightarrow>
         if processed e then ret ()
         else
           let gid = extractGatewayTxnId (eventGateway e) (payload e) in
           if gid = JNull then save_processed D clk e
           else
             andThen (on_db (findTxnByGatewayOrKey D gid (payload_key (payload e)))) (\<lambda>txn. case txn of
               None \<Rightarrow> save_processed D clk e
             | Some t \<Rightarrow>
                 andThen (driveToReconciled D clk t (eventGateway e) gid (payload e)) (\<lambda>_.
                 save_processed D clk e))) s1 = (Inr (), s')"
    unfolding processEvent_def by (rule andThen_InrD)
  from f implementsD [OF findEvent] have s1: "tabs (db s1) = tabs (db s)" "charges s1 = charges s"
    and found: "found = event_by_id (tabs (db s)) i"
    by (auto simp: on_db_eq)
  show thesis
  proof (cases "case found of None \<Rightarrow> True | Some e \<Rightarrow> processed e")
    case True
    with rest found s1 show thesis by (intro idle) (auto split: option.splits)
  next
    case False
    then obtain e where e: "event_by_id (tabs (db s)) i = Some e" "\<not> processed e"
      using found by (auto split: option.splits)
    then have here: "event_by_id (tabs (db s1)) (eventRecordId e) \<noteq> None" using event_by_id_id s1 by fastforce
    show thesis
    proof (cases "extractGatewayTxnId (eventGateway e) (payload e) = JNull")
      case True
      with rest found e have "save_processed D clk e s1 = (Inr (), s')" by simp
      from save_processed_run [OF this here] s1 e True show thesis
        by (intro unmatched [of e]) (auto simp: about_def)
    next
      case False
      with rest found e match_run [OF refl False _ here, where clk = clk and s' = s'] s1 d e unmatched settled show thesis
        by (auto simp: Let_def)
    qed
  qed
qed

end

end
