(* ===== verification/Ledger.thy ===== *)
theory Ledger
  imports Services
begin

text \<open>
  The abstract payment ledger: the atomic writes any process of the program makes to the
  database, as a step relation on the tables. A run of steps is an interleaving of any number
  of requests and workers; what it keeps holds under every interleaving. The methods refine
  it: each of them only performs these steps.
\<close>

subsection \<open>The steps\<close>

text \<open>
  \<open>moved\<close> is a call of the state machine, \<open>opened\<close> the insert of a payment, \<open>announced\<close> its
  creation entry, \<open>scored\<close> a write of a gateway's statistics, \<open>received\<close> the insert of a
  webhook event, \<open>handled\<close> the mark the worker sets on one.
\<close>

inductive ledger_step :: "tables \<Rightarrow> tables \<Rightarrow> bool" where
  moved: "transitioned c i s m T t' T' \<Longrightarrow> (m_incrementAttempt m \<longleftrightarrow> s = PROCESSING) \<Longrightarrow> ledger_step T T'"
| opened: "txn_by_key T (new_idempotencyKey n) = None \<Longrightarrow> txn_by_id T (txnId t) = None \<Longrightarrow>
    trail T (txnId t) = [] \<Longrightarrow> t = txn_row n i c u \<Longrightarrow> new_currentState n = INITIATED \<Longrightarrow>
    ledger_step T (T\<lparr>transactions := transactions T @ [t]\<rparr>)"
| announced: "fromState x = None \<Longrightarrow> toState x = INITIATED \<Longrightarrow> ledger_step T (T\<lparr>audit := audit T @ [x]\<rparr>)"
| scored: "ledger_step T (put_stats st T)"
| received: "\<not> event_key_used T (eventGateway e) (eventId e) \<Longrightarrow> event_by_id T (eventRecordId e) = None \<Longrightarrow>
    \<not> processed e \<Longrightarrow> ledger_step T (T\<lparr>events := events T @ [e]\<rparr>)"
| handled: "event_by_id T (eventRecordId e) = Some e \<Longrightarrow>
    ledger_step T (put_event (e\<lparr>processed := True, processedAt := Some c\<rparr>) T)"

inductive_cases ledger_stepE: "ledger_step T T'"

abbreviation ledger_run :: "tables \<Rightarrow> tables \<Rightarrow> bool" where
  "ledger_run \<equiv> ledger_step\<^sup>*\<^sup>*"

subsection \<open>What every interleaving keeps\<close>

text \<open>
  Rows are never deleted; their identity is fixed, their state moves along the lifecycle, the
  attempts only grow, and a row in a terminal state is never written again.
\<close>

definition evolved :: "transaction \<Rightarrow> transaction \<Rightarrow> bool" where
  "evolved t t' \<longleftrightarrow>
     txnId t' = txnId t \<and> idempotencyKey t' = idempotencyKey t \<and> merchantId t' = merchantId t \<and>
     amount t' = amount t \<and> currency t' = currency t \<and> createdAt t' = createdAt t \<and>
     fallbackGateways t' = fallbackGateways t \<and>
     lifecycle (currentState t) (currentState t') \<and> attemptCount t \<le> attemptCount t' \<and>
     (terminal (currentState t) \<longrightarrow> t' = t)"

lemma evolved_refl [simp]: "evolved t t"
  by (simp add: evolved_def lifecycle_refl)

lemma evolved_trans: "evolved a b \<Longrightarrow> evolved b c \<Longrightarrow> evolved a c"
  unfolding evolved_def by (auto intro: lifecycle_trans)

definition ledger_le :: "tables \<Rightarrow> tables \<Rightarrow> bool" where
  "ledger_le T T' \<longleftrightarrow>
     (\<forall>i t. txn_by_id T i = Some t \<longrightarrow> (\<exists>t'. txn_by_id T' i = Some t' \<and> evolved t t')) \<and>
     prefix (audit T) (audit T')"

lemma ledger_le_refl [simp]: "ledger_le T T"
  by (simp add: ledger_le_def)

lemma ledger_le_trans:
  assumes "ledger_le A B" "ledger_le B C"
  shows "ledger_le A C"
  unfolding ledger_le_def
proof (intro conjI allI impI)
  fix i t
  assume "txn_by_id A i = Some t"
  with assms obtain t1 t2 where "txn_by_id C i = Some t2" "evolved t t1" "evolved t1 t2"
    unfolding ledger_le_def by metis
  then show "\<exists>t'. txn_by_id C i = Some t' \<and> evolved t t'" by (auto intro: evolved_trans)
qed (use assms in \<open>auto simp: ledger_le_def\<close>)

lemma apply_transition_evolved:
  assumes "can_transition (currentState t) s"
  shows "evolved t ((apply_transition c s m t)\<lparr>updatedAt := u\<rparr>)"
proof -
  have "\<not> terminal (currentState t)" using assms by (auto simp: terminal_def can_transition_def)
  moreover have "lifecycle (currentState t) s" using assms by (auto intro: lifecycle.intros)
  ultimately show ?thesis by (simp add: evolved_def)
qed

lemma ledger_step_le: "ledger_step T T' \<Longrightarrow> ledger_le T T'"
proof (induction rule: ledger_step.induct)
  case (moved c i s m T t' T')
  from moved(1) obtain t u ai ac where t: "txn_by_id T i = Some t" "can_transition (currentState t) s"
      "t' = (apply_transition c s m t)\<lparr>updatedAt := u\<rparr>"
    and au: "audit T' = audit T @ [audit_row (transition_audit t' (currentState t) s m) ai ac]"
    by (rule transitionedE) blast
  from t have "evolved t t'" by (simp add: apply_transition_evolved)
  with t(1) au show ?case
    by (auto simp: ledger_le_def transitioned_by_id [OF moved(1)])
next
  case (opened T n t i c u)
  then show ?case by (auto simp: ledger_le_def txn_by_id_def find_append)
qed (auto simp: ledger_le_def txn_by_id_def [of "_\<lparr>audit := _\<rparr>"] txn_by_id_def [of "_\<lparr>events := _\<rparr>"]
      simp flip: txn_by_id_def)

lemma ledger_run_le: "ledger_run T T' \<Longrightarrow> ledger_le T T'"
  by (induction rule: rtranclp_induct) (auto intro: ledger_le_trans ledger_step_le)

text \<open>The consistency of the tables.\<close>

definition sound_ledger :: "tables \<Rightarrow> bool" where
  "sound_ledger T \<longleftrightarrow>
     distinct (map txnId (transactions T)) \<and> distinct (map idempotencyKey (transactions T)) \<and>
     distinct (map eventRecordId (events T)) \<and> distinct (map (\<lambda>e. (eventGateway e, eventId e)) (events T)) \<and>
     attempts_logged T \<and>
     (\<forall>t \<in> set (transactions T). finalReconciledAt t \<noteq> None \<longleftrightarrow> currentState t = RECONCILED)"

lemma map_put_event:
  assumes "event_by_id T (eventRecordId e) = Some e0" "distinct (map eventRecordId (events T))" "f e0 = f e"
  shows "map f (events (put_event e T)) = map f (events T)"
proof -
  from assms(1) have e0: "e0 \<in> set (events T)" "eventRecordId e0 = eventRecordId e"
    by (auto simp: event_by_id_def dest: find_SomeD)
  have "f r = f e" if "r \<in> set (events T)" "eventRecordId r = eventRecordId e" for r
  proof -
    have "r = e0" using inj_onD [of eventRecordId "set (events T)" r e0] assms(2) e0 that
      by (simp add: distinct_map)
    with assms(3) show ?thesis by simp
  qed
  then show ?thesis unfolding put_event_def by simp
qed

lemma trail_transactions [simp]: "trail (T\<lparr>transactions := ts\<rparr>) i = trail T i"
  by (simp add: trail_def)

lemma trail_events [simp]: "trail (T\<lparr>events := es\<rparr>) i = trail T i"
  by (simp add: trail_def)

lemma ledger_step_sound: "ledger_step T T' \<Longrightarrow> sound_ledger T \<Longrightarrow> sound_ledger T'"
proof (induction rule: ledger_step.induct)
  case (moved c i s m T t' T')
  from moved(1) obtain t u where t: "t \<in> set (transactions T)" "txnId t' = i" "can_transition (currentState t) s"
      "t' = (apply_transition c s m t)\<lparr>updatedAt := u\<rparr>"
    and T': "transactions T' = transactions (put_txn t' T)" "events T' = events T"
    by (rule transitionedE) blast
  have "finalReconciledAt r \<noteq> None \<longleftrightarrow> currentState r = RECONCILED" if "r \<in> set (transactions T')" for r
  proof (cases "r = t'")
    case True
    with moved(3) t show ?thesis by (auto simp: sound_ledger_def can_transition_iff)
  next
    case False
    with that set_put_txn [of t' T] moved(3) show ?thesis by (auto simp: sound_ledger_def T')
  qed
  with moved transitioned_columns [OF moved(1)] T' transitioned_attempts_logged [OF moved(1)]
  show ?case by (simp add: sound_ledger_def)
next
  case (opened T n t i c u)
  then have "txnId t \<notin> txnId ` set (transactions T)" "idempotencyKey t \<notin> idempotencyKey ` set (transactions T)"
    "attemptCount t = 0" "finalReconciledAt t = None" "currentState t = INITIATED"
    by (auto simp: txn_by_id_def txn_by_key_def find_None_iff' txn_row_def)
  with opened show ?case
    by (auto simp: sound_ledger_def attempts_logged_def processing_entries_def)
next
  case (announced x T)
  then show ?case by (auto simp: sound_ledger_def attempts_logged_def processing_entries_def)
next
  case (scored T st)
  then show ?case by (simp add: sound_ledger_def attempts_logged_def)
next
  case (received T e)
  then have "eventRecordId e \<notin> eventRecordId ` set (events T)"
    "(eventGateway e, eventId e) \<notin> (\<lambda>e. (eventGateway e, eventId e)) ` set (events T)"
    by (auto simp: event_by_id_def event_key_used_def find_None_iff')
  with received show ?case by (auto simp: sound_ledger_def attempts_logged_def)
next
  case (handled T e c)
  let ?e = "e\<lparr>processed := True, processedAt := Some c\<rparr>"
  from handled have d: "distinct (map eventRecordId (events T))" and e: "event_by_id T (eventRecordId ?e) = Some e"
    by (simp_all add: sound_ledger_def)
  have "map eventRecordId (events (put_event ?e T)) = map eventRecordId (events T)"
    by (rule map_put_event [OF e d]) simp
  moreover have "map (\<lambda>e. (eventGateway e, eventId e)) (events (put_event ?e T)) = map (\<lambda>e. (eventGateway e, eventId e)) (events T)"
    by (rule map_put_event [OF e d]) simp
  ultimately show ?case using handled(2) by (simp add: sound_ledger_def attempts_logged_def)
qed

lemma ledger_run_sound: "ledger_run T T' \<Longrightarrow> sound_ledger T \<Longrightarrow> sound_ledger T'"
  by (induction rule: rtranclp_induct) (auto intro: ledger_step_sound)

text \<open>An event is stored once: its key stays taken.\<close>

lemma ledger_run_event_keys:
  assumes "ledger_run T T'" "sound_ledger T" "event_key_used T g k"
  shows "event_key_used T' g k"
proof -
  have used: "event_key_used T g k \<longleftrightarrow> (g, k) \<in> set (map (\<lambda>e. (eventGateway e, eventId e)) (events T))" for T
    by (auto simp: event_key_used_def)
  have "(g, k) \<in> set (map (\<lambda>e. (eventGateway e, eventId e)) (events B))"
    if "ledger_step A B" "sound_ledger A" "(g, k) \<in> set (map (\<lambda>e. (eventGateway e, eventId e)) (events A))" for A B
    using that
  proof (induction rule: ledger_step.induct)
    case (moved c i s m T t' T')
    from moved(1) have "events T' = events T" by (rule transitionedE)
    with moved show ?case by simp
  next
    case (handled T e c)
    let ?e = "e\<lparr>processed := True, processedAt := Some c\<rparr>"
    have "map (\<lambda>e. (eventGateway e, eventId e)) (events (put_event ?e T)) = map (\<lambda>e. (eventGateway e, eventId e)) (events T)"
      by (rule map_put_event [where ?e0.0 = e]) (use handled in \<open>simp_all add: sound_ledger_def\<close>)
    with handled show ?case by simp
  qed simp_all
  with assms show ?thesis
    unfolding used by (induction rule: rtranclp_induct) (auto intro: ledger_run_sound)
qed

subsection \<open>A payment trail_settles once\<close>

text \<open>
  How often the trail of a payment records a move to a state. Success, failure and
  reconciliation are recorded exactly when the row says so, and never twice.
\<close>

definition visits :: "audit_log list \<Rightarrow> TransactionState \<Rightarrow> nat" where
  "visits L s = length (filter (\<lambda>a. toState a = s) L)"

definition trail_settles :: "audit_log list \<Rightarrow> TransactionState \<Rightarrow> bool" where
  "trail_settles L s \<longleftrightarrow> visits L RECONCILED = of_bool (s = RECONCILED) \<and>
     visits L SUCCESS = of_bool (s = SUCCESS \<or> s = RECONCILED) \<and> visits L FAILED = of_bool (s = FAILED)"

definition settled_once :: "tables \<Rightarrow> bool" where
  "settled_once T \<longleftrightarrow> (\<forall>i t. txn_by_id T i = Some t \<longrightarrow> trail_settles (trail T i) (currentState t))"

lemma visits_append: "visits (L @ [a]) s = visits L s + of_bool (toState a = s)"
  by (simp add: visits_def)

lemma trail_settles_new: "trail_settles [] INITIATED"
  by (simp add: trail_settles_def visits_def)

lemma trail_settles_creation: "toState a = INITIATED \<Longrightarrow> trail_settles (L @ [a]) s = trail_settles L s"
  by (simp add: trail_settles_def visits_append)

lemma trail_settles_move:
  "trail_settles L q \<Longrightarrow> can_transition q s \<Longrightarrow> toState a = s \<Longrightarrow> trail_settles (L @ [a]) s"
  by (auto simp: trail_settles_def visits_append can_transition_iff)

lemma ledger_step_settled: "ledger_step T T' \<Longrightarrow> settled_once T \<Longrightarrow> settled_once T'"
proof (induction rule: ledger_step.induct)
  case (moved c i s m T t' T')
  from moved(1) obtain t u ai ac where t: "txn_by_id T i = Some t" "can_transition (currentState t) s"
      "t' = (apply_transition c s m t)\<lparr>updatedAt := u\<rparr>"
    and tr: "\<And>j. trail T' j = trail T j @ (if j = i then [audit_row (transition_audit t' (currentState t) s m) ai ac] else [])"
    by (rule transitionedE) blast
  from moved.prems t(1) have "trail_settles (trail T i) (currentState t)" by (simp add: settled_once_def)
  from trail_settles_move [OF this t(2)] have "trail_settles (trail T' i) (currentState t')"
    by (simp add: tr t(3) audit_row_def transition_audit_def)
  with moved.prems show ?case by (simp add: settled_once_def transitioned_by_id [OF moved(1)] tr)
next
  case (opened T n t i c u)
  have t: "currentState t = INITIATED" using opened by (simp add: txn_row_def)
  have row: "txn_by_id (T\<lparr>transactions := transactions T @ [t]\<rparr>) j = (if j = txnId t then Some t else txn_by_id T j)" for j
    using opened(2) by (auto simp: txn_by_id_def find_append split: option.split)
  show ?case
    unfolding settled_once_def row
    using opened.prems opened(3) by (simp add: settled_once_def trail_settles_new t)
next
  case (announced x T)
  then show ?case by (auto simp: settled_once_def txn_by_id_def trail_def trail_settles_creation)
qed (simp_all add: settled_once_def txn_by_id_def)

lemma ledger_run_settled: "ledger_run T T' \<Longrightarrow> settled_once T \<Longrightarrow> settled_once T'"
  by (induction rule: rtranclp_induct) (auto intro: ledger_step_settled)

subsection \<open>Events are never lost\<close>

text \<open>
  The columns of an event but the marks of the worker. A copy that was read stays a copy of
  the stored event up to the marks, whoever handles the event in the meantime.
\<close>

definition unmarked :: "webhook_event \<Rightarrow> webhook_event" where
  "unmarked e = e\<lparr>processed := False, processedAt := None\<rparr>"

lemma unmarked_simps [simp]:
  "unmarked (e\<lparr>processed := b\<rparr>) = unmarked e" "unmarked (e\<lparr>processedAt := c\<rparr>) = unmarked e"
  "eventRecordId (unmarked e) = eventRecordId e"
  by (simp_all add: unmarked_def)

lemma unmarked_marked:
  "unmarked e = unmarked e' \<Longrightarrow> e\<lparr>processed := b, processedAt := c\<rparr> = e'\<lparr>processed := b, processedAt := c\<rparr>"
  by (cases e; cases e') (simp add: unmarked_def)

definition event_known :: "tables \<Rightarrow> webhook_event \<Rightarrow> bool" where
  "event_known T e \<longleftrightarrow> (\<exists>e0. event_by_id T (eventRecordId e) = Some e0 \<and> unmarked e0 = unmarked e)"

lemma event_known_put:
  assumes "event_by_id T (eventRecordId e1) = Some e1" "unmarked e2 = unmarked e1" "event_known T e"
  shows "event_known (put_event e2 T) e"
proof -
  have i: "eventRecordId e2 = eventRecordId e1" using arg_cong [OF assms(2), of eventRecordId] by simp
  with assms show ?thesis
    by (cases "eventRecordId e = eventRecordId e1") (auto simp: event_known_def event_by_id_put_event)
qed

lemma ledger_step_known: "ledger_step T T' \<Longrightarrow> event_known T e \<Longrightarrow> event_known T' e"
proof (induction rule: ledger_step.induct)
  case (moved c i s m T t' T')
  from moved(1) have "events T' = events T" by (rule transitionedE)
  with moved(3) show ?case by (simp only: event_known_def event_by_id_def)
next
  case (received T e')
  then show ?case by (auto simp: event_known_def event_by_id_def find_append)
next
  case (handled T e' c)
  then show ?case by (intro event_known_put [of T e']) simp_all
qed (simp_all add: event_known_def event_by_id_def)

lemma ledger_run_known: "ledger_run T T' \<Longrightarrow> event_known T e \<Longrightarrow> event_known T' e"
  by (induction rule: rtranclp_induct) (auto intro: ledger_step_known)

subsection \<open>Methods that only perform steps\<close>

definition ledgered :: "tables \<Rightarrow> ('d \<Rightarrow> tables) \<Rightarrow> ('d, 'r) node \<Rightarrow> bool" where
  "ledgered T0 tabs s \<longleftrightarrow> ledger_run T0 (tabs (db s))"

lemma ledgered_step: "ledgered T0 tabs s \<Longrightarrow> ledger_step (tabs (db s)) (tabs (db s')) \<Longrightarrow> ledgered T0 tabs s'"
  by (auto simp: ledgered_def intro: rtranclp.rtrancl_into_rtrancl)

lemma ledgered_same: "ledgered T0 tabs s \<Longrightarrow> tabs (db s') = tabs (db s) \<Longrightarrow> ledgered T0 tabs s'"
  by (simp add: ledgered_def)

lemma keeps_ledgeredI:
  assumes "\<And>d r d'. m d = (r, d') \<Longrightarrow> ledger_run (tabs d) (tabs d')"
  shows "keeps (ledgered T0 tabs) (on_db m)"
  using assms by (intro keepsI) (auto simp: on_db_eq ledgered_def intro: rtranclp_trans)

lemma keeps_ledgered_on_redis: "keeps (ledgered T0 tabs) (on_redis m)"
  by (rule keepsI) (auto simp: on_redis_eq intro: ledgered_same)

text \<open>
  A database that other processes use at the same time: all a caller sees is that the tables
  make steps of the ledger, that an insert of a payment took place at a moment when its key
  was free, and that the statistics were read at some moment.
\<close>

locale shared_database =
  fixes D :: "'d orm" and tabs :: "'d \<Rightarrow> tables"
  assumes run_findTxnById: "findTxnById D i d = (r1, d') \<Longrightarrow> ledger_run (tabs d) (tabs d')"
    and run_findTxnByKey: "findTxnByKey D k d = (r1, d') \<Longrightarrow> ledger_run (tabs d) (tabs d')"
    and run_findTxnByGatewayOrKey: "findTxnByGatewayOrKey D j k d = (r1, d') \<Longrightarrow> ledger_run (tabs d) (tabs d')"
    and run_findAudit: "findAudit D i d = (r2, d') \<Longrightarrow> ledger_run (tabs d) (tabs d')"
    and run_findStats: "findStats D d = (r3, d') \<Longrightarrow> ledger_run (tabs d) (tabs d')"
    and run_findStatsOf: "findStatsOf D g d = (r4, d') \<Longrightarrow> ledger_run (tabs d) (tabs d')"
    and run_saveStats: "saveStats D st d = (r5, d') \<Longrightarrow> ledger_run (tabs d) (tabs d')"
    and run_insertTxn: "insertTxn D n d = (r6, d') \<Longrightarrow> new_currentState n = INITIATED \<Longrightarrow> ledger_run (tabs d) (tabs d')"
    and run_insertAudit: "insertAudit D na d = (r7, d') \<Longrightarrow> new_fromState na = None \<Longrightarrow> new_toState na = INITIATED \<Longrightarrow>
      ledger_run (tabs d) (tabs d')"
    and run_insertEvent: "insertEvent D ne d = (r8, d') \<Longrightarrow> \<not> new_processed ne \<Longrightarrow> ledger_run (tabs d) (tabs d')"
    and run_transition: "transition D c i s m d = (r9, d') \<Longrightarrow> (m_incrementAttempt m \<longleftrightarrow> s = PROCESSING) \<Longrightarrow>
      ledger_run (tabs d) (tabs d')"
    and run_saveEvent: "saveEvent D (e\<lparr>processed := True, processedAt := Some c\<rparr>) d = (r10, d') \<Longrightarrow> event_known (tabs d) e \<Longrightarrow>
      ledger_run (tabs d) (tabs d')"
    and findEvent_moment: "findEvent D i d = (r11, d') \<Longrightarrow>
      \<exists>T. ledger_run (tabs d) T \<and> ledger_run T (tabs d') \<and> (case r11 of Inl _ \<Rightarrow> True | Inr found \<Rightarrow> found = event_by_id T i)"
    and insertTxn_moment: "insertTxn D n d = (Inr t, d') \<Longrightarrow> new_currentState n = INITIATED \<Longrightarrow>
      \<exists>T. ledger_run (tabs d) T \<and> txn_by_key T (new_idempotencyKey n) = None \<and> txn_by_id T (txnId t) = None \<and>
        (\<exists>i c u. t = txn_row n i c u) \<and> ledger_step T (T\<lparr>transactions := transactions T @ [t]\<rparr>) \<and>
        ledger_run (T\<lparr>transactions := transactions T @ [t]\<rparr>) (tabs d')"
    and findStats_moment: "findStats D d = (Inr sts, d') \<Longrightarrow> \<exists>T. ledger_run (tabs d) T \<and> mset sts = mset (stats T)"
begin

lemma keeps_ledgered:
  "keeps (ledgered T0 tabs) (on_db (findTxnById D i))" "keeps (ledgered T0 tabs) (on_db (findTxnByKey D k))"
  "keeps (ledgered T0 tabs) (on_db (findTxnByGatewayOrKey D j k))"
  "keeps (ledgered T0 tabs) (on_db (findAudit D i))" "keeps (ledgered T0 tabs) (on_db (findStats D))"
  "keeps (ledgered T0 tabs) (on_db (findStatsOf D g))" "keeps (ledgered T0 tabs) (on_db (saveStats D st))"
  "keeps (ledgered T0 tabs) (on_redis m)"
  by (rule keeps_ledgeredI keeps_ledgered_on_redis,
      (erule run_findTxnById run_findTxnByKey run_findTxnByGatewayOrKey run_findAudit run_findStats run_findStatsOf run_saveStats)?)+

lemma keeps_ledgered_insertTxn:
  "new_currentState n = INITIATED \<Longrightarrow> keeps (ledgered T0 tabs) (on_db (insertTxn D n))"
  by (rule keeps_ledgeredI) (rule run_insertTxn)

lemma keeps_ledgered_insertAudit:
  "new_fromState n = None \<Longrightarrow> new_toState n = INITIATED \<Longrightarrow> keeps (ledgered T0 tabs) (on_db (insertAudit D n))"
  by (rule keeps_ledgeredI) (rule run_insertAudit)

lemma keeps_ledgered_insertEvent:
  "\<not> new_processed n \<Longrightarrow> keeps (ledgered T0 tabs) (on_db (insertEvent D n))"
  by (rule keeps_ledgeredI) (rule run_insertEvent)

lemma keeps_ledgered_transition:
  "(m_incrementAttempt m \<longleftrightarrow> s = PROCESSING) \<Longrightarrow> keeps (ledgered T0 tabs) (on_db (transition D c i s m))"
  by (rule keeps_ledgeredI) (rule run_transition)

end

text \<open>A database of one's own is a special case.\<close>

context database
begin

lemma reading_run:
  assumes "implements tabs m (\<lambda>T x T'. T' = T \<and> W T x)" "m d = (r, d')"
  shows "ledger_run (tabs d) (tabs d')"
  using assms by (cases r) (auto dest: implementsD [OF assms(1)] implements_failD(2) [OF assms(1)])

lemma writing_run:
  assumes "implements tabs m W" "\<And>T x T'. W T x T' \<Longrightarrow> ledger_step T T'" "m d = (r, d')"
  shows "ledger_run (tabs d) (tabs d')"
proof (cases r)
  case (Inl e)
  with assms(1,3) implements_failD(2) [of tabs m W d e d'] show ?thesis by simp
next
  case (Inr x)
  with assms(2) [OF implementsD [OF assms(1)], of d x d'] assms(3) show ?thesis by blast
qed

lemma insertTxn_run:
  assumes "insertTxn D n d = (r, d')" "new_currentState n = INITIATED"
  shows "ledger_run (tabs d) (tabs d')"
  using insertTxn _ assms(1) by (rule writing_run) (use assms(2) in \<open>auto intro: ledger_step.opened\<close>)

lemma insertAudit_run:
  assumes "insertAudit D n d = (r, d')" "new_fromState n = None" "new_toState n = INITIATED"
  shows "ledger_run (tabs d) (tabs d')"
  using insertAudit _ assms(1)
  by (rule writing_run) (use assms(2,3) in \<open>auto simp: audit_row_def intro: ledger_step.announced\<close>)

lemma saveStats_run: "saveStats D st d = (r, d') \<Longrightarrow> ledger_run (tabs d) (tabs d')"
  by (erule writing_run [OF saveStats, rotated]) (auto intro: ledger_step.scored)

lemma insertEvent_run_ledger:
  assumes "insertEvent D n d = (r, d')" "\<not> new_processed n"
  shows "ledger_run (tabs d) (tabs d')"
  using insertEvent _ assms(1)
proof (rule writing_run)
  fix T e T'
  assume "\<not> event_key_used T (new_eventGateway n) (new_eventId n) \<and> event_by_id T (eventRecordId e) = None \<and>
    (\<exists>i c. e = event_row n i c) \<and> T' = T\<lparr>events := events T @ [e]\<rparr>"
  moreover from this have "eventGateway e = new_eventGateway n" "eventId e = new_eventId n" "\<not> processed e"
    using assms(2) by (auto simp: event_row_def)
  ultimately show "ledger_step T T'" by (auto intro: ledger_step.received)
qed

lemma transition_run:
  assumes "transition D c i s m d = (r, d')" "m_incrementAttempt m \<longleftrightarrow> s = PROCESSING"
  shows "ledger_run (tabs d) (tabs d')"
proof (cases r)
  case (Inl e)
  with assms sm.move_fail show ?thesis by (metis rtranclp.rtrancl_refl)
next
  case (Inr t)
  with assms sm.move_ok show ?thesis by (blast intro: ledger_step.moved)
qed

lemma saveEvent_run:
  assumes "saveEvent D (e\<lparr>processed := True, processedAt := Some c\<rparr>) d = (r, d')" "event_known (tabs d) e"
  shows "ledger_run (tabs d) (tabs d')"
proof (cases r)
  case (Inl x)
  with assms(1) implements_failD(2) [OF saveEvent] show ?thesis by (metis rtranclp.rtrancl_refl)
next
  case (Inr e')
  from assms(2) obtain e0 where e0: "event_by_id (tabs d) (eventRecordId e) = Some e0" "unmarked e0 = unmarked e"
    by (auto simp: event_known_def)
  let ?e = "e\<lparr>processed := True, processedAt := Some c\<rparr>"
  have "?e = e0\<lparr>processed := True, processedAt := Some c\<rparr>" using unmarked_marked [OF e0(2)] by simp
  moreover have "tabs d' = put_event ?e (tabs d)"
    using implementsD [OF saveEvent, of _ d e' d'] assms(1) Inr e0(1) by simp
  moreover have "event_by_id (tabs d) (eventRecordId e0) = Some e0" using e0(1) event_by_id_id [OF e0(1)] by simp
  ultimately show ?thesis by (metis ledger_step.handled r_into_rtranclp)
qed

lemma findEvent_now:
  assumes "findEvent D i d = (r, d')"
  shows "\<exists>T. ledger_run (tabs d) T \<and> ledger_run T (tabs d') \<and> (case r of Inl _ \<Rightarrow> True | Inr found \<Rightarrow> found = event_by_id T i)"
  using assms implementsD [OF findEvent] implements_failD(2) [OF findEvent]
  by (intro exI [of _ "tabs d"]) (cases r; fastforce)

lemma insertTxn_now:
  assumes "insertTxn D n d = (Inr t, d')" "new_currentState n = INITIATED"
  shows "\<exists>T. ledger_run (tabs d) T \<and> txn_by_key T (new_idempotencyKey n) = None \<and> txn_by_id T (txnId t) = None \<and>
    (\<exists>i c u. t = txn_row n i c u) \<and> ledger_step T (T\<lparr>transactions := transactions T @ [t]\<rparr>) \<and>
    ledger_run (T\<lparr>transactions := transactions T @ [t]\<rparr>) (tabs d')"
  using implementsD [OF insertTxn assms(1)] assms(2)
  by (intro exI [of _ "tabs d"]) (auto intro: ledger_step.opened)

lemma findStats_now:
  assumes "findStats D d = (Inr sts, d')"
  shows "\<exists>T. ledger_run (tabs d) T \<and> mset sts = mset (stats T)"
  using implementsD [OF findStats assms] by (intro exI [of _ "tabs d"]) simp

end

sublocale database \<subseteq> shared: shared_database D tabs
  by unfold_locales
    (erule reading_run [OF findTxnById] reading_run [OF findTxnByKey] reading_run [OF findTxnByGatewayOrKey] reading_run [OF findAudit] reading_run [OF findStats]
       reading_run [OF findStatsOf] saveStats_run findStats_now findEvent_now
     | erule (1) saveEvent_run insertTxn_run insertTxn_now insertEvent_run_ledger transition_run | erule (2) insertAudit_run)+

end
