(* ===== verification/Refinement.thy ===== *)
theory Refinement
  imports Idempotency Settlement Ledger
begin

text \<open>
  The program refines the ledger: whatever a request, a webhook or the worker does, and
  wherever it fails, the tables have only made the steps of \<open>Ledger\<close>. What every run of
  steps keeps therefore holds of the service.
\<close>

subsection \<open>Requests\<close>

lemma keeps_ledgered_call_gateway: "keeps (ledgered T0 tabs) (call_gateway w key dto i g)"
  by (rule keepsI) (auto simp: call_gateway_def intro: ledgered_same)

context shared_database
begin

lemma keeps_ledgered_candidate_of: "keeps (ledgered T0 tabs) (candidate_of D C amt st)"
  unfolding candidate_of_def by (intro keeping keeps_ledgered)

lemma keeps_ledgered_getRankedGateways: "keeps (ledgered T0 tabs) (getRankedGateways env D C amt)"
proof -
  have "keeps (ledgered T0 tabs) (promise_all (map (candidate_of D C amt) sts))" for sts
    by (rule keeps_promise_all) (auto intro: keeps_ledgered_candidate_of)
  then show ?thesis
    unfolding getRankedGateways_def Let_def by (intro keeping keeps_ledgered)
qed

lemma keeps_ledgered_record:
  "keeps (ledgered T0 tabs) (recordSuccess D C g l)" "keeps (ledgered T0 tabs) (recordFailure D C g l)"
  unfolding recordSuccess_def recordFailure_def Let_def by (intro keeping keeps_ledgered)+

lemma keeps_ledgered_remember: "keeps (ledgered T0 tabs) (remember C key t)"
  unfolding remember_def by (rule keeps_ledgered_on_redis)

lemma keeps_ledgered_execute: "keeps (ledgered T0 tabs) (execute w D C key dto i e gs)"
proof (induction gs arbitrary: e)
  case Nil
  show ?case unfolding execute.simps by (rule keeps_throw)
next
  case (Cons g gs)
  show ?case
    unfolding execute.simps
    by (intro keeping keeps_ledgered_record keeps_ledgered_remember keeps_ledgered_call_gateway
        keeps_ledgered_transition Cons.IH) simp_all
qed

lemma keeps_ledgered_create: "keeps (ledgered T0 tabs) (create w D C key dto)"
proof -
  have new: "keeps (ledgered T0 tabs) (on_db (insertTxn D (new_payment key dto g gs)))"
    "keeps (ledgered T0 tabs) (on_db (insertAudit D (creation_audit t g)))" for g gs t
    by (rule keeps_ledgered_insertTxn keeps_ledgered_insertAudit; simp add: new_payment_def creation_audit_def)+
  show ?thesis
    unfolding create_def create_with_lock_def create_without_lock_def answer_existing_def
    by (intro keeping new keeps_ledgered keeps_ledgered_execute keeps_ledgered_getRankedGateways keeps_ledgered_remember)
qed

lemma keeps_ledgered_post_payment: "keeps (ledgered T0 tabs) (post_payment w D C dto h)"
  unfolding post_payment_def Let_def by (intro keeping keeps_ledgered_create)

subsection \<open>Webhooks\<close>

lemma keeps_ledgered_ingest: "keeps (ledgered T0 tabs) (ingest D C ev)"
proof -
  have "keeps (ledgered T0 tabs) (on_db (insertEvent D (stored_event ev)))"
    by (rule keeps_ledgered_insertEvent) (simp add: stored_event_def)
  then show ?thesis
    unfolding ingest_def pushEvent_def by (intro keeping keeps_ledgered_on_redis)
qed

lemma keeps_ledgered_webhook: "keeps (ledgered T0 tabs) (webhook g w D C req)"
  using webhook_cases [of g w D C req]
  by cases (simp_all only: keeps_ret keeps_andThen keeps_ledgered_ingest)

end

subsection \<open>The worker\<close>

text \<open>
  While an event is processed the copy the worker has read stays a copy of the stored event,
  up to the marks another worker may have set.
\<close>

definition holding :: "tables \<Rightarrow> ('d \<Rightarrow> tables) \<Rightarrow> webhook_event \<Rightarrow> ('d, 'r) node \<Rightarrow> bool" where
  "holding T0 tabs e s \<longleftrightarrow> ledgered T0 tabs s \<and> event_known (tabs (db s)) e"

lemma keeps_holding:
  assumes "\<And>T0. keeps (ledgered T0 tabs) m"
  shows "keeps (holding T0 tabs e) m"
proof (rule keepsI)
  fix s r s'
  assume h: "holding T0 tabs e s" and run: "m s = (r, s')"
  have "ledgered (tabs (db s)) tabs s" by (simp add: ledgered_def)
  from keepsD [OF assms this run] have "ledger_run (tabs (db s)) (tabs (db s'))" by (simp add: ledgered_def)
  with h show "holding T0 tabs e s'" by (auto simp: holding_def ledgered_def intro: ledger_run_known rtranclp_trans)
qed

lemma hoare_holding:
  assumes "\<And>T0. keeps (ledgered T0 tabs) m"
  shows "hoare (holding T0 tabs e) m (\<lambda>_. holding T0 tabs e) (\<lambda>_. ledgered T0 tabs)"
proof -
  have "keeps (holding T0 tabs e) m" by (rule keeps_holding [OF assms])
  then show ?thesis by (rule hoare_conseq) (auto simp: holding_def)
qed

context shared_database
begin

lemma keeps_ledgered_drive: "keeps (ledgered T0 tabs) (driveToReconciled D clk t g gid raw)"
proof -
  have adv: "keeps (ledgered T0 tabs) (advance D clk i a b m s)" if "m_incrementAttempt m \<longleftrightarrow> b = PROCESSING" for i a b m s
    unfolding advance_def by (intro keeping keeps_ledgered_transition that)
  show ?thesis
    unfolding driveToReconciled_def Let_def by (intro keeping adv) simp_all
qed

lemma save_processed_ledgered:
  "hoare (holding T0 tabs e) (save_processed D clk e) (\<lambda>_. ledgered T0 tabs) (\<lambda>_. ledgered T0 tabs)"
proof -
  have "ledgered T0 tabs s'" if "holding T0 tabs e s" "on_db (saveEvent D (mark_processed clk e)) s = (r, s')"
    for r s and s' :: "('d, 'r) node"
    using that run_saveEvent [where e = e and c = clk and d = "db s" and d' = "db s'"]
    by (auto simp: on_db_eq holding_def ledgered_def mark_processed_def intro: rtranclp_trans)
  then have "hoare (holding T0 tabs e) (on_db (saveEvent D (mark_processed clk e))) (\<lambda>_. ledgered T0 tabs) (\<lambda>_. ledgered T0 tabs)"
    by (blast intro: hoareI)
  then show ?thesis unfolding save_processed_def by (rule hoare_andThen [OF keeps_ret])
qed

text \<open>The handling of one event, after it has been read.\<close>

lemma handle_ledgered:
  "hoare (holding T0 tabs e)
     (let gid = extractGatewayTxnId (eventGateway e) (payload e) in
      if gid = JNull then save_processed D clk e
      else andThen (on_db (findTxnByGatewayOrKey D gid (payload_key (payload e)))) (\<lambda>txn. case txn of
          None \<Rightarrow> save_processed D clk e
        | Some t \<Rightarrow> andThen (driveToReconciled D clk t (eventGateway e) gid (payload e)) (\<lambda>_. save_processed D clk e)))
     (\<lambda>_. ledgered T0 tabs) (\<lambda>_. ledgered T0 tabs)"
proof -
  have drive: "hoare (holding T0 tabs e)
      (andThen (driveToReconciled D clk t g gid raw) (\<lambda>_. save_processed D clk e))
      (\<lambda>_. ledgered T0 tabs) (\<lambda>_. ledgered T0 tabs)" for t g gid raw
    by (rule hoare_andThen [OF save_processed_ledgered hoare_holding [OF keeps_ledgered_drive]])
  show ?thesis
    unfolding Let_def
    by (auto intro!: hoare_andThen [OF _ hoare_holding [OF keeps_ledgered(3)]] save_processed_ledgered drive split: option.split)
qed

text \<open>The copy a worker reads is known from that moment on.\<close>

lemma findEvent_holding:
  "hoare (ledgered T0 tabs) (on_db (findEvent D i))
     (\<lambda>found s. case found of None \<Rightarrow> ledgered T0 tabs s | Some e \<Rightarrow> holding T0 tabs e s) (\<lambda>_. ledgered T0 tabs)"
proof (rule hoareI)
  fix s found and s' :: "('d, 'r) node"
  assume l: "ledgered T0 tabs s" and run: "on_db (findEvent D i) s = (Inr found, s')"
  then obtain T where T: "ledger_run (tabs (db s)) T" "ledger_run T (tabs (db s'))" "found = event_by_id T i"
    using findEvent_moment [of i "db s" "Inr found" "db s'"] by (auto simp: on_db_eq)
  with l have l': "ledgered T0 tabs s'" by (auto simp: ledgered_def)
  have "event_known (tabs (db s')) e" if "found = Some e" for e
    using that T event_by_id_id [of T i e] by (intro ledger_run_known [OF T(2)]) (auto simp: event_known_def)
  with l' show "case found of None \<Rightarrow> ledgered T0 tabs s' | Some e \<Rightarrow> holding T0 tabs e s'"
    by (simp add: holding_def split: option.split)
next
  fix s x and s' :: "('d, 'r) node"
  assume "ledgered T0 tabs s" "on_db (findEvent D i) s = (Inl x, s')"
  then show "ledgered T0 tabs s'"
    using findEvent_moment [of i "db s" "Inl x" "db s'"] by (auto simp: on_db_eq ledgered_def intro: rtranclp_trans)
qed

lemma keeps_ledgered_processEvent: "keeps (ledgered T0 tabs) (processEvent D clk i)"
  unfolding processEvent_def
proof (rule hoare_andThen [OF _ findEvent_holding])
  show "hoare (\<lambda>s. case found of None \<Rightarrow> ledgered T0 tabs s | Some e \<Rightarrow> holding T0 tabs e s) (case found of None \<Rightarrow> ret () | Some e \<Rightarrow> if processed e then ret ()
      else let gid = extractGatewayTxnId (eventGateway e) (payload e) in
       if gid = JNull then save_processed D clk e
       else andThen (on_db (findTxnByGatewayOrKey D gid (payload_key (payload e)))) (\<lambda>txn. case txn of
           None \<Rightarrow> save_processed D clk e
         | Some t \<Rightarrow> andThen (driveToReconciled D clk t (eventGateway e) gid (payload e)) (\<lambda>_. save_processed D clk e)))
      (\<lambda>_. ledgered T0 tabs) (\<lambda>_. ledgered T0 tabs)" for found
  proof (cases found)
    case (Some e)
    have "hoare (holding T0 tabs e) (ret ()) (\<lambda>_. ledgered T0 tabs) (\<lambda>_. ledgered T0 tabs)"
      by (simp add: hoare_def holding_def)
    with Some handle_ledgered show ?thesis by (simp only: option.case split: if_split) blast
  qed (simp add: hoare_def)
qed

lemma keeps_ledgered_poll_once: "keeps (ledgered T0 tabs) (poll_once D C clk)"
  unfolding poll_once_def by (intro keeping keeps_ledgered_processEvent keeps_ledgered_on_redis)

lemma keeps_ledgered_pollQueue: "keeps (ledgered T0 tabs) (pollQueue n D C clk)"
  by (induction n) (simp_all only: pollQueue.simps keeps_ret keeps_andThen keeps_ledgered_poll_once)

end

subsection \<open>The service as a whole\<close>

text \<open>One request of a client, one call of a gateway, one iteration of the worker.\<close>

inductive serves :: "'d orm \<Rightarrow> 'r redis_client \<Rightarrow> ('d, 'r) node \<Rightarrow> ('d, 'r) node \<Rightarrow> bool"
  for D :: "'d orm" and C :: "'r redis_client" where
  request: "post_payment w D C dto headerKey s = (r, s') \<Longrightarrow> serves D C s s'"
| hook: "webhook g w D C req s = (reply, s') \<Longrightarrow> serves D C s s'"
| work: "poll_once D C clk s = (u, s') \<Longrightarrow> serves D C s s'"

inductive_cases servesE: "serves D C s s'"

lemma keeps_serves:
  assumes "(serves D C)\<^sup>*\<^sup>* s s'" "P s"
    and "\<And>w dto h. keeps P (post_payment w D C dto h)" "\<And>g w req. keeps P (webhook g w D C req)"
    and "\<And>clk. keeps P (poll_once D C clk)"
  shows "P s'"
  using assms(1,2)
proof (induction rule: rtranclp_induct)
  case (step s1 s2)
  from step.hyps(2) step.IH [OF step.prems] show ?case
    by (cases rule: serves.cases) (blast intro: keepsD [OF assms(3)] keepsD [OF assms(4)] keepsD [OF assms(5)])+
qed

context shared_database
begin
lemma serves_ledger:
  assumes "(serves D C)\<^sup>*\<^sup>* s s'"
  shows "ledger_run (tabs (db s)) (tabs (db s'))"
proof -
  have "ledgered (tabs (db s)) tabs s'"
    by (rule keeps_serves [OF assms])
      (rule keeps_ledgered_post_payment keeps_ledgered_webhook keeps_ledgered_poll_once | simp add: ledgered_def)+
  then show ?thesis by (simp add: ledgered_def)
qed

end

subsection \<open>Redelivery\<close>

context backend
begin

text \<open>Once a call for an event has returned, every later call for its key is a duplicate.\<close>

lemma ingest_redelivered:
  assumes sound: "sound_ledger (tabs (db s))" and one: "ingest D C ev s = (Inr x, s1)"
    and run: "(serves D C)\<^sup>*\<^sup>* s1 s2" and two: "ingest D C ev' s2 = (Inr (duplicate, record), s3)"
    and same: "hook_gateway ev' = hook_gateway ev" "hook_eventId ev' = hook_eventId ev"
  shows "duplicate \<and> record = None \<and> tabs (db s3) = tabs (db s2) \<and> redis s3 = redis s2 \<and> charges s3 = charges s2"
proof -
  have "ledgered (tabs (db s)) tabs s" by (simp add: ledgered_def)
  from keepsD [OF shared.keeps_ledgered_ingest this one] have l: "ledger_run (tabs (db s)) (tabs (db s1))"
    by (simp add: ledgered_def)
  have "event_key_used (tabs (db s1)) (hook_gateway ev) (hook_eventId ev)"
    using one by (cases rule: ingest_cases) (auto dest: event_stored_used)
  from ledger_run_event_keys [OF shared.serves_ledger [OF run] ledger_run_sound [OF l sound] this] same
  have "event_key_used (tabs (db s2)) (hook_gateway ev') (hook_eventId ev')" by simp
  with ingest_outcome [OF two] show ?thesis by simp
qed

end

end
