(* ===== verification/Liveness.thy ===== *)
theory Liveness
  imports Refinement
begin

text \<open>
  What the worker does when nothing fails: an event is processed, processing it again changes
  nothing, and the queue is emptied in as many iterations as it has events.
\<close>

subsection \<open>A healthy database\<close>

text \<open>A call that succeeds from every state in \<open>P\<close> and ends in \<open>P\<close>.\<close>

abbreviation succeeds :: "('s \<Rightarrow> bool) \<Rightarrow> ('s, 'a) io \<Rightarrow> bool" where
  "succeeds P m \<equiv> hoare P m (\<lambda>_. P) (\<lambda>_ _. False)"

lemma hoare_False_returns:
  "hoare P m Q (\<lambda>_ _. False) \<Longrightarrow> P s \<Longrightarrow> \<exists>x s'. m s = (Inr x, s') \<and> Q x s'"
proof -
  assume h: "hoare P m Q (\<lambda>_ _. False)" and "P s"
  obtain r s' where run: "m s = (r, s')" by fastforce
  with \<open>P s\<close> show ?thesis using hoare_InlD [OF h] hoare_InrD [OF h] by (cases r) auto
qed

lemma succeedsD: "succeeds P m \<Longrightarrow> P s \<Longrightarrow> \<exists>x s'. m s = (Inr x, s') \<and> P s'"
  by (rule hoare_False_returns)

definition healthy :: "'d orm \<Rightarrow> ('d \<Rightarrow> tables) \<Rightarrow> ('d \<Rightarrow> bool) \<Rightarrow> bool" where
  "healthy D tabs P \<longleftrightarrow>
     (\<forall>i. succeeds P (findEvent D i)) \<and> (\<forall>j k. succeeds P (findTxnByGatewayOrKey D j k)) \<and>
     (\<forall>e. succeeds P (saveEvent D e)) \<and>
     (\<forall>c i s m. hoare (\<lambda>d. P d \<and> transition_refusal (tabs d) i s = None) (transition D c i s m)
        (\<lambda>_. P) (\<lambda>_ _. False))"

lemma succeeds_on_db: "succeeds P m \<Longrightarrow> succeeds (\<lambda>s. P (db s)) (on_db m)"
  by (rule hoare_on_db) (auto simp: hoare_def split: sum.splits prod.splits)

context backend
begin

lemma transition_triple_healthy:
  assumes "healthy D tabs P"
  shows "transition_triple D tabs P clk i (\<lambda>_ (_ :: ('d, 'b) node). False) cs"
  unfolding transition_triple_def
proof (intro allI impI)
  fix R :: "string \<Rightarrow> transaction option" and L t s g and m :: metadata
  assume t: "R i = Some t" "can_transition (currentState t) s" "m_gateway m = Some (Some g)"
  have ok: "transition_refusal (tabs (db \<sigma>)) i s = None" if "snapshot tabs R L cs \<sigma>" for \<sigma> :: "('d, 'b) node"
    using that t by (auto simp: transition_refusal_def snapshot_def rows_def)
  have P: "hoare (\<lambda>\<sigma>. P (db \<sigma>) \<and> snapshot tabs R L cs \<sigma>) (on_db (transition D clk i s m))
      (\<lambda>_ (\<sigma> :: ('d, 'b) node). P (db \<sigma>)) (\<lambda>_ _. False)"
    using assms ok by (fastforce simp: healthy_def hoare_def on_db_def split: prod.splits sum.splits)
  show "hoare (\<lambda>\<sigma>. P (db \<sigma>) \<and> snapshot tabs R L cs \<sigma>) (on_db (transition D clk i s m))
      (\<lambda>t' \<sigma>. (\<exists>u. t' = (apply_transition clk s m t)\<lparr>updatedAt := u\<rparr>) \<and> P (db \<sigma>) \<and>
         snapshot tabs (R(i \<mapsto> t')) (L(i := L i @ [entry i (currentState t) s g m])) cs \<sigma>)
      (\<lambda>_ (_ :: ('d, 'b) node). False)"
    using hoare_InrD [OF at_transition [where R = R and t = t, OF t]] hoare_InrD [OF P] hoare_InlD [OF P]
    by (intro hoareI) blast+
qed

text \<open>A read of a healthy database.\<close>

lemma healthy_reading:
  assumes "succeeds P m" "implements tabs m (\<lambda>T x T'. T' = T \<and> W T x)"
  shows "hoare (\<lambda>s. P (db s) \<and> tabs (db s) = T) (on_db m) (\<lambda>x s. (P (db s) \<and> tabs (db s) = T) \<and> W T x) (\<lambda>_ _. False)"
proof (rule hoareI)
  fix s x and s' :: "('d, 'b) node"
  assume a: "P (db s) \<and> tabs (db s) = T" and "on_db m s = (Inr x, s')"
  then have run: "m (db s) = (Inr x, db s')" by (simp add: on_db_eq)
  with hoare_InrD [OF assms(1) _ run] implementsD [OF assms(2) run] a
  show "(P (db s') \<and> tabs (db s') = T) \<and> W T x" by simp
next
  fix s e and s' :: "('d, 'b) node"
  assume "P (db s) \<and> tabs (db s) = T" "on_db m s = (Inl e, s')"
  then show False using hoare_InlD [OF assms(1)] by (auto simp: on_db_eq)
qed

text \<open>An event is processed to the end.\<close>

lemma processEvent_total:
  assumes h: "healthy D tabs P" and d: "distinct (map txnId (transactions T))"
  shows "hoare (\<lambda>s. P (db s) \<and> tabs (db s) = T) (processEvent D clk i) (\<lambda>_ s. P (db s)) (\<lambda>_ _. False)"
proof -
  let ?A = "\<lambda>s :: ('d, 'b) node. P (db s) \<and> tabs (db s) = T"
  from h have reads: "succeeds P (findEvent D i)" "\<And>j k. succeeds P (findTxnByGatewayOrKey D j k)"
    and writes: "\<And>e. succeeds P (saveEvent D e)" by (simp_all add: healthy_def)
  have save: "hoare (\<lambda>s :: ('d, 'b) node. P (db s)) (save_processed D clk e) (\<lambda>_ s. P (db s)) (\<lambda>_ _. False)" for e
    unfolding save_processed_def by (rule hoare_andThen, rule hoare_ret, rule succeeds_on_db [OF writes])
  have drive: "hoare (\<lambda>s. ?A s \<and> t \<in> set (transactions T)) (driveToReconciled D clk t g gid raw)
      (\<lambda>_ s. P (db s)) (\<lambda>_ _. False)" for t g gid raw
  proof (rule hoare_assume [where A = "t \<in> set (transactions T)", THEN hoare_pre])
    assume "t \<in> set (transactions T)"
    from rows_member [OF this d] driveToReconciled_triple [where P = P and R = "rows T" and t = t,
        OF transition_triple_healthy [OF h]]
    show "hoare ?A (driveToReconciled D clk t g gid raw) (\<lambda>_ s. P (db s)) (\<lambda>_ _. False)"
      by (fastforce simp: hoare_def hook_done_def snapshot_def split: prod.splits sum.splits)
  qed auto
  have settle: "hoare (\<lambda>s. ?A s \<and> t \<in> set (transactions T)) (andThen (driveToReconciled D clk t g gid raw) (\<lambda>_. save_processed D clk e))
      (\<lambda>_ s. P (db s)) (\<lambda>_ _. False)" for t g gid raw e
    by (rule hoare_andThen [OF save drive])
  have match: "hoare ?A
      (andThen (on_db (findTxnByGatewayOrKey D gid (payload_key (payload e)))) (\<lambda>txn. case txn of
          None \<Rightarrow> save_processed D clk e
        | Some t \<Rightarrow> andThen (driveToReconciled D clk t (eventGateway e) gid (payload e)) (\<lambda>_. save_processed D clk e)))
      (\<lambda>_ s. P (db s)) (\<lambda>_ _. False)" for e gid
    by (rule hoare_andThen [OF _ healthy_reading [OF reads(2) findTxnByGatewayOrKey]])
      (auto split: option.split intro: hoare_pre [OF save] intro!: hoare_pre [OF settle])
  have handle: "hoare ?A
      (let gid = extractGatewayTxnId (eventGateway e) (payload e) in
       if gid = JNull then save_processed D clk e
       else andThen (on_db (findTxnByGatewayOrKey D gid (payload_key (payload e)))) (\<lambda>txn. case txn of
           None \<Rightarrow> save_processed D clk e
         | Some t \<Rightarrow> andThen (driveToReconciled D clk t (eventGateway e) gid (payload e)) (\<lambda>_. save_processed D clk e)))
      (\<lambda>_ s. P (db s)) (\<lambda>_ _. False)" for e
    using match [of "extractGatewayTxnId (eventGateway e) (payload e)" e] by (auto simp: Let_def intro: hoare_pre [OF save])
  show ?thesis
    unfolding processEvent_def
  proof (rule hoare_andThen [OF _ healthy_reading [OF reads(1) findEvent]])
    fix found
    have idle: "hoare ?A (ret ()) (\<lambda>_ s. P (db s)) (\<lambda>_ _. False)" by (simp add: hoare_def)
    show "hoare (\<lambda>s. ?A s \<and> found = event_by_id T i) (case found of None \<Rightarrow> ret () | Some e \<Rightarrow> if processed e then ret ()
       else let gid = extractGatewayTxnId (eventGateway e) (payload e) in
         if gid = JNull then save_processed D clk e
         else andThen (on_db (findTxnByGatewayOrKey D gid (payload_key (payload e)))) (\<lambda>txn. case txn of
             None \<Rightarrow> save_processed D clk e
           | Some t \<Rightarrow> andThen (driveToReconciled D clk t (eventGateway e) gid (payload e)) (\<lambda>_. save_processed D clk e)))
        (\<lambda>_ s. P (db s)) (\<lambda>_ _. False)"
      by (rule hoare_pre [where P' = ?A]) (simp_all split: option.split if_split add: idle handle)
  qed
qed

end

subsection \<open>Processing an event twice\<close>

text \<open>The event with this id, if there is one, has been processed.\<close>

definition handled :: "tables \<Rightarrow> string \<Rightarrow> bool" where
  "handled T i \<longleftrightarrow> (case event_by_id T i of None \<Rightarrow> True | Some e \<Rightarrow> processed e)"

context backend
begin

lemma processEvent_handled:
  assumes run: "processEvent D clk i s = (Inr (), s')" and d: "distinct (map txnId (transactions (tabs (db s))))"
  shows "handled (tabs (db s')) i" "handled (tabs (db s)) j \<Longrightarrow> handled (tabs (db s')) j"
proof -
  have marked: "handled T' i \<and> (handled T j \<longrightarrow> handled T' j)"
    if "event_by_id T i = Some e" "marks clk e T T'" for e T T'
  proof -
    have e: "eventRecordId e = i" using that(1) by (rule event_by_id_id)
    from marks_event [OF that(2), of j] marks_event [OF that(2), of i] that(1) e show ?thesis
      by (simp add: handled_def mark_processed_def)
  qed
  have "handled (tabs (db s')) i \<and> (handled (tabs (db s)) j \<longrightarrow> handled (tabs (db s')) j)"
    using run d
  proof (cases rule: processEvent_cases)
    case idle
    then show ?thesis by (simp add: handled_def)
  next
    case (unmatched e)
    then show ?thesis by (intro marked [of _ e]) (simp_all add: marks_def)
  next
    case (settled e t)
    then show ?thesis by (intro marked [of _ e])
  qed
  then show "handled (tabs (db s')) i" "handled (tabs (db s)) j \<Longrightarrow> handled (tabs (db s')) j" by simp_all
qed

lemma processEvent_idle:
  assumes run: "processEvent D clk i s = (r, s')" and h: "handled (tabs (db s)) i"
  shows "tabs (db s') = tabs (db s) \<and> charges s' = charges s \<and> redis s' = redis s \<and> (\<forall>e. r = Inl e \<longrightarrow> db_failure e)"
proof -
  obtain x s1 where f: "on_db (findEvent D i) s = (x, s1)" by fastforce
  show ?thesis
  proof (cases x)
    case (Inl e)
    with f run implements_failD [OF findEvent] show ?thesis
      by (auto simp: processEvent_def andThen_Inl on_db_eq)
  next
    case (Inr found)
    with f implementsD [OF findEvent] have s1: "tabs (db s1) = tabs (db s)" "charges s1 = charges s" "redis s1 = redis s"
      and found: "found = event_by_id (tabs (db s)) i" by (auto simp: on_db_eq)
    from run f Inr h found have "(r, s') = (Inr (), s1)"
      by (auto simp: processEvent_def andThen_Inr handled_def split: option.splits)
    with s1 show ?thesis by simp
  qed
qed

lemma processEvent_again:
  assumes "processEvent D clk i s = (Inr (), s1)" "distinct (map txnId (transactions (tabs (db s))))"
    and "processEvent D clk' i s1 = (r, s2)"
  shows "tabs (db s2) = tabs (db s1) \<and> charges s2 = charges s1"
  using processEvent_idle [OF assms(3)] processEvent_handled(1) [OF assms(1,2)] by simp

subsection \<open>Emptying the queue\<close>

lemma brpop_healthy:
  assumes "succeeds K (client_brpop C queueName 2)"
  shows "succeeds (\<lambda>s. K (client s)) (getClient_brpop C queueName 2)"
proof (rule hoareI)
  fix s y s' assume "K (client s)" "getClient_brpop C queueName 2 s = (Inr y, s')"
  then show "K (client s')"
    using hoare_InrD [OF assms]
    by (auto simp: getClient_eqs mock_brpop_def on_client_def split: if_splits option.splits prod.splits)
next
  fix s e s' assume "K (client s)" "getClient_brpop C queueName 2 s = (Inl e, s')"
  then show False
    using hoare_InlD [OF assms]
    by (auto simp: getClient_eqs mock_brpop_def on_client_def split: if_splits option.splits prod.splits)
qed

lemma processEvent_redis:
  assumes "processEvent D clk i (s :: ('d, 'b) node) = (r, s')"
  shows "redis s' = redis s"
proof -
  have db: "keeps (\<lambda>s. redis s = R) (on_db m :: (('d, 'b) node, 'x) io)" for m :: "('d, 'x) io" and R :: "'b redis_state"
    by (rule keepsI) (simp add: on_db_eq)
  have "keeps (\<lambda>s. redis s = R) (processEvent D clk i)" for R :: "'b redis_state"
    unfolding processEvent_def driveToReconciled_def advance_def save_processed_def Let_def by (intro keeping db)
  from keepsD [OF this [of "redis s"] refl assms] show ?thesis .
qed

lemma poll_once_healthy:
  assumes h: "healthy D tabs P" "succeeds K (client_brpop C queueName 2)"
    and s: "P (db s)" "K (client (redis s))" "sound_ledger (tabs (db s))"
  shows "\<exists>s'. poll_once D C clk s = (Inr (), s') \<and> P (db s') \<and> K (client (redis s')) \<and> sound_ledger (tabs (db s')) \<and>
    waiting_in lists queueName (redis s') = tl (waiting_in lists queueName (redis s)) \<and>
    (\<forall>j. handled (tabs (db s)) j \<or> [j] = take 1 (waiting_in lists queueName (redis s)) \<longrightarrow> handled (tabs (db s')) j)"
proof -
  obtain y c where pop: "getClient_brpop C queueName 2 (redis s) = (Inr y, c)" "K (client c)"
    using succeedsD [OF brpop_healthy [OF h(2)]] s by blast
  define s1 where "s1 = s\<lparr>redis := c\<rparr>"
  have run: "on_redis (getClient_brpop C queueName 2) s = (Inr y, s1)"
    using pop by (simp add: on_redis_def s1_def)
  show ?thesis
  proof (cases y)
    case None
    with queue.pop [OF pop(1)] have "waiting_in lists queueName (redis s) = []" "waiting_in lists queueName (redis s1) = []"
      by (simp_all add: s1_def)
    moreover have "poll_once D C clk s = (Inr (), s1)"
      using run None by (simp add: poll_once_def catching_Inr andThen_Inr)
    ultimately show ?thesis using s pop by (simp add: s1_def)
  next
    case (Some a)
    then obtain q i where a: "y = Some (q, i)" by (cases a) auto
    with queue.pop [OF pop(1)] have w: "waiting_in lists queueName (redis s) = i # waiting_in lists queueName (redis s1)"
      by (simp add: s1_def)
    have d: "distinct (map txnId (transactions (tabs (db s1))))" using s by (simp add: s1_def sound_ledger_def)
    from hoare_False_returns [OF processEvent_total [OF h(1) d], of s1] s
    obtain s2 where p: "processEvent D clk i s1 = (Inr (), s2)" "P (db s2)" by (auto simp: s1_def)
    have "poll_once D C clk s = (Inr (), s2)"
      using run a p by (simp add: poll_once_def catching_def andThen_Inr)
    moreover have "sound_ledger (tabs (db s2))"
      using keepsD [OF shared.keeps_ledgered_processEvent, of "tabs (db s1)" s1 clk i] p ledger_run_sound s
      by (fastforce simp: ledgered_def s1_def)
    ultimately show ?thesis
      using p pop w processEvent_redis [OF p(1)] processEvent_handled [OF p(1) d] by (auto simp: s1_def)
  qed
qed

text \<open>As many iterations as there are events process them all and leave the queue empty.\<close>

lemma pollQueue_drains:
  assumes h: "healthy D tabs P" "succeeds K (client_brpop C queueName 2)"
    and s: "P (db s)" "K (client (redis s))" "sound_ledger (tabs (db s))"
    and n: "length (waiting_in lists queueName (redis s)) \<le> n"
  shows "\<exists>s'. pollQueue n D C clk s = (Inr (), s') \<and> waiting_in lists queueName (redis s') = [] \<and>
    (\<forall>j. handled (tabs (db s)) j \<or> j \<in> set (waiting_in lists queueName (redis s)) \<longrightarrow> handled (tabs (db s')) j)"
  using s n
proof (induction n arbitrary: s)
  case 0
  then show ?case by simp
next
  case (Suc n)
  from poll_once_healthy [OF h Suc.prems(1-3), of clk] obtain s1 where
    one: "poll_once D C clk s = (Inr (), s1)" "P (db s1)" "K (client (redis s1))" "sound_ledger (tabs (db s1))"
      "waiting_in lists queueName (redis s1) = tl (waiting_in lists queueName (redis s))"
      "\<And>j. handled (tabs (db s)) j \<or> [j] = take 1 (waiting_in lists queueName (redis s)) \<Longrightarrow> handled (tabs (db s1)) j"
    by blast
  from one(5) Suc.prems(4) have "length (waiting_in lists queueName (redis s1)) \<le> n" by simp
  from Suc.IH [OF one(2-4) this] obtain s2 where
    rest: "pollQueue n D C clk s1 = (Inr (), s2)" "waiting_in lists queueName (redis s2) = []"
      "\<And>j. handled (tabs (db s1)) j \<or> j \<in> set (waiting_in lists queueName (redis s1)) \<Longrightarrow> handled (tabs (db s2)) j"
    by blast
  have "handled (tabs (db s2)) j" if "handled (tabs (db s)) j \<or> j \<in> set (waiting_in lists queueName (redis s))" for j
    using that one(5,6) rest(3) by (cases "waiting_in lists queueName (redis s)") auto
  then show ?case using one(1) rest(1,2) by (auto simp: andThen_Inr)
qed

end

text \<open>Whatever fails, the loop goes on: an iteration never throws.\<close>

lemma poll_once_returns: "\<exists>s'. poll_once D C clk s = (Inr (), s')"
  by (auto simp: poll_once_def catching_def split: prod.splits sum.splits)

lemma pollQueue_returns: "\<exists>s'. pollQueue n D C clk s = (Inr (), s')"
proof (induction n arbitrary: s)
  case (Suc n)
  from poll_once_returns [of D C clk s] Suc.IH show ?case by (auto simp: andThen_def)
qed simp

context backend
begin

text \<open>The payment an event is about ends \<open>RECONCILED\<close>, unless it has failed.\<close>

lemma processEvent_settles:
  assumes run: "processEvent D clk i s = (Inr (), s')" and d: "distinct (map txnId (transactions (tabs (db s))))"
    and e: "event_by_id (tabs (db s)) i = Some e" "\<not> processed e"
    and gid: "extractGatewayTxnId (eventGateway e) (payload e) = JStr x"
    and t: "t \<in> set (transactions (tabs (db s)))" "about e t"
    and only: "\<forall>r \<in> set (transactions (tabs (db s))). about e r \<longrightarrow> r = t"
  shows "(\<exists>u. rows (tabs (db s')) = (rows (tabs (db s)))(txnId t \<mapsto> hooked clk (eventGateway e) (JStr x) t u)) \<and>
    logs (tabs (db s')) = (logs (tabs (db s)))(txnId t := logs (tabs (db s)) (txnId t) @
      hook_trail (txnId t) (eventGateway e) (JStr x) (payload e) (currentState t)) \<and>
    event_by_id (tabs (db s')) i = Some (mark_processed clk e) \<and> charges s' = charges s"
  using run d
proof (cases rule: processEvent_cases)
  case idle
  with e show ?thesis by simp
next
  case (unmatched e')
  with e t show ?thesis by simp
next
  case (settled e' t')
  with e have "e' = e" by simp
  with settled gid only have "t' = t" by (auto simp: settles_def Let_def)
  with settled \<open>e' = e\<close> gid marks_event [OF settled(5), of i] event_by_id_id [OF e(1)] e
  show ?thesis by (auto simp: settles_def Let_def)
qed

end

lemma hooked_reconciled:
  "currentState t \<noteq> FAILED \<Longrightarrow> currentState (hooked clk g gid t u) = RECONCILED"
  by (auto simp: hooked_def terminal_iff)

lemma hooked_failed: "currentState t = FAILED \<Longrightarrow> hooked clk g gid t u = t \<and> hook_trail i g gid raw (currentState t) = []"
  by (simp add: hooked_def)

subsection \<open>The schema is healthy while it is up\<close>

lemma schema_reading_succeeds: "succeeds (\<lambda>d. faults d = None) (reading f)"
  by (simp add: hoare_def reading_def guarded_def)

lemma schema_writing:
  "faults d = None \<Longrightarrow> writing f d = (case f (contents d) of Inl e \<Rightarrow> (Inl e, d) | Inr (x, T) \<Rightarrow> (Inr x, d\<lparr>contents := T\<rparr>))"
  by (simp add: writing_def guarded_def)

lemma schema_healthy: "healthy schema_orm contents (\<lambda>d. faults d = None)"
proof -
  have "hoare (\<lambda>d. faults d = None \<and> transition_refusal (contents d) i s = None) (transition schema_orm c i s m)
      (\<lambda>_ d. faults d = None) (\<lambda>_ _. False)" for c i s m
    by (auto simp: hoare_def transition_def schema_orm_def reading_def guarded_def schema_writing andThen_def
        transition_refusal_def can_transition_def schema_insert_audit_def Let_def split: option.splits if_splits)
  then show ?thesis
    unfolding healthy_def
    by (auto simp: schema_orm_def schema_reading_succeeds) (simp add: hoare_def schema_writing)
qed

lemma mem_brpop_succeeds: "succeeds (\<lambda>r. \<not> mem_down r) (client_brpop mem_client q t)"
  by (simp add: hoare_def mem_client_def mem_command_def split: list.split)

subsection \<open>From the webhook to the settled payment\<close>

text \<open>The payments an event with this payload is about.\<close>

definition matches :: "string \<Rightarrow> json \<Rightarrow> transaction \<Rightarrow> bool" where
  "matches x content r \<longleftrightarrow> gatewayTxnId r = JStr x \<or> idempotencyKey r = payload_key content"

lemma about_matches:
  "extractGatewayTxnId (eventGateway e) (payload e) = JStr x \<Longrightarrow> about e r \<longleftrightarrow> matches x (payload e) r"
  by (auto simp: about_def matches_def)

lemma event_stored_fields:
  assumes "event_stored ev T e T'"
  shows "eventGateway e = hook_gateway ev" "payload e = hook_payload ev" "\<not> processed e"
    "event_by_id T' (eventRecordId e) = Some e" "transactions T' = transactions T" "audit T' = audit T"
  using assms by (auto simp: event_stored_def event_row_def stored_event_def event_by_id_def find_append split: option.splits)

context backend
begin

lemma ingest_then_worker:
  assumes h: "healthy D tabs P" "succeeds K (client_brpop C queueName 2)"
    and ing: "ingest D C ev s = (Inr (False, y), s1)"
    and q: "waiting_in lists queueName (redis s) = []"
    and ids: "\<forall>e \<in> set (events (tabs (db s1))). eventRecordId e \<noteq> []"
    and s1: "P (db s1)" "K (client (redis s1))" and d: "distinct (map txnId (transactions (tabs (db s))))"
    and gid: "extractGatewayTxnId (hook_gateway ev) (hook_payload ev) = JStr x"
    and t: "t \<in> set (transactions (tabs (db s)))" "matches x (hook_payload ev) t"
    and only: "\<forall>r \<in> set (transactions (tabs (db s))). matches x (hook_payload ev) r \<longrightarrow> r = t"
  shows "\<exists>s2 u. poll_once D C clk s1 = (Inr (), s2) \<and> waiting_in lists queueName (redis s2) = [] \<and>
    rows (tabs (db s2)) = (rows (tabs (db s)))(txnId t \<mapsto> hooked clk (hook_gateway ev) (JStr x) t u) \<and>
    charges s2 = charges s"
  using ing
proof (cases rule: ingest_cases)
  case (queued e)
  note e = event_stored_fields [OF queued(2)]
  from queued(2) have "e \<in> set (events (tabs (db s1)))" by (auto simp: event_stored_def)
  with ids queued(4) q have w: "waiting_in lists queueName (redis s1) = [eventRecordId e]" by (simp split: if_splits)
  obtain r c where pop: "getClient_brpop C queueName 2 (redis s1) = (Inr r, c)"
    using succeedsD [OF brpop_healthy [OF h(2)]] s1 by blast
  with queue.pop [OF pop] w obtain k where r: "r = Some (k, eventRecordId e)" and w': "waiting_in lists queueName c = []"
    by (auto split: option.splits)
  define p where "p = s1\<lparr>redis := c\<rparr>"
  have dp: "distinct (map txnId (transactions (tabs (db p))))" using d e by (simp add: p_def)
  from hoare_False_returns [OF processEvent_total [OF h(1) dp], of p] s1
  obtain s2 where run: "processEvent D clk (eventRecordId e) p = (Inr (), s2)" by (auto simp: p_def)
  have about: "about e z \<longleftrightarrow> matches x (hook_payload ev) z" for z using about_matches [of e x z] gid e by simp
  have ev: "event_by_id (tabs (db p)) (eventRecordId e) = Some e" using e by (simp add: p_def)
  have same: "rows (tabs (db s1)) = rows (tabs (db s))" using e by (simp add: rows_def txn_by_id_def fun_eq_iff)
  have np: "\<not> processed e" by (rule e(3))
  have gid': "extractGatewayTxnId (eventGateway e) (payload e) = JStr x" using gid e by simp
  have t': "t \<in> set (transactions (tabs (db p)))" "about e t" using t e by (simp_all add: p_def about)
  have only': "\<forall>r \<in> set (transactions (tabs (db p))). about e r \<longrightarrow> r = t" using only e by (simp add: p_def about)
  from processEvent_settles [OF run dp ev np gid' t' only']
  obtain u where "rows (tabs (db s2)) = (rows (tabs (db p)))(txnId t \<mapsto> hooked clk (eventGateway e) (JStr x) t u)"
    and ch: "charges s2 = charges p" by blast
  with same e have u: "rows (tabs (db s2)) = (rows (tabs (db s)))(txnId t \<mapsto> hooked clk (hook_gateway ev) (JStr x) t u)"
    by (simp add: p_def)
  from ch queued(3) have "charges s2 = charges s" by (simp add: p_def)
  moreover have "poll_once D C clk s1 = (Inr (), s2)"
    using pop r run by (simp add: poll_once_def catching_def andThen_def on_redis_def p_def)
  moreover have "waiting_in lists queueName (redis s2) = []"
    using processEvent_redis [OF run] w' by (simp add: p_def)
  ultimately show ?thesis using u by blast
qed simp_all

lemma webhook_then_worker:
  assumes h: "healthy D tabs P" "succeeds K (client_brpop C queueName 2)"
    and hook: "webhook g w D C req s = (Inr (Received False), s1)"
    and q: "waiting_in lists queueName (redis s) = []"
    and ids: "\<forall>e \<in> set (events (tabs (db s1))). eventRecordId e \<noteq> []"
    and s1: "P (db s1)" "K (client (redis s1))" and d: "distinct (map txnId (transactions (tabs (db s))))"
    and gid: "extractGatewayTxnId g (req_body req) = JStr x"
    and t: "t \<in> set (transactions (tabs (db s)))" "matches x (req_body req) t"
    and only: "\<forall>r \<in> set (transactions (tabs (db s))). matches x (req_body req) r \<longrightarrow> r = t"
  shows "\<exists>s2 u. poll_once D C clk s1 = (Inr (), s2) \<and> waiting_in lists queueName (redis s2) = [] \<and>
    rows (tabs (db s2)) = (rows (tabs (db s)))(txnId t \<mapsto> hooked clk g (JStr x) t u) \<and> charges s2 = charges s"
  using webhook_cases [of g w D C req]
proof cases
  case refused
  with hook show ?thesis by (simp add: signature_failed_def)
next
  case let_in
  let ?ev = "event_of g (req_body req)"
  from hook [unfolded let_in(1)] obtain y s0 where y: "ingest D C ?ev s = (Inr y, s0)"
    and rest: "ret (Received (fst y)) s0 = (Inr (Received False), s1)"
    by (rule andThen_InrD)
  from rest have "y = (False, snd y)" "s0 = s1" by (simp_all add: prod_eq_iff)
  with y have run: "ingest D C ?ev s = (Inr (False, snd y), s1)" by metis
  have "hook_gateway ?ev = g" "hook_payload ?ev = req_body req" by simp_all
  with ingest_then_worker [OF h run q ids s1 d, of x t clk] gid t only show ?thesis by metis
qed

text \<open>An event whose processing throws is gone from the queue all the same.\<close>

lemma poll_once_drops:
  assumes pop: "getClient_brpop C queueName 2 (redis s) = (Inr (Some (q, i)), c)"
    and run: "processEvent D clk i (s\<lparr>redis := c\<rparr>) = (Inl e, s')"
  shows "poll_once D C clk s = (Inr (), s') \<and>
    waiting_in lists queueName (redis s) = i # waiting_in lists queueName (redis s')"
proof -
  have "poll_once D C clk s = (Inr (), s')"
    using pop run by (simp add: poll_once_def catching_def andThen_def on_redis_def)
  with queue.pop [OF pop] processEvent_redis [OF run] show ?thesis by simp
qed

end

text \<open>The queue over the server: what is pushed is popped in order.\<close>

context redis_server
begin

lemma queue_in_order:
  assumes push: "promise_all (map (getClient_lpush C queueName) xs) s = (Inr ns, s1)" "\<forall>x \<in> set xs. x \<noteq> []"
    and mode: "\<not> isMockMode s"
    and pop: "promise_all (replicate k (getClient_brpop C queueName 2)) s1 = (Inr ys, s2)"
    and k: "k \<le> length (waiting_in lists queueName s @ xs)"
  shows "map (map_option snd) ys = map Some (take k (waiting_in lists queueName s @ xs)) \<and>
    waiting_in lists queueName s2 = drop k (waiting_in lists queueName s @ xs)"
  using queue.fifo [OF push mode] queue.pops_in_order [OF pop] k by simp

end

end
