(* ===== verification/Lifecycle.thy ===== *)
theory Lifecycle
  imports Liveness
begin

text \<open>
  The life of the worker (\<open>ReconciliationWorkerService.onModuleInit\<close>, \<open>onModuleDestroy\<close> and the
  loop they start and stop) as a step relation: the hooks of the framework, the loop and the
  requests that arrive meanwhile take turns. The flag \<open>isActive\<close> is read at the head of the
  loop only, so an iteration that has begun is never cut short.
\<close>

subsection \<open>The hooks and the loop\<close>

text \<open>
  The promise of \<open>pollQueue\<close>: the loop is about to test its flag, is in an iteration, or has
  ended. The call of \<open>onModuleDestroy\<close> has not been made, awaits the promise, or has returned.
\<close>

datatype loop = AtCheck | InIteration | Stopped

datatype shutdown = NotCalled | Awaiting | Returned

record worker =
  isActive :: bool
  workerPromise :: "loop option"
  destroying :: shutdown

definition new_worker :: worker where
  "new_worker = \<lparr>isActive = False, workerPromise = None, destroying = NotCalled\<rparr>"

definition worker_onModuleInit :: "worker \<Rightarrow> worker" where
  "worker_onModuleInit w = w\<lparr>isActive := True, workerPromise := Some AtCheck\<rparr>"

text \<open>\<open>onModuleDestroy\<close> up to its \<open>await\<close>, and whether the \<open>await\<close> is over.\<close>

definition worker_onModuleDestroy :: "worker \<Rightarrow> worker" where
  "worker_onModuleDestroy w = w\<lparr>isActive := False, destroying := Awaiting\<rparr>"

definition promise_settled :: "worker \<Rightarrow> bool" where
  "promise_settled w \<longleftrightarrow> workerPromise w = None \<or> workerPromise w = Some Stopped"

inductive worker_step ::
  "'d orm \<Rightarrow> 'r redis_client \<Rightarrow> worker \<times> ('d, 'r) node \<Rightarrow> worker \<times> ('d, 'r) node \<Rightarrow> bool"
  for D :: "'d orm" and C :: "'r redis_client" where
  check: "workerPromise w = Some AtCheck \<Longrightarrow> isActive w \<Longrightarrow>
    worker_step D C (w, s) (w\<lparr>workerPromise := Some InIteration\<rparr>, s)"
| iterate: "workerPromise w = Some InIteration \<Longrightarrow> poll_once D C clk s = (r, s') \<Longrightarrow>
    worker_step D C (w, s) (w\<lparr>workerPromise := Some AtCheck\<rparr>, s')"
| leave: "workerPromise w = Some AtCheck \<Longrightarrow> \<not> isActive w \<Longrightarrow>
    worker_step D C (w, s) (w\<lparr>workerPromise := Some Stopped\<rparr>, s)"
| destroyed: "destroying w = Awaiting \<Longrightarrow> promise_settled w \<Longrightarrow>
    worker_step D C (w, s) (w\<lparr>destroying := Returned\<rparr>, s)"

text \<open>The rest of the process: the hooks are called, and requests and webhooks arrive.\<close>

inductive process_step ::
  "'d orm \<Rightarrow> 'r redis_client \<Rightarrow> worker \<times> ('d, 'r) node \<Rightarrow> worker \<times> ('d, 'r) node \<Rightarrow> bool"
  for D :: "'d orm" and C :: "'r redis_client" where
  init: "workerPromise w = None \<Longrightarrow> destroying w = NotCalled \<Longrightarrow>
    process_step D C (w, s) (worker_onModuleInit w, s)"
| destroy: "destroying w = NotCalled \<Longrightarrow> process_step D C (w, s) (worker_onModuleDestroy w, s)"
| working: "worker_step D C (w, s) (w', s') \<Longrightarrow> process_step D C (w, s) (w', s')"
| asked: "post_payment e D C dto headerKey s = (r, s') \<Longrightarrow> process_step D C (w, s) (w, s')"
| called: "webhook g e D C req s = (reply, s') \<Longrightarrow> process_step D C (w, s) (w, s')"

inductive_cases worker_stepE: "worker_step D C (w, s) (w', s')"

inductive_cases process_stepE: "process_step D C (w, s) (w', s')"

inductive_simps worker_step_simps: "worker_step D C (w, s) (w', s')"

subsection \<open>What every state of the process satisfies\<close>

definition worker_inv :: "worker \<Rightarrow> bool" where
  "worker_inv w \<longleftrightarrow> (destroying w \<noteq> NotCalled \<longrightarrow> \<not> isActive w) \<and> (destroying w = Returned \<longrightarrow> promise_settled w) \<and>
     (isActive w \<longrightarrow> workerPromise w \<noteq> None \<and> workerPromise w \<noteq> Some Stopped)"

lemma worker_inv_new: "worker_inv new_worker"
  by (simp add: worker_inv_def new_worker_def)

lemma process_step_inv: "process_step D C (w, s) (w', s') \<Longrightarrow> worker_inv w \<Longrightarrow> worker_inv w'"
  by (erule process_stepE)
    (auto simp: worker_inv_def worker_onModuleInit_def worker_onModuleDestroy_def promise_settled_def elim!: worker_stepE)

abbreviation reaches ::
  "'d orm \<Rightarrow> 'r redis_client \<Rightarrow> worker \<times> ('d, 'r) node \<Rightarrow> worker \<times> ('d, 'r) node \<Rightarrow> bool" where
  "reaches D C \<equiv> (process_step D C)\<^sup>*\<^sup>*"

lemma reaches_inv: "reaches D C (w, s) (w', s') \<Longrightarrow> worker_inv w \<Longrightarrow> worker_inv w'"
  by (induction rule: rtranclp_induct2) (auto dest: process_step_inv)

text \<open>On the state of the process, every step is one of the service's.\<close>

lemma process_step_serves: "process_step D C (w, s) (w', s') \<Longrightarrow> s' = s \<or> serves D C s s'"
  by (erule process_stepE) (auto elim!: worker_stepE intro: serves.intros)

lemma reaches_serves: "reaches D C (w, s) (w', s') \<Longrightarrow> (serves D C)\<^sup>*\<^sup>* s s'"
  by (induction rule: rtranclp_induct2) (auto dest!: process_step_serves intro: rtranclp.rtrancl_into_rtrancl)

subsection \<open>Shutting down\<close>

text \<open>The steps the worker can still take once its flag is down.\<close>

fun steps_left :: "worker \<Rightarrow> nat" where
  "steps_left w = (case destroying w of Returned \<Rightarrow> 0 | _ \<Rightarrow> Suc (case workerPromise w of
     Some InIteration \<Rightarrow> 2 | Some AtCheck \<Rightarrow> 1 | _ \<Rightarrow> 0))"

lemma shutdown_proceeds:
  assumes "destroying w = Awaiting"
  shows "\<exists>w' s'. worker_step D C (w, s) (w', s')"
proof (cases "workerPromise w")
  case None
  with worker_step.destroyed [OF assms] show ?thesis by (fastforce simp: promise_settled_def)
next
  case (Some l)
  show ?thesis
  proof (cases l)
    case AtCheck
    with Some worker_step.check [of w D C s] worker_step.leave [of w D C s] show ?thesis by (cases "isActive w") blast+
  next
    case InIteration
    with Some worker_step.iterate [OF _ surjective_pairing, of w D C] show ?thesis by blast
  next
    case Stopped
    with Some worker_step.destroyed [OF assms] show ?thesis by (fastforce simp: promise_settled_def)
  qed
qed

lemma shutdown_decreases:
  "worker_step D C (w, s) (w', s') \<Longrightarrow> worker_inv w \<Longrightarrow> destroying w = Awaiting \<Longrightarrow>
     steps_left w' < steps_left w \<and> destroying w' \<in> {Awaiting, Returned}"
  by (erule worker_stepE) (auto simp: worker_inv_def)

lemma shutdown_over:
  "worker_inv w \<Longrightarrow> destroying w = Returned \<Longrightarrow> \<not> worker_step D C (w, s) (w', s')"
  by (auto simp: worker_inv_def promise_settled_def elim!: worker_stepE)

text \<open>While the flag is down, the worker processes the event it has taken, and no other.\<close>

lemma worker_finishes:
  assumes "worker_inv w" "destroying w = Awaiting"
  shows "\<exists>w' s'. (worker_step D C)\<^sup>*\<^sup>* (w, s) (w', s') \<and> destroying w' = Returned \<and>
    (s' = s \<or> workerPromise w = Some InIteration \<and> poll_once D C clk s = (Inr (), s'))"
proof -
  have inactive: "\<not> isActive w" using assms by (simp add: worker_inv_def)
  define w2 where "w2 = w\<lparr>workerPromise := Some Stopped, destroying := Returned\<rparr>"
  have leave: "(worker_step D C)\<^sup>*\<^sup>* (w\<lparr>workerPromise := Some AtCheck\<rparr>, s') (w2, s')" for s'
  proof -
    let ?w = "w\<lparr>workerPromise := Some AtCheck\<rparr>"
    have "worker_step D C (?w, s') (?w\<lparr>workerPromise := Some Stopped\<rparr>, s')" by (rule worker_step.leave) (simp_all add: inactive)
    moreover have "worker_step D C (?w\<lparr>workerPromise := Some Stopped\<rparr>, s') (?w\<lparr>workerPromise := Some Stopped\<rparr>\<lparr>destroying := Returned\<rparr>, s')"
      by (rule worker_step.destroyed) (simp_all add: assms promise_settled_def)
    ultimately show ?thesis by (simp add: w2_def)
  qed
  show ?thesis
  proof (cases "workerPromise w = Some AtCheck \<or> workerPromise w = Some InIteration")
    case False
    then have "promise_settled w" using loop.exhaust by (cases "workerPromise w") (auto simp: promise_settled_def)
    with worker_step.destroyed [OF assms(2), of D C s] show ?thesis
      by (intro exI [of _ "w\<lparr>destroying := Returned\<rparr>"] exI [of _ s]) auto
  next
    case True
    then show ?thesis
    proof
      assume p: "workerPromise w = Some AtCheck"
      then have "w\<lparr>workerPromise := Some AtCheck\<rparr> = w" by simp
      with leave [of s] show ?thesis by (intro exI [of _ w2] exI [of _ s]) (simp add: w2_def)
    next
      assume p: "workerPromise w = Some InIteration"
      obtain s' where run: "poll_once D C clk s = (Inr (), s')" using poll_once_returns by blast
      from worker_step.iterate [OF p run] leave [of s'] have "(worker_step D C)\<^sup>*\<^sup>* (w, s) (w2, s')" by simp
      with p run show ?thesis by (intro exI [of _ w2] exI [of _ s']) (simp add: w2_def)
    qed
  qed
qed

text \<open>An active worker runs \<open>pollQueue\<close>.\<close>

lemma worker_polls:
  assumes "workerPromise w = Some AtCheck" "isActive w" "pollQueue n D C clk s = (Inr (), s')"
  shows "(worker_step D C)\<^sup>*\<^sup>* (w, s) (w, s')"
  using assms(3)
proof (induction n arbitrary: s)
  case (Suc n)
  obtain s1 where one: "poll_once D C clk s = (Inr (), s1)" using poll_once_returns by blast
  with Suc.prems have rest: "pollQueue n D C clk s1 = (Inr (), s')" by (simp add: andThen_Inr)
  let ?w = "w\<lparr>workerPromise := Some InIteration\<rparr>"
  have "worker_step D C (w, s) (?w, s)" by (rule worker_step.check [OF assms(1,2)])
  moreover have "worker_step D C (?w, s) (?w\<lparr>workerPromise := Some AtCheck\<rparr>, s1)" by (rule worker_step.iterate [OF _ one]) simp
  moreover have "?w\<lparr>workerPromise := Some AtCheck\<rparr> = w" using assms(1) by simp
  ultimately show ?case using Suc.IH [OF rest] by (metis converse_rtranclp_into_rtranclp)
qed simp

end
