(* ===== verification/Concurrency.thy ===== *)
theory Concurrency
  imports Refinement
begin

text \<open>
  Requests that run at the same time. Every call of the database may be preceded by steps of
  other requests, webhook handlers and workers; what a request promises then rests on the
  unique index of the idempotency keys alone, whatever becomes of the lock in Redis.
\<close>

subsection \<open>Whom a request charges\<close>

text \<open>
  On any database and any Redis: the loop charges some of the first gateways it was given, each
  once, for its own transaction.
\<close>

definition charged_some ::
  "(GatewayProvider \<times> charge_request) list \<Rightarrow> string \<Rightarrow> create_dto \<Rightarrow> string \<Rightarrow> GatewayProvider list \<Rightarrow> ('d, 'r) node \<Rightarrow> bool" where
  "charged_some cs key dto i gs s \<longleftrightarrow> (\<exists>n. charges s = cs @ sent key dto i (take n gs))"

lemma charged_none: "charges s = cs \<Longrightarrow> charged_some cs key dto i gs s"
  unfolding charged_some_def by (rule exI [of _ 0]) (simp add: sent_def)

lemma charged_more:
  "charged_some (cs @ [(g, charge_request_of key dto i g)]) key dto i gs s \<Longrightarrow> charged_some cs key dto i (g # gs) s"
  unfolding charged_some_def by (elim exE) (rule_tac x = "Suc n" in exI, simp add: sent_def)

lemma call_gateway_charges:
  "hoare (\<lambda>s. charges s = cs) (call_gateway w key dto i g)
     (\<lambda>_ s. charges s = cs @ [(g, charge_request_of key dto i g)]) E"
  by (simp add: hoare_def call_gateway_def)

lemma keeps_charges_remember:
  "keeps (\<lambda>s. charges s = cs) (remember C key t)"
  unfolding remember_def by (intro keeping)

lemma execute_charges:
  "hoare (\<lambda>s. charges s = cs) (execute w D C key dto i e gs)
     (\<lambda>_. charged_some cs key dto i gs) (\<lambda>_. charged_some cs key dto i gs)"
proof (induction gs arbitrary: cs e)
  case Nil
  show ?case unfolding execute.simps by (simp add: hoare_def charged_none)
next
  case (Cons g gs)
  let ?cs = "cs @ [(g, charge_request_of key dto i g)]"
  have same: "hoare (\<lambda>s. charges s = ?cs) m (\<lambda>_. charged_some cs key dto i (g # gs)) (\<lambda>_. charged_some cs key dto i (g # gs))"
    if "keeps (\<lambda>s. charges s = ?cs) m" for m :: "(('d, 'r) node, create_result) io"
    by (rule hoare_conseq [OF that]) (auto intro: charged_more charged_none)
  have on: "hoare (\<lambda>s. charges s = ?cs) m (\<lambda>_ s. charges s = ?cs) (\<lambda>_. charged_some cs key dto i (g # gs))"
    if "keeps (\<lambda>s. charges s = ?cs) m" for m :: "(('d, 'r) node, 'x) io"
    by (rule hoare_conseq [OF that]) (auto intro: charged_more charged_none)
  have rest: "hoare (\<lambda>s. charges s = ?cs) (execute w D C key dto i e' gs)
      (\<lambda>_. charged_some cs key dto i (g # gs)) (\<lambda>_. charged_some cs key dto i (g # gs))" for e'
    by (rule hoare_conseq [OF Cons.IH]) (auto intro: charged_more)
  have before: "hoare (\<lambda>s. charges s = cs) (on_db m) (\<lambda>_ s. charges s = cs) (\<lambda>_. charged_some cs key dto i (g # gs))"
    for m :: "('d, 'x) io"
    by (rule hoare_conseq [OF keeps_charges_on_db [where P = "\<lambda>c. c = cs"]]) (auto intro: charged_none)
  have after: "hoare (\<lambda>s. charges s = ?cs)
     (if success (snd a) then
       andThen (on_db (transition D (clock w) i SUCCESS (success_meta g (snd a)))) (\<lambda>updatedTxn.
       andThen (recordSuccess D C g (attempt_latency a)) (\<lambda>_.
       andThen (remember C key updatedTxn) (\<lambda>_. ret (Entity updatedTxn))))
     else
       andThen (recordFailure D C g (attempt_latency a)) (\<lambda>_.
       if gs \<noteq> [] then
         andThen (on_db (transition D (clock w) i RETRY_PENDING (retry_meta g (snd a)))) (\<lambda>_.
         execute w D C key dto i (error (snd a)) gs)
       else
         andThen (on_db (transition D (clock w) i FAILED (failed_meta g (snd a)))) (\<lambda>failedTxn.
         andThen (remember C key failedTxn) (\<lambda>_. ret (Entity failedTxn)))))
     (\<lambda>_. charged_some cs key dto i (g # gs)) (\<lambda>_. charged_some cs key dto i (g # gs))" for a
  proof (cases "success (snd a)")
    case True
    then show ?thesis by (simp only: if_True) (rule same, intro keeping keeps_charges_remember)
  next
    case False
    show ?thesis
      unfolding if_not_P [OF False]
    proof (rule hoare_andThen [OF _ on])
      show "keeps (\<lambda>s. charges s = ?cs) (recordFailure D C g (attempt_latency a))" by (intro keeping)
      show "hoare (\<lambda>s. charges s = ?cs)
        (if gs \<noteq> [] then
          andThen (on_db (transition D (clock w) i RETRY_PENDING (retry_meta g (snd a)))) (\<lambda>_.
          execute w D C key dto i (error (snd a)) gs)
        else
          andThen (on_db (transition D (clock w) i FAILED (failed_meta g (snd a)))) (\<lambda>failedTxn.
          andThen (remember C key failedTxn) (\<lambda>_. ret (Entity failedTxn))))
        (\<lambda>_. charged_some cs key dto i (g # gs)) (\<lambda>_. charged_some cs key dto i (g # gs))" for x
      proof (cases "gs = []")
        case True
        then have none: "\<not> gs \<noteq> []" by simp
        show ?thesis unfolding if_not_P [OF none] by (intro same keeping keeps_charges_remember)
      next
        case False
        then show ?thesis unfolding if_P [OF False]
          by (intro hoare_andThen [OF rest on] keeping)
      qed
    qed
  qed
  show ?case
    unfolding execute.simps
    by (rule hoare_andThen [OF _ before], rule hoare_andThen [OF _ before],
        rule hoare_andThen [OF after call_gateway_charges])
qed

text \<open>A candidate carries the gateway of its statistics, and the ranking names no gateway twice.\<close>

lemma candidate_of_provider: "candidate_of D C amt st s = (Inr c, s') \<Longrightarrow> provider c = gateway st"
  by (auto simp: candidate_of_def half_open_def split: if_splits elim!: andThen_InrD)

lemma candidates_providers:
  "promise_all (map (candidate_of D C amt) sts) s = (Inr cs, s') \<Longrightarrow> map provider cs = map gateway sts"
  by (induction sts arbitrary: s cs)
    (auto simp: Let_def split: prod.splits sum.splits dest: candidate_of_provider)

lemma distinct_map_sort_key: "distinct (map g (sort_key f xs)) \<longleftrightarrow> distinct (map g xs)"
  by (simp add: distinct_map)

lemma rank_candidates_distinct:
  assumes "distinct (map provider cs)"
  shows "distinct (rank_candidates cs)"
proof -
  have "distinct (map provider (filter P cs))" for P using assms by (auto simp: distinct_map inj_on_def)
  with assms show ?thesis
    by (simp add: rank_candidates_def Let_def js_sort_by_score js_sort_by_cost distinct_map_sort_key)
qed

lemma put_stats_gateways:
  assumes "distinct (map gateway (stats T))"
  shows "distinct (map gateway (stats (put_stats st T)))"
proof (cases "stats_of T (gateway st) = None")
  case False
  have "map gateway (map (\<lambda>r. if gateway r = gateway st then st else r) xs) = map gateway xs" for xs
    by (induction xs) auto
  with assms False show ?thesis by (auto simp: put_stats_def simp del: map_map)
next
  case True
  with assms show ?thesis by (auto simp: put_stats_def stats_of_def find_None_iff')
qed

lemma ledger_run_gateways:
  "ledger_run T T' \<Longrightarrow> distinct (map gateway (stats T)) \<Longrightarrow> distinct (map gateway (stats T'))"
proof (induction rule: rtranclp_induct)
  case (step A B)
  have "distinct (map gateway (stats B))" if "ledger_step A B" "distinct (map gateway (stats A))"
    using that
  proof (cases rule: ledger_step.cases)
    case (moved c i s m t')
    from moved(1) have "stats B = stats A" by (auto elim: transitionedE)
    with that show ?thesis by simp
  qed (use that in \<open>simp_all add: put_stats_gateways put_event_def\<close>)
  with step show ?case by blast
qed

subsection \<open>One insert, one payer\<close>

text \<open>
  A call charged nobody, or it inserted the row of the key itself, at a moment when the table
  had no row with the key, and charged for that row, no gateway twice.
\<close>

definition paid_once ::
  "tables \<Rightarrow> string \<Rightarrow> create_dto \<Rightarrow> (GatewayProvider \<times> charge_request) list \<Rightarrow> tables \<Rightarrow>
   (GatewayProvider \<times> charge_request) list \<Rightarrow> bool" where
  "paid_once T0 key dto cs T1 cs' \<longleftrightarrow> cs' = cs \<or>
     (\<exists>T t gs. ledger_run T0 T \<and> txn_by_key T key = None \<and> txn_by_id T (txnId t) = None \<and> idempotencyKey t = key \<and>
        ledger_run (T\<lparr>transactions := transactions T @ [t]\<rparr>) T1 \<and> distinct gs \<and> cs' = cs @ sent key dto (txnId t) gs)"

lemma keeps_conj: "keeps P m \<Longrightarrow> keeps Q m \<Longrightarrow> keeps (\<lambda>s. P s \<and> Q s) m"
  by (fastforce simp: hoare_def split: prod.splits sum.splits)

lemma hoare_conj: "hoare P m Q E \<Longrightarrow> hoare P' m Q' E' \<Longrightarrow> hoare (\<lambda>s. P s \<and> P' s) m (\<lambda>x s. Q x s \<and> Q' x s) (\<lambda>e s. E e s \<and> E' e s)"
  by (fastforce simp: hoare_def split: prod.splits sum.splits)

definition unpaid :: "tables \<Rightarrow> ('d \<Rightarrow> tables) \<Rightarrow> (GatewayProvider \<times> charge_request) list \<Rightarrow> ('d, 'r) node \<Rightarrow> bool" where
  "unpaid T0 tabs cs s \<longleftrightarrow> ledgered T0 tabs s \<and> charges s = cs"

definition once ::
  "tables \<Rightarrow> ('d \<Rightarrow> tables) \<Rightarrow> string \<Rightarrow> create_dto \<Rightarrow> (GatewayProvider \<times> charge_request) list \<Rightarrow> ('d, 'r) node \<Rightarrow> bool" where
  "once T0 tabs key dto cs s \<longleftrightarrow> ledgered T0 tabs s \<and> paid_once T0 key dto cs (tabs (db s)) (charges s)"

lemma unpaid_once: "unpaid T0 tabs cs s \<Longrightarrow> once T0 tabs key dto cs s"
  by (simp add: unpaid_def once_def paid_once_def)

lemma hoare_weaken:
  "hoare P m Q R \<Longrightarrow> (\<And>e s. R e s \<Longrightarrow> E e s) \<Longrightarrow> hoare P m Q E"
  by (erule hoare_conseq) auto

context shared_database
begin

lemma keeps_unpaid: "keeps (ledgered T0 tabs) m \<Longrightarrow> keeps (\<lambda>s. charges s = cs) m \<Longrightarrow> keeps (unpaid T0 tabs cs) m"
  unfolding unpaid_def by (rule keeps_conj)

lemma getRankedGateways_distinct:
  assumes "distinct (map gateway (stats T0))"
  shows "hoare (unpaid T0 tabs cs) (getRankedGateways env D C amt) (\<lambda>gs s. unpaid T0 tabs cs s \<and> distinct gs) (\<lambda>_. unpaid T0 tabs cs)"
proof (rule hoareI)
  fix s gs s'
  assume u: "unpaid T0 tabs cs s" and run: "getRankedGateways env D C amt s = (Inr gs, s')"
  have keeps: "keeps (unpaid T0 tabs cs) (getRankedGateways env D C amt)"
    by (intro keeps_unpaid keeps_ledgered_getRankedGateways keeping)
  let ?ok = "\<lambda>st. env ''NODE_ENV'' = Some ''test'' \<or> isGatewayConfigured env (gateway st)"
  from run obtain sts s1 cs' s2 where f: "on_db (findStats D) s = (Inr sts, s1)"
    and p: "promise_all (map (candidate_of D C amt) (filter ?ok sts)) s1 = (Inr cs', s2)" and gs: "gs = rank_candidates cs'"
    by (auto simp: getRankedGateways_def Let_def elim!: andThen_InrD)
  from f findStats_moment obtain T where T: "ledger_run (tabs (db s)) T" "mset sts = mset (stats T)"
    by (fastforce simp: on_db_eq)
  from u T(1) have "ledger_run T0 T" by (auto simp: unpaid_def ledgered_def intro: rtranclp_trans)
  from ledger_run_gateways [OF this assms] T(2) have "distinct (map gateway sts)"
    by (metis mset_map mset_eq_imp_distinct_iff)
  then have "distinct (map gateway (filter ?ok sts))" by (auto simp: distinct_map inj_on_def)
  with candidates_providers [OF p] rank_candidates_distinct gs keepsD [OF keeps u run]
  show "unpaid T0 tabs cs s' \<and> distinct gs" by simp
next
  fix s e s'
  assume u: "unpaid T0 tabs cs s" and run: "getRankedGateways env D C amt s = (Inl e, s')"
  have "keeps (unpaid T0 tabs cs) (getRankedGateways env D C amt)"
    by (intro keeps_unpaid keeps_ledgered_getRankedGateways keeping)
  from keepsD [OF this u run] show "unpaid T0 tabs cs s'" .
qed

lemma insertTxn_unpaid:
  "hoare (unpaid T0 tabs cs) (on_db (insertTxn D (new_payment key dto g gs)))
     (\<lambda>t s. \<exists>T. (ledger_run T0 T \<and> ledger_step T (T\<lparr>transactions := transactions T @ [t]\<rparr>) \<and> txn_by_key T key = None \<and> txn_by_id T (txnId t) = None \<and> idempotencyKey t = key) \<and>
        unpaid (T\<lparr>transactions := transactions T @ [t]\<rparr>) tabs cs s)
     (\<lambda>_. unpaid T0 tabs cs)"
proof (rule hoareI)
  fix s t s'
  assume u: "unpaid T0 tabs cs s" and run: "on_db (insertTxn D (new_payment key dto g gs)) s = (Inr t, s')"
  then have "insertTxn D (new_payment key dto g gs) (db s) = (Inr t, db s')" and ch: "charges s' = charges s"
    by (simp_all add: on_db_eq)
  from insertTxn_moment [OF this(1)] obtain T where "ledger_run (tabs (db s)) T"
    "ledger_step T (T\<lparr>transactions := transactions T @ [t]\<rparr>)" "txn_by_key T key = None"
    "txn_by_id T (txnId t) = None" "idempotencyKey t = key" "ledger_run (T\<lparr>transactions := transactions T @ [t]\<rparr>) (tabs (db s'))"
    by (auto simp: new_payment_def txn_row_def)
  with u ch show "\<exists>T. (ledger_run T0 T \<and> ledger_step T (T\<lparr>transactions := transactions T @ [t]\<rparr>) \<and> txn_by_key T key = None \<and> txn_by_id T (txnId t) = None \<and> idempotencyKey t = key) \<and>
        unpaid (T\<lparr>transactions := transactions T @ [t]\<rparr>) tabs cs s'"
    by (auto simp: unpaid_def ledgered_def intro: rtranclp_trans)
next
  fix s e s'
  assume u: "unpaid T0 tabs cs s" and run: "on_db (insertTxn D (new_payment key dto g gs)) s = (Inl e, s')"
  have "keeps (unpaid T0 tabs cs) (on_db (insertTxn D (new_payment key dto g gs)))"
    by (intro keeps_unpaid keeps_ledgered_insertTxn keeping) (simp add: new_payment_def)
  from keepsD [OF this u run] show "unpaid T0 tabs cs s'" .
qed

lemma pay_once:
  assumes new: "ledger_run T0 T" "ledger_step T (T\<lparr>transactions := transactions T @ [t]\<rparr>)" "txn_by_key T key = None"
      "txn_by_id T (txnId t) = None" "idempotencyKey t = key"
    and d: "distinct gs"
  shows "hoare (unpaid (T\<lparr>transactions := transactions T @ [t]\<rparr>) tabs cs)
     (andThen (on_db (insertAudit D (creation_audit t g))) (\<lambda>_. execute w D C key dto (txnId t) e gs))
     (\<lambda>_. once T0 tabs key dto cs) (\<lambda>_. once T0 tabs key dto cs)"
proof -
  let ?T = "T\<lparr>transactions := transactions T @ [t]\<rparr>"
  have run: "ledger_run T0 ?T" using new(1,2) by simp
  have settle: "once T0 tabs key dto cs s" if "ledgered ?T tabs s" "charged_some cs key dto (txnId t) gs s" for s :: "('d, 'r) node"
  proof -
    from that(2) obtain n where "charges s = cs @ sent key dto (txnId t) (take n gs)" by (auto simp: charged_some_def)
    moreover have "distinct (take n gs)" using d by simp
    ultimately show ?thesis
      using that(1) new run unfolding once_def paid_once_def ledgered_def by (blast intro: rtranclp_trans)
  qed
  have audit: "keeps (unpaid ?T tabs cs) (on_db (insertAudit D (creation_audit t g)))"
    by (intro keeps_unpaid keeps_ledgered_insertAudit keeping) (simp_all add: creation_audit_def)
  show ?thesis
  proof (rule hoare_andThen)
    show "hoare (unpaid ?T tabs cs) (on_db (insertAudit D (creation_audit t g))) (\<lambda>_. unpaid ?T tabs cs) (\<lambda>_. once T0 tabs key dto cs)"
      by (rule hoare_weaken [OF audit], rule settle) (simp_all add: unpaid_def charged_none)
    show "hoare (unpaid ?T tabs cs) (execute w D C key dto (txnId t) e gs) (\<lambda>_. once T0 tabs key dto cs) (\<lambda>_. once T0 tabs key dto cs)" for x
      unfolding unpaid_def
      by (rule hoare_conseq [OF hoare_conj [OF keeps_ledgered_execute execute_charges]]) (auto intro: settle)
  qed
qed

text \<open>The whole request, on every path.\<close>

lemma create_with_lock_once:
  assumes "distinct (map gateway (stats T0))"
  shows "hoare (unpaid T0 tabs cs) (create_with_lock w D C key dto) (\<lambda>_. once T0 tabs key dto cs) (\<lambda>_. once T0 tabs key dto cs)"
proof -
  have quiet: "hoare (unpaid T0 tabs cs) m (\<lambda>_. once T0 tabs key dto cs) (\<lambda>_. once T0 tabs key dto cs)"
    if "keeps (unpaid T0 tabs cs) m" for m :: "(('d, 'r) node, create_result) io"
    by (rule hoare_conseq [OF that]) (auto intro: unpaid_once)
  have early: "hoare P m Q (\<lambda>_. once T0 tabs key dto cs)" if "hoare P m Q (\<lambda>_. unpaid T0 tabs cs)"
    for P Q and m :: "(('d, 'r) node, 'x) io"
    by (rule hoare_weaken [OF that]) (rule unpaid_once)
  have answer: "keeps (unpaid T0 tabs cs) (answer_existing C key t)" for t
    unfolding answer_existing_def
    by (intro keeping keeps_unpaid keeps_ledgered_remember keeps_charges_remember)
  have find: "keeps (unpaid T0 tabs cs) (on_db (findTxnByKey D key))" by (intro keeps_unpaid keeps_ledgered keeping)
  have pay: "hoare (\<lambda>s. unpaid T0 tabs cs s \<and> distinct (g # gs))
      (andThen (on_db (insertTxn D (new_payment key dto g gs))) (\<lambda>saved.
       andThen (on_db (insertAudit D (creation_audit saved g))) (\<lambda>_. execute w D C key dto (txnId saved) e (g # gs))))
      (\<lambda>_. once T0 tabs key dto cs) (\<lambda>_. once T0 tabs key dto cs)" for g gs e
  proof (rule hoare_assume [where A = "distinct (g # gs)", THEN hoare_pre])
    assume d: "distinct (g # gs)"
    show "hoare (unpaid T0 tabs cs)
      (andThen (on_db (insertTxn D (new_payment key dto g gs))) (\<lambda>saved.
       andThen (on_db (insertAudit D (creation_audit saved g))) (\<lambda>_. execute w D C key dto (txnId saved) e (g # gs))))
      (\<lambda>_. once T0 tabs key dto cs) (\<lambda>_. once T0 tabs key dto cs)"
      by (rule hoare_andThen [OF _ early [OF insertTxn_unpaid]], rule hoare_ex, rule hoare_assume) (rule pay_once, use d in auto)
  qed auto
  have ranked: "hoare (\<lambda>s. unpaid T0 tabs cs s \<and> distinct rankedGateways)
      (case rankedGateways of
         [] \<Rightarrow> throw no_gateways
       | g # gs \<Rightarrow>
           andThen (on_db (insertTxn D (new_payment key dto g gs))) (\<lambda>saved.
           andThen (on_db (insertAudit D (creation_audit saved g))) (\<lambda>_.
           execute w D C key dto (txnId saved) (Some (JStr ''No gateways available'')) (g # gs))))
      (\<lambda>_. once T0 tabs key dto cs) (\<lambda>_. once T0 tabs key dto cs)" for rankedGateways
  proof (cases rankedGateways)
    case Nil
    then show ?thesis by (simp add: hoare_def unpaid_once)
  next
    case (Cons g gs)
    show ?thesis unfolding Cons list.case by (rule pay)
  qed
  show ?thesis
    unfolding create_with_lock_def
  proof (rule hoare_andThen [OF _ early [OF find]])
    fix existing
    show "hoare (unpaid T0 tabs cs)
      (case existing of Some t \<Rightarrow> answer_existing C key t
       | None \<Rightarrow> andThen (getRankedGateways (getenv w) D C (dto_amount dto)) (\<lambda>rankedGateways. case rankedGateways of
           [] \<Rightarrow> throw no_gateways
         | primaryGateway # fallbacks \<Rightarrow>
             andThen (on_db (insertTxn D (new_payment key dto primaryGateway fallbacks))) (\<lambda>saved.
             andThen (on_db (insertAudit D (creation_audit saved primaryGateway))) (\<lambda>_.
             execute w D C key dto (txnId saved) (Some (JStr ''No gateways available''))
               (primaryGateway # fallbacks)))))
      (\<lambda>_. once T0 tabs key dto cs) (\<lambda>_. once T0 tabs key dto cs)"
    proof (cases existing)
      case None
      show ?thesis unfolding None option.case
        by (rule hoare_andThen [OF ranked early [OF getRankedGateways_distinct [OF assms]]])
    next
      case (Some t)
      show ?thesis unfolding Some option.case by (rule quiet [OF answer])
    qed
  qed
qed

lemma create_once:
  assumes "distinct (map gateway (stats T0))"
  shows "hoare (unpaid T0 tabs cs) (create w D C key dto) (\<lambda>_. once T0 tabs key dto cs) (\<lambda>_. once T0 tabs key dto cs)"
proof -
  have redis: "keeps (unpaid T0 tabs cs) (on_redis m)" for m :: "('r redis_state, 'x) io"
    by (intro keeps_unpaid keeps_ledgered keeping)
  have late: "keeps (once T0 tabs key dto cs) (on_redis m)" for m :: "('r redis_state, 'x) io"
    by (rule keepsI) (simp add: once_def ledgered_def on_redis_eq)
  have answer: "keeps (unpaid T0 tabs cs) (answer_existing C key t)" for t
    unfolding answer_existing_def
    by (intro keeping keeps_unpaid keeps_ledgered_remember keeps_charges_remember)
  have "keeps (unpaid T0 tabs cs) (create_without_lock w D C key)"
    unfolding create_without_lock_def
    by (intro keeping redis answer keeps_unpaid keeps_ledgered)
  then have without: "hoare (unpaid T0 tabs cs) (create_without_lock w D C key) (\<lambda>_. once T0 tabs key dto cs) (\<lambda>_. once T0 tabs key dto cs)"
    by (rule hoare_conseq) (auto intro: unpaid_once)
  have undo: "keeps (once T0 tabs key dto cs) (andThen (on_redis (redis_del C (redis_key key))) (\<lambda>_. throw e))" for e :: exn
    by (intro keeping late)
  show ?thesis
    unfolding create_def
  proof (rule hoare_andThen [OF _ hoare_weaken [OF redis]])
    show "hoare (unpaid T0 tabs cs)
      (if \<not> locked then create_without_lock w D C key
       else catching (create_with_lock w D C key dto) (\<lambda>e. andThen (on_redis (redis_del C (redis_key key))) (\<lambda>_. throw e)))
      (\<lambda>_. once T0 tabs key dto cs) (\<lambda>_. once T0 tabs key dto cs)" for locked
      by (cases locked) (simp_all add: without hoare_catching [OF undo create_with_lock_once [OF assms]])
  qed (rule unpaid_once)
qed

lemma create_charges_once:
  assumes "create w D C key dto s = (r, s')" "distinct (map gateway (stats (tabs (db s))))"
  shows "ledger_run (tabs (db s)) (tabs (db s')) \<and> paid_once (tabs (db s)) key dto (charges s) (tabs (db s')) (charges s')"
proof -
  have "unpaid (tabs (db s)) tabs (charges s) s" by (simp add: unpaid_def ledgered_def)
  with assms(1) hoare_InrD [OF create_once [OF assms(2)]] hoare_InlD [OF create_once [OF assms(2)]]
  have "once (tabs (db s)) tabs key dto (charges s) s'" by (cases r) blast+
  then show ?thesis by (simp add: once_def ledgered_def)
qed

end

subsection \<open>A database under interference\<close>

text \<open>
  \<open>shared_orm step D\<close> is the database \<open>D\<close> as one process among others sees it: before every
  call the next of the \<open>others\<close> takes its steps. A database transaction runs undisturbed once
  it has begun; that is what the row lock of the state machine is for.
\<close>

record ('d, 'e) shared_db =
  inner :: 'd
  others :: "'e list"

definition interfered :: "('e \<Rightarrow> 'd \<Rightarrow> 'd) \<Rightarrow> ('d, 'a) io \<Rightarrow> (('d, 'e) shared_db, 'a) io" where
  "interfered step m = (\<lambda>s.
     case others s of
       [] \<Rightarrow> (case m (inner s) of (r, d) \<Rightarrow> (r, \<lparr>inner = d, others = []\<rparr>))
     | e # es \<Rightarrow> (case m (step e (inner s)) of (r, d) \<Rightarrow> (r, \<lparr>inner = d, others = es\<rparr>)))"

definition undisturbed :: "(('d, 'e) shared_db, 'a) io \<Rightarrow> ('d, 'a) io" where
  "undisturbed m = (\<lambda>d. case m \<lparr>inner = d, others = []\<rparr> of (r, s) \<Rightarrow> (r, inner s))"

definition shared_orm :: "('e \<Rightarrow> 'd \<Rightarrow> 'd) \<Rightarrow> 'd orm \<Rightarrow> ('d, 'e) shared_db orm" where
  "shared_orm step D =
     \<lparr>findTxnById = (\<lambda>i. interfered step (findTxnById D i)),
      findTxnByKey = (\<lambda>k. interfered step (findTxnByKey D k)),
      findTxnByGatewayOrKey = (\<lambda>j k. interfered step (findTxnByGatewayOrKey D j k)),
      insertTxn = (\<lambda>n. interfered step (insertTxn D n)),
      saveTxn = (\<lambda>t. interfered step (saveTxn D t)),
      insertAudit = (\<lambda>n. interfered step (insertAudit D n)),
      findAudit = (\<lambda>i. interfered step (findAudit D i)),
      findStats = interfered step (findStats D),
      findStatsOf = (\<lambda>g. interfered step (findStatsOf D g)),
      saveStats = (\<lambda>st. interfered step (saveStats D st)),
      insertEvent = (\<lambda>n. interfered step (insertEvent D n)),
      findEvent = (\<lambda>i. interfered step (findEvent D i)),
      saveEvent = (\<lambda>e. interfered step (saveEvent D e)),
      inTransaction = (\<lambda>cb. interfered step (inTransaction D (undisturbed cb)))\<rparr>"

lemma shared_orm_calls:
  "findTxnById (shared_orm step D) i = interfered step (findTxnById D i)"
  "findTxnByKey (shared_orm step D) k = interfered step (findTxnByKey D k)"
  "findTxnByGatewayOrKey (shared_orm step D) j k = interfered step (findTxnByGatewayOrKey D j k)"
  "insertTxn (shared_orm step D) n = interfered step (insertTxn D n)"
  "saveTxn (shared_orm step D) t = interfered step (saveTxn D t)"
  "insertAudit (shared_orm step D) na = interfered step (insertAudit D na)"
  "findAudit (shared_orm step D) i = interfered step (findAudit D i)"
  "findStats (shared_orm step D) = interfered step (findStats D)"
  "findStatsOf (shared_orm step D) g = interfered step (findStatsOf D g)"
  "saveStats (shared_orm step D) st = interfered step (saveStats D st)"
  "insertEvent (shared_orm step D) ne = interfered step (insertEvent D ne)"
  "findEvent (shared_orm step D) i = interfered step (findEvent D i)"
  "saveEvent (shared_orm step D) e = interfered step (saveEvent D e)"
  "inTransaction (shared_orm step D) cb = interfered step (inTransaction D (undisturbed cb))"
  by (simp_all add: shared_orm_def)

lemma undisturbed_andThen:
  "undisturbed (andThen (interfered step m) f) = andThen m (\<lambda>x. undisturbed (f x))"
  by (rule ext) (simp add: undisturbed_def andThen_def interfered_def split: prod.split sum.split)

lemma undisturbed_ret [simp]: "undisturbed (ret x) = ret x" "undisturbed (throw e) = throw e"
  by (simp_all add: undisturbed_def fun_eq_iff)

text \<open>A transition under interference is a transition after some steps of others.\<close>

lemma transition_shared: "transition (shared_orm step D) c i s m = interfered step (transition D c i s m)"
proof -
  have "undisturbed (case found of
        None \<Rightarrow> throw (not_found i)
      | Some t \<Rightarrow>
          let fromS = currentState t in
          if s \<notin> set (VALID_TRANSITIONS fromS) then throw (invalid_transition fromS s)
          else andThen (interfered step (saveTxn D (apply_transition c s m t))) (\<lambda>updated.
               andThen (interfered step (insertAudit D (transition_audit updated fromS s m))) (\<lambda>_. ret updated))) =
     (case found of
        None \<Rightarrow> throw (not_found i)
      | Some t \<Rightarrow>
          let fromS = currentState t in
          if s \<notin> set (VALID_TRANSITIONS fromS) then throw (invalid_transition fromS s)
          else andThen (saveTxn D (apply_transition c s m t)) (\<lambda>updated.
               andThen (insertAudit D (transition_audit updated fromS s m)) (\<lambda>_. ret updated)))" for found
    by (cases found) (simp_all add: Let_def undisturbed_andThen)
  then show ?thesis by (simp only: transition_def shared_orm_calls undisturbed_andThen)
qed

locale interference = database D tabs for D :: "'d orm" and tabs :: "'d \<Rightarrow> tables" +
  fixes step :: "'e \<Rightarrow> 'd \<Rightarrow> 'd"
  assumes step_run: "ledger_run (tabs d) (tabs (step e d))"
begin

lemma interferedE:
  assumes "interfered step m s = (r, s')"
  obtains d where "ledger_run (tabs (inner s)) (tabs d)" "m d = (r, inner s')"
proof (cases "others s")
  case Nil
  with assms have "m (inner s) = (r, inner s')" by (auto simp: interfered_def split: prod.splits)
  then show ?thesis by (rule that [OF rtranclp.rtrancl_refl])
next
  case (Cons e es)
  with assms have "m (step e (inner s)) = (r, inner s')" by (auto simp: interfered_def split: prod.splits)
  then show ?thesis by (rule that [OF step_run])
qed

lemma interfered_run:
  assumes "interfered step m s = (r, s')" "\<And>d. m d = (r, inner s') \<Longrightarrow> ledger_run (tabs d) (tabs (inner s'))"
  shows "ledger_run (tabs (inner s)) (tabs (inner s'))"
  using assms(1) by (rule interferedE) (metis assms(2) rtranclp_trans)

lemma interfered_insertTxn:
  assumes "interfered step (insertTxn D n) s = (Inr t, s')" "new_currentState n = INITIATED"
  shows "\<exists>T. ledger_run (tabs (inner s)) T \<and> txn_by_key T (new_idempotencyKey n) = None \<and> txn_by_id T (txnId t) = None \<and>
    (\<exists>i c u. t = txn_row n i c u) \<and> ledger_step T (T\<lparr>transactions := transactions T @ [t]\<rparr>) \<and>
    ledger_run (T\<lparr>transactions := transactions T @ [t]\<rparr>) (tabs (inner s'))"
  using assms(1)
proof (rule interferedE)
  fix d
  assume d: "ledger_run (tabs (inner s)) (tabs d)" and "insertTxn D n d = (Inr t, inner s')"
  from insertTxn_now [OF this(2) assms(2)] obtain T where T: "ledger_run (tabs d) T" "txn_by_key T (new_idempotencyKey n) = None"
    "txn_by_id T (txnId t) = None" "\<exists>i c u. t = txn_row n i c u" "ledger_step T (T\<lparr>transactions := transactions T @ [t]\<rparr>)"
    "ledger_run (T\<lparr>transactions := transactions T @ [t]\<rparr>) (tabs (inner s'))" by blast
  from rtranclp_trans [OF d T(1)] T(2-) show ?thesis by (intro exI [of _ T] conjI)
qed

lemma interfered_findStats:
  assumes "interfered step (findStats D) s = (Inr sts, s')"
  shows "\<exists>T. ledger_run (tabs (inner s)) T \<and> mset sts = mset (stats T)"
  using assms by (rule interferedE) (meson findStats_now rtranclp_trans)

lemma interfered_findEvent:
  assumes "interfered step (findEvent D i) s = (r, s')"
  shows "\<exists>T. ledger_run (tabs (inner s)) T \<and> ledger_run T (tabs (inner s')) \<and>
    (case r of Inl _ \<Rightarrow> True | Inr found \<Rightarrow> found = event_by_id T i)"
  using assms
proof (rule interferedE)
  fix d
  assume d: "ledger_run (tabs (inner s)) (tabs d)" and run: "findEvent D i d = (r, inner s')"
  from findEvent_now [OF run] obtain T where T: "ledger_run (tabs d) T" "ledger_run T (tabs (inner s'))"
    "case r of Inl _ \<Rightarrow> True | Inr found \<Rightarrow> found = event_by_id T i" by blast
  from rtranclp_trans [OF d T(1)] T(2,3) show ?thesis by (intro exI [of _ T] conjI)
qed

lemma interfered_saveEvent:
  assumes "interfered step (saveEvent D (e\<lparr>processed := True, processedAt := Some c\<rparr>)) s = (r, s')"
    and "event_known (tabs (inner s)) e"
  shows "ledger_run (tabs (inner s)) (tabs (inner s'))"
  using assms(1)
proof (rule interferedE)
  fix d
  assume d: "ledger_run (tabs (inner s)) (tabs d)"
    and run: "saveEvent D (e\<lparr>processed := True, processedAt := Some c\<rparr>) d = (r, inner s')"
  from saveEvent_run [OF run ledger_run_known [OF d assms(2)]] d show ?thesis by (rule rtranclp_trans [rotated])
qed

end

sublocale interference \<subseteq> crowd: shared_database "shared_orm step D" "\<lambda>s. tabs (inner s)"
  by (unfold_locales; unfold shared_orm_calls transition_shared;
      (erule interfered_findStats interfered_findEvent | erule (1) interfered_insertTxn interfered_saveEvent
       | (erule interfered_run,
          (erule shared.run_findTxnById shared.run_findTxnByKey shared.run_findTxnByGatewayOrKey shared.run_findAudit shared.run_findStats
             shared.run_findStatsOf shared.run_saveStats
           | erule (1) shared.run_insertTxn shared.run_insertEvent shared.run_transition
           | erule (2) shared.run_insertAudit))))

subsection \<open>One payment per key\<close>

lemma appended_row: "txn_by_id T (txnId t) = None \<Longrightarrow> txn_by_id (T\<lparr>transactions := transactions T @ [t]\<rparr>) (txnId t) = Some t"
  by (simp add: txn_by_id_def find_append)

lemma paid_once_row:
  assumes "paid_once T0 key dto cs T1 cs'"
  obtains (none) "cs' = cs"
  | (row) i gs t where "cs' = cs @ sent key dto i gs" "distinct gs" "txn_by_id T1 i = Some t" "idempotencyKey t = key"
proof (cases "cs' = cs")
  case True
  then show ?thesis by (rule none)
next
  case False
  with assms obtain T t gs where t: "txn_by_id T (txnId t) = None" "idempotencyKey t = key" "distinct gs"
    "ledger_run (T\<lparr>transactions := transactions T @ [t]\<rparr>) T1" "cs' = cs @ sent key dto (txnId t) gs"
    unfolding paid_once_def by blast
  from ledger_run_le [OF t(4)] appended_row [OF t(1)] obtain t' where "txn_by_id T1 (txnId t) = Some t'" "evolved t t'"
    unfolding ledger_le_def by blast
  with t row show ?thesis by (auto simp: evolved_def)
qed

lemma row_later:
  assumes "ledger_run T T'" "txn_by_id T i = Some t"
  shows "\<exists>t'. txn_by_id T' i = Some t' \<and> idempotencyKey t' = idempotencyKey t"
  using ledger_run_le [OF assms(1)] assms(2) by (fastforce simp: ledger_le_def evolved_def)

lemma same_key_same_id:
  assumes "sound_ledger T" "txn_by_id T i = Some t" "txn_by_id T j = Some t'" "idempotencyKey t = idempotencyKey t'"
  shows "i = j"
proof -
  from assms(1) have "inj_on idempotencyKey (set (transactions T))" by (simp add: sound_ledger_def distinct_map)
  with assms(2-4) have "t = t'" by (auto dest: inj_onD txn_by_id_in)
  with assms(2,3) show ?thesis by (auto dest: txn_by_id_id)
qed

text \<open>Two calls for a key charge for the same row, the only one with the key.\<close>

lemma paid_once_same_row:
  assumes A: "paid_once TA key dto cs TA' cs'" "ledger_run TA' T" and B: "paid_once TB key dto2 ds TB' ds'" "ledger_run TB' T"
    and T: "sound_ledger T"
  shows "\<exists>i gs hs. cs' = cs @ sent key dto i gs \<and> ds' = ds @ sent key dto2 i hs \<and> distinct gs \<and> distinct hs"
proof -
  have nobody: "xs = xs @ sent key d i []" for xs d i by (simp add: sent_def)
  show ?thesis
    using A(1)
  proof (cases rule: paid_once_row)
    case none
    show ?thesis using B(1) none nobody [of cs dto] nobody [of ds dto2]
      by (cases rule: paid_once_row) (metis distinct.simps(1))+
  next
    case (row i gs t)
    show ?thesis
      using B(1)
    proof (cases rule: paid_once_row)
      case none
      with row nobody [of ds dto2 i] show ?thesis by (metis distinct.simps(1))
    next
      case b: (row j hs t2)
      from row_later [OF A(2) row(3)] row_later [OF B(2) b(3)] row(4) b(4)
      obtain t' t2' where "txn_by_id T i = Some t'" "txn_by_id T j = Some t2'" "idempotencyKey t' = idempotencyKey t2'" by auto
      from same_key_same_id [OF T this] row b show ?thesis by blast
    qed
  qed
qed

text \<open>A key that has its row keeps everyone from charging.\<close>

lemma paid_once_taken:
  assumes "paid_once T0 key dto cs T1 cs'" "txn_by_key T0 key = Some t" "distinct (map txnId (transactions T0))"
  shows "cs' = cs"
proof (rule ccontr)
  assume "cs' \<noteq> cs"
  with assms(1) obtain T where T: "ledger_run T0 T" "txn_by_key T key = None" unfolding paid_once_def by blast
  from assms(2) have t: "t \<in> set (transactions T0)" "idempotencyKey t = key"
    by (auto simp: txn_by_key_def dest: find_SomeD)
  with rows_member [OF t(1) assms(3)] have "txn_by_id T0 (txnId t) = Some t" by (simp add: rows_def)
  from row_later [OF T(1) this] t(2) obtain t' where "t' \<in> set (transactions T)" "idempotencyKey t' = key"
    by (auto dest: txn_by_id_in)
  with T(2) show False by (auto simp: txn_by_key_def find_None_iff')
qed

context interference
begin

text \<open>The whole service among others: requests, webhooks and workers in any sequence.\<close>

lemma serves_among_others:
  assumes "(serves (shared_orm step D) C)\<^sup>*\<^sup>* s s'"
  shows "ledger_run (tabs (inner (db s))) (tabs (inner (db s')))"
  using crowd.serves_ledger [OF assms] by simp

text \<open>A request among others.\<close>

lemma create_among_others:
  assumes run: "create w (shared_orm step D) C key dto s = (r, s')"
    and d: "distinct (map gateway (stats (tabs (inner (db s)))))" "distinct (map txnId (transactions (tabs (inner (db s)))))"
  shows "ledger_run (tabs (inner (db s))) (tabs (inner (db s'))) \<and>
    paid_once (tabs (inner (db s))) key dto (charges s) (tabs (inner (db s'))) (charges s') \<and>
    (txn_by_key (tabs (inner (db s))) key \<noteq> None \<longrightarrow> charges s' = charges s)"
  using crowd.create_charges_once [OF run d(1)] paid_once_taken [OF _ _ d(2)] by blast

end

subsection \<open>A crowd\<close>

text \<open>
  What others may do between two calls, for the witnesses: insert a payment, move one as the
  worker and other requests do, run a whole request of their own, or handle an event.
\<close>

datatype neighbour =
    Pays new_transaction
  | Moves timestamp string TransactionState metadata
  | Requests world string create_dto
  | Reconciles timestamp string

definition alone :: "schema_db \<Rightarrow> (schema_db, mem_server) node" where
  "alone d = \<lparr>db = d, redis = fresh_redis, charges = []\<rparr>"

fun neighbour_step :: "neighbour \<Rightarrow> schema_db \<Rightarrow> schema_db" where
  "neighbour_step (Pays n) d = snd (insertTxn schema_orm (n\<lparr>new_currentState := INITIATED\<rparr>) d)"
| "neighbour_step (Moves c i s m) d = snd (transition schema_orm c i s (m\<lparr>m_incrementAttempt := (s = PROCESSING)\<rparr>) d)"
| "neighbour_step (Requests w key dto) d = db (snd (create w schema_orm mem_client key dto (alone d)))"
| "neighbour_step (Reconciles clk i) d = db (snd (processEvent schema_orm clk i (alone d)))"

definition crowd_step :: "neighbour list \<Rightarrow> schema_db \<Rightarrow> schema_db" where
  "crowd_step es = fold neighbour_step es"

lemma alone_ledgered:
  assumes "keeps (ledgered (contents d) contents) m"
  shows "ledger_run (contents d) (contents (db (snd (m (alone d)))))"
proof -
  have "ledgered (contents d) contents (alone d)" by (simp add: ledgered_def alone_def)
  from keepsD [OF assms this surjective_pairing] show ?thesis by (simp add: ledgered_def)
qed

lemma neighbour_step_run: "ledger_run (contents d) (contents (neighbour_step e d))"
proof (cases e)
  case (Pays n)
  then show ?thesis using schema.insertTxn_run [OF surjective_pairing, of "n\<lparr>new_currentState := INITIATED\<rparr>" d] by simp
next
  case (Moves c i s m)
  then show ?thesis
    using schema.transition_run [OF surjective_pairing, where m = "m\<lparr>m_incrementAttempt := (s = PROCESSING)\<rparr>" and i = i and s = s and c = c and d = d] by simp
qed (simp_all add: alone_ledgered schema.shared.keeps_ledgered_create schema.shared.keeps_ledgered_processEvent)

interpretation busy: interference schema_orm contents crowd_step
proof
  fix d es
  show "ledger_run (contents d) (contents (crowd_step es d))"
    unfolding crowd_step_def
    by (induction es arbitrary: d) (auto intro: rtranclp_trans neighbour_step_run)
qed

text \<open>A request against the schema while others are at work before each of its calls.\<close>

definition busy_node :: "gateway_stats list \<Rightarrow> neighbour list list \<Rightarrow> ((schema_db, neighbour list) shared_db, mem_server) node" where
  "busy_node sts es = \<lparr>db = \<lparr>inner = fresh_db\<lparr>contents := InitSchema_up\<lparr>stats := sts\<rparr>\<rparr>, others = es\<rparr>,
     redis = fresh_redis, charges = []\<rparr>"

definition busy_create ::
  "create_dto \<Rightarrow> gateway_stats list \<Rightarrow> neighbour list list \<Rightarrow> (exn + create_result) \<times> ((schema_db, neighbour list) shared_db, mem_server) node" where
  "busy_create dto sts es = create test_world (shared_orm crowd_step schema_orm) mem_client ''k1'' dto (busy_node sts es)"

end
