(* ===== verification/Gateways.thy ===== *)
theory Gateways
  imports RoutingEngine
begin

text \<open>
  \<open>src/gateways/gateways.controller.ts\<close>: the report on the gateways' statistics.
\<close>

record gateway_report =
  rep_gateway :: GatewayProvider
  successRatePercent :: int
  averageLatencyMs :: int
  costBasisPoints :: int
  rep_circuitState :: CircuitState
  rep_consecutiveFailures :: nat
  totalAttempts :: nat
  rep_successCount :: nat
  rep_failureCount :: nat
  rep_updatedAt :: timestamp

definition report_of :: "gateway_stats \<Rightarrow> gateway_report" where
  "report_of st =
     (let attempts = successCount st + failureCount st;
          rate = (if attempts = 0 then 100
                  else js_round (fmul (fdiv (of_nat (successCount st)) (of_nat attempts)) 100))
      in \<lparr>rep_gateway = gateway st, successRatePercent = rate, averageLatencyMs = avgLatencyMs st,
          costBasisPoints = costBps st, rep_circuitState = circuitState st,
          rep_consecutiveFailures = consecutiveFailures st, totalAttempts = attempts,
          rep_successCount = successCount st, rep_failureCount = failureCount st,
          rep_updatedAt = statsUpdatedAt st\<rparr>)"

definition getStats :: "'d orm \<Rightarrow> (('d, 'r) node, gateway_report list) io" where
  "getStats D = andThen (on_db (findStats D)) (\<lambda>statsList. ret (map report_of statsList))"

text \<open>The rate is a percentage; it is 100 when no charge failed and 0 when all did.\<close>

lemma report_rate:
  shows "0 \<le> successRatePercent (report_of st)" "successRatePercent (report_of st) \<le> 100"
    and "failureCount st = 0 \<Longrightarrow> successRatePercent (report_of st) = 100"
    and "successCount st = 0 \<Longrightarrow> 0 < failureCount st \<Longrightarrow> successRatePercent (report_of st) = 0"
proof -
  let ?n = "successCount st + failureCount st"
  define q :: rat where "q = fdiv (of_nat (successCount st)) (of_nat ?n)"
  have q: "0 \<le> q" "q \<le> 1"
    unfolding q_def fdiv_def by (auto intro!: ieee.nonneg ieee.le_one simp: divide_le_eq)
  have half: "\<lfloor>201 / 2 :: rat\<rfloor> = 100" "\<lfloor>1 / 2 :: rat\<rfloor> = 0" by (rule floor_unique; simp)+
  have h: "rnd 100 = 100" using ieee.of_int [of 100] by simp
  have "fmul q 100 \<le> rnd 100" unfolding fmul_def using q by (intro ieee.mono) simp
  then have p: "0 \<le> fmul q 100" "fmul q 100 \<le> 100"
    using q h by (simp_all add: fmul_nonneg)
  have b: "0 \<le> js_round (fmul q 100)" "js_round (fmul q 100) \<le> 100"
    using p by (simp_all add: js_round_def le_floor_iff floor_le_iff)
  have rate: "successRatePercent (report_of st) = (if ?n = 0 then 100 else js_round (fmul q 100))"
    by (simp add: report_of_def Let_def q_def)
  show "0 \<le> successRatePercent (report_of st)" "successRatePercent (report_of st) \<le> 100"
    using b by (simp_all add: rate)
  show "successRatePercent (report_of st) = 100" if "failureCount st = 0"
  proof (cases "successCount st = 0")
    case False
    with that have "q = 1" by (simp add: q_def fdiv_def)
    then show ?thesis by (simp add: rate fmul_def h js_round_def half)
  qed (use that in \<open>simp add: rate\<close>)
  show "successRatePercent (report_of st) = 0" if "successCount st = 0" "0 < failureCount st"
    using that by (simp add: rate q_def fdiv_def fmul_def js_round_def half)
qed

context backend
begin

lemma getStats_spec:
  assumes "getStats D s = (r, s')"
  shows "tabs (db s') = tabs (db s) \<and> charges s' = charges s \<and> redis s' = redis s \<and>
    (case r of Inl e \<Rightarrow> db_failure e
     | Inr reports \<Rightarrow> mset reports = mset (map report_of (stats (tabs (db s)))))"
proof -
  obtain x s1 where f: "on_db (findStats D) s = (x, s1)" by fastforce
  show ?thesis
  proof (cases x)
    case (Inl e)
    with f assms implements_failD [OF findStats] show ?thesis by (auto simp: getStats_def andThen_Inl on_db_eq)
  next
    case (Inr sts)
    with f assms implementsD [OF findStats, of "db s" sts "db s1"] show ?thesis
      by (auto simp: getStats_def andThen_Inr on_db_eq)
  qed
qed

end

end
