(* ===== verification/Migration.thy ===== *)
theory Migration
  imports Schema
begin

text \<open>
  \<open>src/database/migrations/1751600000000-InitSchema.ts\<close> statement by statement: the catalog
  the statements of \<open>up\<close> build and those of \<open>down\<close> take apart. What a statement needs of the
  catalog is the documented behaviour of Postgres; a statement that does not find it fails,
  and with it the migration. The contents of the tables are in \<open>Schema\<close>.
\<close>

subsection \<open>Statements and the catalog\<close>

datatype default_value = Literal string | Call string

record column =
  col_name :: string
  col_type :: string
  not_null :: bool
  default :: "default_value option"

datatype statement =
    CreateExtension string
  | CreateType string "string list"
  | CreateTable string "column list" "string list"
  | CreateIndex bool string string "string list"
  | InsertInto string "string list" "string list list"
  | DropTable string
  | DropType string

text \<open>
  Tables come with the columns of their primary key; an index with its table, its columns and
  whether it is unique; rows are kept with the table and the columns they were inserted with.
\<close>

record catalog =
  extensions :: "string set"
  enums :: "(string \<times> string list) list"
  cat_tables :: "(string \<times> column list \<times> string list) list"
  indexes :: "(string \<times> string \<times> bool \<times> string list) list"
  cat_rows :: "(string \<times> string list \<times> string list) list"

definition empty_catalog :: catalog where
  "empty_catalog = \<lparr>extensions = {}, enums = [], cat_tables = [], indexes = [], cat_rows = []\<rparr>"

text \<open>Tables, their primary keys and indexes share one name space, tables and types another.\<close>

definition pkey_name :: "string \<Rightarrow> string" where
  "pkey_name t = t @ ''_pkey''"

definition relation_names :: "catalog \<Rightarrow> string list" where
  "relation_names c = map fst (cat_tables c) @ map (pkey_name \<circ> fst) (cat_tables c) @ map fst (indexes c)"

definition type_names :: "catalog \<Rightarrow> string list" where
  "type_names c = map fst (enums c) @ map fst (cat_tables c)"

definition builtin_types :: "string list" where
  "builtin_types = [''uuid'', ''varchar(10)'', ''varchar(100)'', ''varchar(255)'', ''varchar(500)'', ''bigint'',
     ''int'', ''boolean'', ''jsonb'', ''timestamptz'']"

text \<open>A default must be a label of its type, and \<open>gen_random_uuid\<close> needs the extension.\<close>

definition default_ok :: "catalog \<Rightarrow> string \<Rightarrow> default_value \<Rightarrow> bool" where
  "default_ok c ty d = (case d of
     Literal v \<Rightarrow> (case map_of (enums c) ty of None \<Rightarrow> True | Some labels \<Rightarrow> v \<in> set labels)
   | Call f \<Rightarrow> f = ''now'' \<or> f = ''gen_random_uuid'' \<and> ''pgcrypto'' \<in> extensions c)"

definition column_ok :: "catalog \<Rightarrow> column \<Rightarrow> bool" where
  "column_ok c k \<longleftrightarrow> (col_type k \<in> set builtin_types \<or> col_type k \<in> set (map fst (enums c))) \<and>
     (case default k of None \<Rightarrow> True | Some d \<Rightarrow> default_ok c (col_type k) d)"

text \<open>A value for a column of an enumerated type must be one of its labels.\<close>

definition value_ok :: "catalog \<Rightarrow> column list \<Rightarrow> string \<Rightarrow> string \<Rightarrow> bool" where
  "value_ok c ks name v = (case find (\<lambda>k. col_name k = name) ks of
     None \<Rightarrow> False
   | Some k \<Rightarrow> (case map_of (enums c) (col_type k) of None \<Rightarrow> True | Some labels \<Rightarrow> v \<in> set labels))"

definition row_ok :: "catalog \<Rightarrow> column list \<Rightarrow> string list \<Rightarrow> string list \<Rightarrow> bool" where
  "row_ok c ks names vs \<longleftrightarrow> length vs = length names \<and> list_all (\<lambda>(n, v). value_ok c ks n v) (zip names vs) \<and>
     list_all (\<lambda>k. col_name k \<in> set names \<or> default k \<noteq> None \<or> \<not> not_null k) ks"

fun column_values :: "string list \<Rightarrow> string \<times> string list \<times> string list \<Rightarrow> string option list" where
  "column_values key (t, names, vs) = map (map_of (zip names vs)) key"

fun run_statement :: "statement \<Rightarrow> catalog \<Rightarrow> string + catalog" where
  "run_statement (CreateExtension e) c =
     Inr (c\<lparr>extensions := insert e (extensions c)\<rparr>)"
| "run_statement (CreateType n labels) c =
     (if n \<in> set (type_names c) \<or> n \<in> set builtin_types then Inl (''type already exists: '' @ n)
      else if \<not> distinct labels then Inl (''duplicate label: '' @ n)
      else Inr (c\<lparr>enums := (n, labels) # enums c\<rparr>))"
| "run_statement (CreateTable t ks key) c =
     (if t \<in> set (relation_names c) \<or> pkey_name t \<in> set (relation_names c) \<or> t \<in> set (type_names c)
      then Inl (''relation already exists: '' @ t)
      else if \<not> distinct (map col_name ks) \<or> \<not> set key \<subseteq> set (map col_name ks) \<or> \<not> list_all (column_ok c) ks
      then Inl (''bad column: '' @ t)
      else Inr (c\<lparr>cat_tables := (t, ks, key) # cat_tables c\<rparr>))"
| "run_statement (CreateIndex unique n t ks) c =
     (if n \<in> set (relation_names c) then Inl (''relation already exists: '' @ n)
      else case map_of (cat_tables c) t of
        None \<Rightarrow> Inl (''relation does not exist: '' @ t)
      | Some (cols, key) \<Rightarrow>
          if set ks \<subseteq> set (map col_name cols) then Inr (c\<lparr>indexes := (n, t, unique, ks) # indexes c\<rparr>)
          else Inl (''column does not exist: '' @ n))"
| "run_statement (InsertInto t names rs) c =
     (case map_of (cat_tables c) t of
        None \<Rightarrow> Inl (''relation does not exist: '' @ t)
      | Some (cols, key) \<Rightarrow>
          let new = map (\<lambda>vs. (t, names, vs)) rs in
          if \<not> list_all (row_ok c cols names) rs then Inl (''invalid row: '' @ t)
          else if \<not> distinct (map (column_values key) (filter (\<lambda>r. fst r = t) (cat_rows c) @ new))
          then Inl (''duplicate key: '' @ t)
          else Inr (c\<lparr>cat_rows := new @ cat_rows c\<rparr>))"
| "run_statement (DropTable t) c =
     (if t \<notin> set (map fst (cat_tables c)) then Inl (''table does not exist: '' @ t)
      else Inr (c\<lparr>cat_tables := filter (\<lambda>x. fst x \<noteq> t) (cat_tables c),
                  indexes := filter (\<lambda>x. fst (snd x) \<noteq> t) (indexes c),
                  cat_rows := filter (\<lambda>r. fst r \<noteq> t) (cat_rows c)\<rparr>))"
| "run_statement (DropType n) c =
     (if n \<notin> set (map fst (enums c)) then Inl (''type does not exist: '' @ n)
      else if list_ex (\<lambda>(t, ks, key). list_ex (\<lambda>k. col_type k = n) ks) (cat_tables c)
      then Inl (''other objects depend on type: '' @ n)
      else Inr (c\<lparr>enums := filter (\<lambda>x. fst x \<noteq> n) (enums c)\<rparr>))"

fun run_migration :: "statement list \<Rightarrow> catalog \<Rightarrow> string + catalog" where
  "run_migration [] c = Inr c"
| "run_migration (x # xs) c = (case run_statement x c of Inl e \<Rightarrow> Inl e | Inr c' \<Rightarrow> run_migration xs c')"

subsection \<open>The migration\<close>

abbreviation optional :: "string \<Rightarrow> string \<Rightarrow> column" where
  "optional n ty \<equiv> \<lparr>col_name = n, col_type = ty, not_null = False, default = None\<rparr>"

abbreviation required :: "string \<Rightarrow> string \<Rightarrow> column" where
  "required n ty \<equiv> \<lparr>col_name = n, col_type = ty, not_null = True, default = None\<rparr>"

abbreviation defaulted :: "string \<Rightarrow> string \<Rightarrow> default_value \<Rightarrow> column" where
  "defaulted n ty d \<equiv> \<lparr>col_name = n, col_type = ty, not_null = True, default = Some d\<rparr>"

definition transactions_columns :: "column list" where
  "transactions_columns =
     [defaulted ''id'' ''uuid'' (Call ''gen_random_uuid''),
      required ''idempotency_key'' ''varchar(255)'',
      required ''merchant_id'' ''varchar(100)'',
      required ''amount'' ''bigint'',
      required ''currency'' ''varchar(10)'',
      defaulted ''current_state'' ''transactions_current_state_enum'' (Literal ''INITIATED''),
      optional ''selected_gateway'' ''gateway_provider_enum'',
      optional ''gateway_txn_id'' ''varchar(255)'',
      defaulted ''fallback_gateways'' ''jsonb'' (Literal ''[]''),
      defaulted ''attempt_count'' ''int'' (Literal ''0''),
      defaulted ''created_at'' ''timestamptz'' (Call ''now''),
      defaulted ''updated_at'' ''timestamptz'' (Call ''now''),
      optional ''final_reconciled_at'' ''timestamptz'']"

definition audit_log_columns :: "column list" where
  "audit_log_columns =
     [defaulted ''id'' ''uuid'' (Call ''gen_random_uuid''),
      required ''transaction_id'' ''uuid'',
      optional ''from_state'' ''transactions_current_state_enum'',
      required ''to_state'' ''transactions_current_state_enum'',
      optional ''gateway'' ''gateway_provider_enum'',
      optional ''reason'' ''varchar(500)'',
      optional ''raw_gateway_response'' ''jsonb'',
      defaulted ''created_at'' ''timestamptz'' (Call ''now'')]"

definition webhook_events_columns :: "column list" where
  "webhook_events_columns =
     [defaulted ''id'' ''uuid'' (Call ''gen_random_uuid''),
      required ''gateway'' ''gateway_provider_enum'',
      required ''event_id'' ''varchar(255)'',
      required ''event_type'' ''varchar(100)'',
      required ''payload'' ''jsonb'',
      defaulted ''signature_verified'' ''boolean'' (Literal ''false''),
      defaulted ''processed'' ''boolean'' (Literal ''false''),
      optional ''processed_at'' ''timestamptz'',
      defaulted ''received_at'' ''timestamptz'' (Call ''now'')]"

definition gateway_stats_columns :: "column list" where
  "gateway_stats_columns =
     [required ''gateway'' ''gateway_provider_enum'',
      defaulted ''success_count'' ''int'' (Literal ''0''),
      defaulted ''failure_count'' ''int'' (Literal ''0''),
      defaulted ''avg_latency_ms'' ''int'' (Literal ''0''),
      defaulted ''cost_bps'' ''int'' (Literal ''0''),
      defaulted ''circuit_state'' ''circuit_state_enum'' (Literal ''CLOSED''),
      defaulted ''consecutive_failures'' ''int'' (Literal ''0''),
      defaulted ''updated_at'' ''timestamptz'' (Call ''now'')]"

definition migration_up :: "statement list" where
  "migration_up =
     [CreateExtension ''pgcrypto'',
      CreateType ''transactions_current_state_enum''
        [''INITIATED'', ''ROUTED'', ''PROCESSING'', ''RETRY_PENDING'', ''SUCCESS'', ''FAILED'', ''RECONCILED''],
      CreateType ''gateway_provider_enum'' [''STRIPE'', ''RAZORPAY'', ''PAYU'', ''UPI''],
      CreateType ''circuit_state_enum'' [''CLOSED'', ''OPEN'', ''HALF_OPEN''],
      CreateTable ''transactions'' transactions_columns [''id''],
      CreateIndex True ''idx_transactions_idempotency_key'' ''transactions'' [''idempotency_key''],
      CreateTable ''audit_log'' audit_log_columns [''id''],
      CreateIndex False ''idx_audit_log_transaction_id'' ''audit_log'' [''transaction_id''],
      CreateTable ''webhook_events'' webhook_events_columns [''id''],
      CreateIndex True ''idx_webhook_events_gateway_event_id'' ''webhook_events'' [''gateway'', ''event_id''],
      CreateTable ''gateway_stats'' gateway_stats_columns [''gateway''],
      InsertInto ''gateway_stats'' [''gateway'', ''cost_bps'']
        [[''STRIPE'', ''290''], [''RAZORPAY'', ''200''], [''PAYU'', ''190''], [''UPI'', ''50'']]]"

definition migration_down :: "statement list" where
  "migration_down =
     [DropTable ''gateway_stats'',
      DropTable ''webhook_events'',
      DropTable ''audit_log'',
      DropTable ''transactions'',
      DropType ''circuit_state_enum'',
      DropType ''gateway_provider_enum'',
      DropType ''transactions_current_state_enum'']"

subsection \<open>Consistent catalogs\<close>

text \<open>Every column has a type, every index and every row its table.\<close>

definition table_names :: "catalog \<Rightarrow> string set" where
  "table_names c = fst ` set (cat_tables c)"

definition enum_names :: "catalog \<Rightarrow> string set" where
  "enum_names c = fst ` set (enums c)"

definition used_types :: "catalog \<Rightarrow> string set" where
  "used_types c = (\<Union>(t, ks, key) \<in> set (cat_tables c). col_type ` set ks)"

definition owners :: "catalog \<Rightarrow> string set" where
  "owners c = (\<lambda>x. fst (snd x)) ` set (indexes c) \<union> fst ` set (cat_rows c)"

lemmas catalog_names = table_names_def enum_names_def used_types_def owners_def

definition consistent :: "catalog \<Rightarrow> bool" where
  "consistent c \<longleftrightarrow> used_types c \<subseteq> set builtin_types \<union> enum_names c \<and> owners c \<subseteq> table_names c \<and>
     set builtin_types \<inter> enum_names c = {}"

lemma consistent_empty: "consistent empty_catalog"
  by (simp add: consistent_def empty_catalog_def catalog_names)

lemma table_known: "map_of (cat_tables c) t = Some v \<Longrightarrow> t \<in> table_names c"
  by (force simp: table_names_def dest: map_of_SomeD)

lemma column_typed: "column_ok c k \<Longrightarrow> col_type k \<in> set builtin_types \<union> enum_names c"
  by (auto simp: column_ok_def enum_names_def)

lemma names_upd [simp]:
  "table_names (c\<lparr>extensions := E\<rparr>) = table_names c" "enum_names (c\<lparr>extensions := E\<rparr>) = enum_names c"
  "used_types (c\<lparr>extensions := E\<rparr>) = used_types c" "owners (c\<lparr>extensions := E\<rparr>) = owners c"
  "table_names (c\<lparr>enums := es\<rparr>) = table_names c" "used_types (c\<lparr>enums := es\<rparr>) = used_types c"
  "owners (c\<lparr>enums := es\<rparr>) = owners c" "enum_names (c\<lparr>enums := es\<rparr>) = fst ` set es"
  "enum_names (c\<lparr>cat_tables := ts\<rparr>) = enum_names c" "owners (c\<lparr>cat_tables := ts\<rparr>) = owners c"
  "table_names (c\<lparr>cat_tables := ts\<rparr>) = fst ` set ts"
  "enum_names (c\<lparr>indexes := is\<rparr>) = enum_names c" "table_names (c\<lparr>indexes := is\<rparr>) = table_names c"
  "used_types (c\<lparr>indexes := is\<rparr>) = used_types c"
  "enum_names (c\<lparr>cat_rows := rs\<rparr>) = enum_names c" "table_names (c\<lparr>cat_rows := rs\<rparr>) = table_names c"
  "used_types (c\<lparr>cat_rows := rs\<rparr>) = used_types c"
  by (simp_all add: catalog_names)

lemma used_types_mono: "set ts \<subseteq> set (cat_tables c) \<Longrightarrow> used_types (c\<lparr>cat_tables := ts\<rparr>) \<subseteq> used_types c"
  by (auto simp: used_types_def)

lemma type_in_use:
  "list_ex (\<lambda>(t, ks, key). list_ex (\<lambda>k. col_type k = n) ks) (cat_tables c) \<longleftrightarrow> n \<in> used_types c"
  by (fastforce simp: used_types_def list_ex_iff)

lemma run_statement_consistent:
  assumes "run_statement x c = Inr c'" "consistent c"
  shows "consistent c'"
proof (cases x)
  case (CreateType n labels)
  with assms(1) have "c' = c\<lparr>enums := (n, labels) # enums c\<rparr>" "n \<notin> set builtin_types" by (auto split: if_splits)
  moreover from this have "enum_names c' = insert n (enum_names c)" by (simp add: enum_names_def)
  ultimately show ?thesis using assms(2) by (auto simp: consistent_def)
next
  case (CreateTable t ks key)
  with assms(1) have "c' = c\<lparr>cat_tables := (t, ks, key) # cat_tables c\<rparr>" "list_all (column_ok c) ks"
    by (auto split: if_splits)
  with assms(2) show ?thesis
    by (auto simp: consistent_def used_types_def table_names_def list_all_iff dest: column_typed)
next
  case (CreateIndex u n t ks)
  with assms(1) have c': "c' = c\<lparr>indexes := (n, t, u, ks) # indexes c\<rparr>" and "t \<in> table_names c"
    by (auto split: if_splits option.splits intro: table_known)
  from c' have "owners c' = insert t (owners c)" by (simp add: owners_def)
  with c' \<open>t \<in> table_names c\<close> assms(2) show ?thesis by (simp add: consistent_def)
next
  case (InsertInto t names rs)
  with assms(1) have c': "c' = c\<lparr>cat_rows := map (\<lambda>vs. (t, names, vs)) rs @ cat_rows c\<rparr>" and "t \<in> table_names c"
    by (auto simp: Let_def split: if_splits option.splits intro: table_known)
  from c' have "owners c' \<subseteq> insert t (owners c)" by (auto simp: owners_def)
  with c' \<open>t \<in> table_names c\<close> assms(2) show ?thesis by (auto simp: consistent_def)
next
  case (DropTable t)
  with assms(1) have c': "c' = c\<lparr>cat_tables := filter (\<lambda>x. fst x \<noteq> t) (cat_tables c),
      indexes := filter (\<lambda>x. fst (snd x) \<noteq> t) (indexes c), cat_rows := filter (\<lambda>r. fst r \<noteq> t) (cat_rows c)\<rparr>"
    by (simp split: if_splits)
  then have "used_types c' \<subseteq> used_types c" "enum_names c' = enum_names c" "owners c' = owners c - {t}"
    "table_names c' = table_names c - {t}" by (auto simp: catalog_names)
  with assms(2) show ?thesis by (auto simp: consistent_def)
next
  case (DropType n)
  with assms(1) have c': "c' = c\<lparr>enums := filter (\<lambda>x. fst x \<noteq> n) (enums c)\<rparr>" and "n \<notin> used_types c"
    by (simp_all add: type_in_use split: if_splits)
  then have "enum_names c' = enum_names c - {n}" by (auto simp: enum_names_def)
  with c' \<open>n \<notin> used_types c\<close> assms(2) show ?thesis by (auto simp: consistent_def)
qed (use assms in \<open>auto simp: consistent_def\<close>)

subsection \<open>A migration next to other tables\<close>

text \<open>Two catalogs side by side, and a statement that names nothing of a catalog.\<close>

definition beside :: "catalog \<Rightarrow> catalog \<Rightarrow> catalog" where
  "beside a f = \<lparr>extensions = extensions a \<union> extensions f, enums = enums a @ enums f,
     cat_tables = cat_tables a @ cat_tables f, indexes = indexes a @ indexes f, cat_rows = cat_rows a @ cat_rows f\<rparr>"

fun names_nothing_of :: "catalog \<Rightarrow> statement \<Rightarrow> bool" where
  "names_nothing_of f (CreateType n labels) \<longleftrightarrow> n \<notin> set (type_names f)"
| "names_nothing_of f (CreateTable t ks key) \<longleftrightarrow>
     t \<notin> set (relation_names f) \<and> pkey_name t \<notin> set (relation_names f) \<and> t \<notin> set (type_names f)"
| "names_nothing_of f (CreateIndex u n t ks) \<longleftrightarrow> n \<notin> set (relation_names f)"
| "names_nothing_of f (InsertInto t names rs) \<longleftrightarrow> t \<notin> set (relation_names f)"
| "names_nothing_of f (DropTable t) \<longleftrightarrow> t \<notin> set (relation_names f)"
| "names_nothing_of f (DropType n) \<longleftrightarrow> n \<notin> set (type_names f)"
| "names_nothing_of f (CreateExtension e) \<longleftrightarrow> True"

text \<open>Lookups in the left catalog are not disturbed by the right one.\<close>

lemma beside_names [simp]:
  "set (relation_names (beside a f)) = set (relation_names a) \<union> set (relation_names f)"
  "set (type_names (beside a f)) = set (type_names a) \<union> set (type_names f)"
  "table_names (beside a f) = table_names a \<union> table_names f" "enum_names (beside a f) = enum_names a \<union> enum_names f"
  by (auto simp: beside_def relation_names_def type_names_def catalog_names)

lemma enum_labels_beside:
  assumes "ty \<in> enum_names a \<or> ty \<notin> enum_names f"
  shows "map_of (enums (beside a f)) ty = map_of (enums a) ty"
proof (cases "map_of (enums a) ty")
  case None
  with assms have "map_of (enums f) ty = None" by (simp add: map_of_eq_None_iff enum_names_def)
  with None show ?thesis by (simp add: beside_def map_add_def)
qed (simp add: beside_def map_add_def)

lemma column_ok_beside:
  assumes "column_ok a k" "consistent f"
  shows "column_ok (beside a f) k"
proof -
  have "col_type k \<notin> enum_names f \<or> col_type k \<in> enum_names a"
    using column_typed [OF assms(1)] assms(2) by (auto simp: consistent_def)
  then have "map_of (enums (beside a f)) (col_type k) = map_of (enums a) (col_type k)" by (intro enum_labels_beside) auto
  moreover have "extensions a \<subseteq> extensions (beside a f)" "fst ` set (enums a) \<subseteq> fst ` set (enums (beside a f))"
    by (auto simp: beside_def)
  ultimately show ?thesis
    using assms(1) by (auto simp: column_ok_def default_ok_def split: option.splits default_value.splits)
qed

lemma row_ok_beside:
  assumes "row_ok a ks names vs" "\<forall>k \<in> set ks. col_type k \<in> set builtin_types \<union> enum_names a" "consistent f"
  shows "row_ok (beside a f) ks names vs"
proof -
  have "value_ok (beside a f) ks n v" if "value_ok a ks n v" for n v
  proof -
    from that obtain k where k: "find (\<lambda>k. col_name k = n) ks = Some k" by (auto simp: value_ok_def split: option.splits)
    then have "k \<in> set ks" by (auto dest: find_SomeD)
    with assms(2,3) have "map_of (enums (beside a f)) (col_type k) = map_of (enums a) (col_type k)"
      by (intro enum_labels_beside) (auto simp: consistent_def)
    with that k show ?thesis by (simp add: value_ok_def)
  qed
  with assms(1) show ?thesis by (auto simp: row_ok_def list_all_iff)
qed

lemma table_beside: "map_of (cat_tables a) t = Some v \<Longrightarrow> map_of (cat_tables (beside a f)) t = Some v"
  by (simp add: beside_def map_add_def)

lemma not_owner:
  assumes "consistent f" "t \<notin> set (relation_names f)"
  shows "t \<notin> table_names f" "filter (\<lambda>x. fst (snd x) \<noteq> t) (indexes f) = indexes f"
    "filter (\<lambda>r. fst r \<noteq> t) (cat_rows f) = cat_rows f" "filter (\<lambda>r. fst r = t) (cat_rows f) = []"
    "filter (\<lambda>x. fst x \<noteq> t) (cat_tables f) = cat_tables f"
proof -
  from assms(2) show t: "t \<notin> table_names f" by (auto simp: relation_names_def table_names_def)
  with assms(1) have o: "t \<notin> owners f" by (auto simp: consistent_def)
  from o show "filter (\<lambda>x. fst (snd x) \<noteq> t) (indexes f) = indexes f" "filter (\<lambda>r. fst r \<noteq> t) (cat_rows f) = cat_rows f"
    "filter (\<lambda>r. fst r = t) (cat_rows f) = []" by (auto simp: owners_def filter_id_conv filter_empty_conv)
  from t show "filter (\<lambda>x. fst x \<noteq> t) (cat_tables f) = cat_tables f" by (auto simp: table_names_def filter_id_conv)
qed

lemma run_statement_beside:
  assumes run: "run_statement x a = Inr a'" and a: "consistent a" and f: "consistent f" and n: "names_nothing_of f x"
  shows "run_statement x (beside a f) = Inr (beside a' f)"
proof (cases x)
  case (CreateExtension e)
  with run show ?thesis by (auto simp: beside_def)
next
  case (CreateType m labels)
  with run n show ?thesis by (auto split: if_splits) (simp add: beside_def)
next
  case (CreateTable t ks key)
  with run have "list_all (column_ok a) ks" by (simp split: if_splits)
  then have "list_all (column_ok (beside a f)) ks" using column_ok_beside [OF _ f] by (auto simp: list_all_iff)
  with run n CreateTable show ?thesis by (auto split: if_splits) (simp add: beside_def)
next
  case (CreateIndex u m t ks)
  with run obtain cols key where t: "map_of (cat_tables a) t = Some (cols, key)" and m: "m \<notin> set (relation_names a)"
    and ks: "set ks \<subseteq> set (map col_name cols)" and a': "a' = a\<lparr>indexes := (m, t, u, ks) # indexes a\<rparr>"
    by (auto split: if_splits option.splits)
  from CreateIndex m n ks table_beside [OF t, of f] show ?thesis by (simp add: a') (simp add: beside_def)
next
  case (InsertInto t names rs)
  with run obtain cols key where t: "map_of (cat_tables a) t = Some (cols, key)"
    and ok: "list_all (row_ok a cols names) rs"
    and d: "distinct (map (column_values key) (filter (\<lambda>r. fst r = t) (cat_rows a) @ map (\<lambda>vs. (t, names, vs)) rs))"
    and a': "a' = a\<lparr>cat_rows := map (\<lambda>vs. (t, names, vs)) rs @ cat_rows a\<rparr>"
    by (auto simp: Let_def split: if_splits option.splits)
  from t have "col_type ` set cols \<subseteq> used_types a" by (force simp: used_types_def dest: map_of_SomeD)
  with a have "\<forall>k \<in> set cols. col_type k \<in> set builtin_types \<union> enum_names a" by (auto simp: consistent_def)
  with ok have "list_all (row_ok (beside a f) cols names) rs" using row_ok_beside [OF _ _ f] by (auto simp: list_all_iff)
  moreover have "filter (\<lambda>r. fst r = t) (cat_rows (beside a f)) = filter (\<lambda>r. fst r = t) (cat_rows a)"
    using not_owner(4) [OF f, of t] n InsertInto by (simp add: beside_def)
  ultimately show ?thesis
    using InsertInto d table_beside [OF t, of f] by (simp add: Let_def a') (simp add: beside_def)
next
  case (DropTable t)
  with run have "t \<in> table_names a"
    and a': "a' = a\<lparr>cat_tables := filter (\<lambda>x. fst x \<noteq> t) (cat_tables a),
      indexes := filter (\<lambda>x. fst (snd x) \<noteq> t) (indexes a), cat_rows := filter (\<lambda>r. fst r \<noteq> t) (cat_rows a)\<rparr>"
    by (simp_all add: table_names_def split: if_splits)
  moreover have "t \<notin> set (relation_names f)" using n DropTable by simp
  moreover from calculation(1) have "t \<in> set (map fst (cat_tables (beside a f)))" by (auto simp: table_names_def beside_def)
  ultimately show ?thesis
    using not_owner [OF f] DropTable by (simp del: set_map) (simp add: beside_def)
next
  case (DropType m)
  with run have m: "m \<in> enum_names a" and unused: "m \<notin> used_types a"
    and a': "a' = a\<lparr>enums := filter (\<lambda>x. fst x \<noteq> m) (enums a)\<rparr>"
    by (simp_all add: type_in_use enum_names_def split: if_splits)
  have "m \<notin> enum_names f" using n DropType by (auto simp: type_names_def enum_names_def)
  moreover from m a have "m \<notin> set builtin_types" by (auto simp: consistent_def)
  ultimately have "m \<notin> used_types f" using f by (auto simp: consistent_def)
  with unused have "\<not> list_ex (\<lambda>(t, ks, key). list_ex (\<lambda>k. col_type k = m) ks) (cat_tables (beside a f))"
    unfolding type_in_use by (auto simp: used_types_def beside_def)
  moreover have "filter (\<lambda>x. fst x \<noteq> m) (enums f) = enums f"
    using \<open>m \<notin> enum_names f\<close> by (auto simp: enum_names_def filter_id_conv)
  moreover have "m \<in> set (map fst (enums (beside a f)))" using m by (simp add: beside_def enum_names_def)
  ultimately show ?thesis using DropType by (simp add: a') (simp add: beside_def)
qed

lemma run_migration_beside:
  assumes "run_migration xs a = Inr a'" "consistent a" "consistent f" "list_all (names_nothing_of f) xs"
  shows "run_migration xs (beside a f) = Inr (beside a' f)"
  using assms
proof (induction xs arbitrary: a)
  case (Cons x xs)
  then obtain b where b: "run_statement x a = Inr b" "run_migration xs b = Inr a'" by (auto split: sum.splits)
  from run_statement_beside [OF b(1)] Cons.prems have "run_statement x (beside a f) = Inr (beside b f)" by simp
  moreover from Cons.IH [OF b(2) run_statement_consistent [OF b(1)]] Cons.prems
  have "run_migration xs (beside b f) = Inr (beside a' f)" by simp
  ultimately show ?case by simp
qed simp

subsection \<open>Up and down\<close>

text \<open>What \<open>up\<close> builds on an empty database.\<close>

definition migrated :: catalog where
  "migrated = (case run_migration migration_up empty_catalog of Inl e \<Rightarrow> empty_catalog | Inr c \<Rightarrow> c)"

lemma up_empty: "run_migration migration_up empty_catalog = Inr migrated"
proof -
  have "isl (run_migration migration_up empty_catalog) = False" by code_simp
  then show ?thesis by (cases "run_migration migration_up empty_catalog") (simp_all add: migrated_def)
qed

lemma down_migrated: "run_migration migration_down migrated = Inr (empty_catalog\<lparr>extensions := {''pgcrypto''}\<rparr>)"
  by code_simp

text \<open>A catalog that has none of the names.\<close>

definition free_for_migration :: "catalog \<Rightarrow> bool" where
  "free_for_migration f \<longleftrightarrow> consistent f \<and> list_all (names_nothing_of f) (migration_up @ migration_down)"

lemma run_migration_consistent: "run_migration xs c = Inr c' \<Longrightarrow> consistent c \<Longrightarrow> consistent c'"
  by (induction xs arbitrary: c) (auto split: sum.splits dest: run_statement_consistent)

lemma beside_empty [simp]: "beside empty_catalog f = f" "beside (empty_catalog\<lparr>extensions := E\<rparr>) f = f\<lparr>extensions := E \<union> extensions f\<rparr>"
  by (simp_all add: beside_def empty_catalog_def)

lemma up_beside:
  assumes "free_for_migration f"
  shows "run_migration migration_up f = Inr (beside migrated f)"
  using run_migration_beside [OF up_empty consistent_empty, of f] assms by (simp add: free_for_migration_def)

lemma down_beside:
  assumes "free_for_migration f"
  shows "run_migration migration_down (beside migrated f) = Inr (f\<lparr>extensions := insert ''pgcrypto'' (extensions f)\<rparr>)"
  using run_migration_beside [OF down_migrated run_migration_consistent [OF up_empty consistent_empty], of f] assms
  by (simp add: free_for_migration_def)

text \<open>The labels are the values of the TypeScript enums, and the seeds are the rows of \<open>Schema\<close>.\<close>

lemma migrated_labels:
  "map_of (enums migrated) ''transactions_current_state_enum'' =
     Some (map state_name [INITIATED, ROUTED, PROCESSING, RETRY_PENDING, SUCCESS, FAILED, RECONCILED])"
  "map_of (enums migrated) ''gateway_provider_enum'' = Some (map gateway_name [STRIPE, RAZORPAY, PAYU, UPI])"
  by code_simp+

lemma migrated_seeds:
  "cat_rows migrated = map (\<lambda>s. (''gateway_stats'', [''gateway'', ''cost_bps''], [gateway_name (gateway s), decimal (nat (costBps s))]))
     (stats InitSchema_up)"
  by code_simp

text \<open>The unique indexes are those the model of the tables checks.\<close>

lemma migrated_unique:
  "map (\<lambda>(n, t, u, ks). (t, ks)) (filter (\<lambda>(n, t, u, ks). u) (indexes migrated)) =
     [(''webhook_events'', [''gateway'', ''event_id'']), (''transactions'', [''idempotency_key''])]"
  by code_simp

end
