(* ===== verification/Config.thy ===== *)
theory Config
  imports Webhooks
begin

text \<open>
  What the process is started with: the options of the data source
  (\<open>src/config/typeorm.config.ts\<close>), the address of Redis (\<open>RedisService.onModuleInit\<close>), the
  bootstrap of the HTTP server with its body parsers (\<open>src/main.ts\<close>) and the health check.
  All of it is a function of the environment variables.
\<close>

subsection \<open>\<open>Number\<close> of a string\<close>

text \<open>
  The conversion of a string to a double: white space is trimmed, the empty string is zero, a
  prefix selects base 16, 8 or 2, anything else is a signed decimal or \<open>Infinity\<close>, and what is
  none of these is not a number. A zero has no sign here.
\<close>

datatype js_number = NaN | Infinity bool | Finite rat

definition is_white :: "char \<Rightarrow> bool" where
  "is_white c \<longleftrightarrow> of_char c \<in> set [9, 10, 11, 12, 13, 32, 160 :: nat]"

definition trim :: "string \<Rightarrow> string" where
  "trim s = rev (dropWhile is_white (rev (dropWhile is_white s)))"

definition digit_value :: "nat \<Rightarrow> char \<Rightarrow> nat option" where
  "digit_value base c =
     (let n = of_char c;
          v = if 48 \<le> n \<and> n \<le> 57 then n - 48 else if 97 \<le> n \<and> n \<le> 122 then n - 87
              else if 65 \<le> n \<and> n \<le> 90 then n - 55 else 36
      in if v < base then Some v else None)"

fun digits_value :: "nat \<Rightarrow> nat \<Rightarrow> string \<Rightarrow> nat option" where
  "digits_value base acc [] = Some acc"
| "digits_value base acc (c # cs) = (case digit_value base c of
     None \<Rightarrow> None | Some d \<Rightarrow> digits_value base (acc * base + d) cs)"

definition is_decimal :: "char \<Rightarrow> bool" where
  "is_decimal c \<longleftrightarrow> digit_value 10 c \<noteq> None"

definition decimal_value :: "string \<Rightarrow> nat" where
  "decimal_value s = (case digits_value 10 0 s of None \<Rightarrow> 0 | Some n \<Rightarrow> n)"

text \<open>The double nearest to a rational: subnormal below \<open>2 ^ -1022\<close>, infinite from \<open>2 ^ 1024\<close> on.\<close>

definition to_double :: "rat \<Rightarrow> js_number" where
  "to_double q =
     (if \<bar>q\<bar> < 2 powi - 1022 then Finite (of_int (round_half_even (q / 2 powi - 1074)) * 2 powi - 1074)
      else if 2 powi 1024 \<le> \<bar>rnd q\<bar> then Infinity (q < 0)
      else Finite (rnd q))"

fun exponent_part :: "string \<Rightarrow> int option" where
  "exponent_part [] = Some 0"
| "exponent_part (e # r) =
     (if e \<noteq> CHR ''e'' \<and> e \<noteq> CHR ''E'' then None
      else let neg = (r \<noteq> [] \<and> hd r = CHR ''-'');
               ds = (if r \<noteq> [] \<and> (hd r = CHR ''-'' \<or> hd r = CHR ''+'') then tl r else r)
           in if ds = [] then None
              else map_option (\<lambda>n. if neg then - int n else int n) (digits_value 10 0 ds))"

definition unsigned_decimal :: "bool \<Rightarrow> string \<Rightarrow> js_number" where
  "unsigned_decimal neg s =
     (if s = ''Infinity'' then Infinity neg
      else
        let ip = takeWhile is_decimal s; r1 = dropWhile is_decimal s;
            dot = (r1 \<noteq> [] \<and> hd r1 = CHR ''.'');
            fp = (if dot then takeWhile is_decimal (tl r1) else []);
            r2 = (if dot then dropWhile is_decimal (tl r1) else r1)
        in if ip = [] \<and> fp = [] then NaN
           else case exponent_part r2 of
             None \<Rightarrow> NaN
           | Some e \<Rightarrow>
               let q = of_nat (decimal_value (ip @ fp)) * 10 powi (e - int (length fp))
               in to_double (if neg then - q else q))"

definition radix_of :: "char \<Rightarrow> nat option" where
  "radix_of c = (if c = CHR ''x'' \<or> c = CHR ''X'' then Some 16 else if c = CHR ''o'' \<or> c = CHR ''O'' then Some 8
     else if c = CHR ''b'' \<or> c = CHR ''B'' then Some 2 else None)"

fun string_number :: "string \<Rightarrow> js_number" where
  "string_number [] = Finite 0"
| "string_number (c # cs) =
     (if c = CHR ''0'' \<and> cs \<noteq> [] \<and> radix_of (hd cs) \<noteq> None then
        (case digits_value (the (radix_of (hd cs))) 0 (tl cs) of
           Some n \<Rightarrow> if tl cs = [] then NaN else to_double (of_nat n)
         | None \<Rightarrow> NaN)
      else if c = CHR ''-'' then unsigned_decimal True cs
      else if c = CHR ''+'' then unsigned_decimal False cs
      else unsigned_decimal False (c # cs))"

text \<open>\<open>Number(x)\<close> of a variable that may be unset, and \<open>Number(x) || d\<close>.\<close>

definition number_of :: "string option \<Rightarrow> js_number" where
  "number_of v = (case v of None \<Rightarrow> NaN | Some s \<Rightarrow> string_number (trim s))"

definition number_or :: "js_number \<Rightarrow> rat \<Rightarrow> js_number" where
  "number_or x d = (if x = NaN \<or> x = Finite 0 then Finite d else x)"

subsection \<open>The data source\<close>

datatype entity = TransactionEntity | AuditLogEntity | WebhookEventEntity | GatewayStatsEntity

record data_source =
  ds_type :: string
  ds_host :: string
  ds_port :: js_number
  ds_username :: string
  ds_password :: string
  ds_database :: string
  ds_entities :: "entity list"
  ds_migrations :: "string list"
  ds_synchronize :: bool
  ds_logging :: bool
  ds_ssl :: "bool option"

text \<open>
  \<open>ds_ssl\<close> is \<open>None\<close> for \<open>false\<close> and \<open>Some r\<close> for \<open>{ rejectUnauthorized: r }\<close>. The name of the
  file the configuration runs from is the argument \<open>filename\<close>.
\<close>

definition env_or :: "env \<Rightarrow> string \<Rightarrow> string \<Rightarrow> string" where
  "env_or env k d = the (str_or (env k) (Some d))"

definition typeOrmConfig :: "string \<Rightarrow> env \<Rightarrow> data_source" where
  "typeOrmConfig filename env =
     \<lparr>ds_type = ''postgres'',
      ds_host = env_or env ''DB_HOST'' ''localhost'',
      ds_port = number_or (number_of (env ''DB_PORT'')) 5432,
      ds_username = env_or env ''DB_USER'' ''postgres'',
      ds_password = env_or env ''DB_PASSWORD'' ''postgres'',
      ds_database = env_or env ''DB_NAME'' ''payment_orchestrator'',
      ds_entities = [TransactionEntity, AuditLogEntity, WebhookEventEntity, GatewayStatsEntity],
      ds_migrations = [if ends_with filename ''.js'' then ''dist/database/migrations/*.js'' else ''src/database/migrations/*.ts''],
      ds_synchronize = False,
      ds_logging = (env ''NODE_ENV'' = Some ''development''),
      ds_ssl = (if str_truthy (env ''DB_HOST'') \<and> env ''DB_HOST'' \<noteq> Some ''localhost'' then Some False else None)\<rparr>"

lemma env_or_cases: "env_or env k d = (case env k of None \<Rightarrow> d | Some v \<Rightarrow> if v = '''' then d else v)"
  by (simp add: env_or_def str_or_def split: option.split)

text \<open>The connection to another host is encrypted, and the certificate is not checked.\<close>

lemma ssl_iff_remote: "ds_ssl (typeOrmConfig f env) = (if ds_host (typeOrmConfig f env) = ''localhost'' then None else Some False)"
  by (auto simp: typeOrmConfig_def env_or_cases split: option.split)

text \<open>The decimal text of a port is read back.\<close>

lemma digit_value_digit: "d < 10 \<Longrightarrow> digit_value 10 (digit d) = Some d"
  by (simp add: digit_value_def digit_def of_char_of)

lemma digits_value_append:
  "digits_value b acc (xs @ ys) = (case digits_value b acc xs of None \<Rightarrow> None | Some n \<Rightarrow> digits_value b n ys)"
  by (induction xs arbitrary: acc) (auto split: option.split)

lemma digits_value_decimal: "digits_value 10 0 (decimal n) = Some n"
proof (induction n rule: decimal.induct)
  case (1 n)
  show ?case
  proof (cases "n < 10")
    case True
    then show ?thesis by (simp add: decimal.simps [of n] digit_value_digit)
  next
    case False
    then have "digits_value 10 0 (decimal (n div 10)) = Some (n div 10)" by (rule 1)
    then show ?thesis using False by (simp add: decimal.simps [of n] digits_value_append digit_value_digit)
  qed
qed

lemma digit_facts:
  assumes "d < 10"
  shows "is_decimal (digit d)" "\<not> is_white (digit d)" "radix_of (digit d) = None"
    "digit d \<noteq> CHR ''-''" "digit d \<noteq> CHR ''+''" "digit d \<noteq> CHR ''I''"
proof -
  have n: "of_char (digit d) = 48 + d" using assms by (simp add: digit_def of_char_of)
  show "is_decimal (digit d)" using assms by (simp add: is_decimal_def digit_value_digit)
  show "\<not> is_white (digit d)" using assms by (simp add: is_white_def n)
  have "digit d \<noteq> c" if "of_char c > (57 :: nat) \<or> of_char c < (48 :: nat)" for c
    using that n assms by auto
  then show "radix_of (digit d) = None" "digit d \<noteq> CHR ''-''" "digit d \<noteq> CHR ''+''" "digit d \<noteq> CHR ''I''"
    by (simp_all add: radix_of_def)
qed

lemma trim_decimal: "trim (decimal n) = decimal n"
proof -
  have w: "\<not> is_white c" if "c \<in> set (decimal n)" for c using decimal_chars [OF that] digit_facts(2) by auto
  have "dropWhile is_white xs = xs" if "set xs \<subseteq> set (decimal n)" for xs
    using that w by (cases xs) auto
  then show ?thesis by (simp add: trim_def)
qed

lemma to_double_nat:
  assumes "n < 2 ^ 53"
  shows "to_double (of_nat n) = Finite (of_nat n)"
proof (cases "n = 0")
  case True
  have "\<bar>of_nat 0 :: rat\<bar> < 2 powi - 1022" using ulp_pos [of "- 1022"] by (simp only: of_nat_0 abs_zero)
  then show ?thesis using True round_half_even_of_int [of 0] by (simp only: to_double_def if_True of_nat_0 div_0 of_int_0 mult_zero_left)
next
  case False
  have "(2 :: rat) powi - 1022 \<le> 2 powi 0" by (rule power_int_increasing) simp_all
  then have "\<not> \<bar>of_nat n :: rat\<bar> < 2 powi - 1022" using False by (simp add: not_less)
  moreover have "(of_nat n :: rat) < 2 ^ 53" using assms by (metis of_nat_less_iff of_nat_numeral of_nat_power)
  moreover have "(2 :: rat) ^ 53 \<le> 2 ^ 1024" by (intro power_increasing) simp_all
  ultimately show ?thesis using assms by (simp add: to_double_def rnd_of_nat)
qed

lemma string_number_decimal:
  assumes "n < 2 ^ 53"
  shows "number_of (Some (decimal n)) = Finite (of_nat n)"
proof -
  obtain c cs where d: "decimal n = c # cs" using decimal_nonempty [of n] by (cases "decimal n") auto
  have all: "is_decimal x" "radix_of x = None" "x \<noteq> CHR ''-''" "x \<noteq> CHR ''+''" "x \<noteq> CHR ''I''" if "x \<in> set (decimal n)" for x
    using decimal_chars [OF that] digit_facts by auto
  have tw: "takeWhile is_decimal (decimal n) = decimal n" "dropWhile is_decimal (decimal n) = []"
    using all(1) by (simp_all add: takeWhile_eq_all_conv dropWhile_eq_Nil_conv)
  have c: "c \<noteq> CHR ''-''" "c \<noteq> CHR ''+''" "c \<noteq> CHR ''I''" using all [of c] by (simp_all add: d)
  have r: "cs = [] \<or> radix_of (hd cs) = None" using all(2) [of "hd cs"] by (cases cs) (simp_all add: d)
  have "unsigned_decimal False (decimal n) = to_double (of_nat n)"
    using tw c(3) d digits_value_decimal [of n] by (simp add: unsigned_decimal_def Let_def decimal_value_def)
  moreover have "number_of (Some (decimal n)) = unsigned_decimal False (decimal n)"
    unfolding number_of_def option.case trim_decimal using c r by (auto simp: d)
  ultimately show ?thesis using to_double_nat [OF assms] by simp
qed

lemma string_number_nat: "n < 2 ^ 53 \<Longrightarrow> string_number (decimal n) = Finite (of_nat n)"
  using string_number_decimal [of n] by (simp add: number_of_def trim_decimal)

text \<open>An integer up to \<open>2 ^ 1000\<close> is read as an integer, if not as the same one.\<close>

lemma rnd_large_integer:
  assumes "2 ^ 53 \<le> q"
  shows "\<exists>n > 0. rnd q = of_nat n"
proof -
  have q: "0 < q" using assms by (rule less_le_trans [rotated]) simp
  have "(2 :: rat) powi 53 < 2 powi (ilog2 q + 1)" using assms ilog2_bounds(2) [OF q] by simp
  then have e: "0 \<le> ilog2 q - 52" using pow2_less_imp_less by fastforce
  define k where "k = round_half_even (q / 2 powi (ilog2 q - 52)) * 2 ^ nat (ilog2 q - 52)"
  have "rnd q = of_int k" using e by (simp add: rnd_pos_eq [OF q] k_def power_int_nonneg_exp)
  moreover have "0 < rnd q" by (rule rnd_pos [OF q])
  ultimately have "rnd q = of_nat (nat k)" "0 < nat k" by simp_all
  then show ?thesis by blast
qed

lemma to_double_integer:
  assumes "0 < n" "n \<le> 2 ^ 1000"
  shows "\<exists>m > 0. to_double (of_nat n) = Finite (of_nat m)"
proof (cases "n < 2 ^ 53")
  case True
  with assms(1) to_double_nat show ?thesis by blast
next
  case False
  let ?q = "of_nat n :: rat"
  have q: "2 ^ 53 \<le> ?q" using False by (metis not_less of_nat_le_iff of_nat_numeral of_nat_power)
  have hi: "?q \<le> 2 ^ 1000" using assms(2) by (metis of_nat_le_iff of_nat_numeral of_nat_power)
  have "\<bar>?q\<bar> / 2 ^ 53 \<le> ?q" by (simp add: divide_le_eq)
  with rnd_error [of ?q] have "\<bar>rnd ?q - ?q\<bar> \<le> ?q" by (rule order_trans)
  then have "\<bar>rnd ?q\<bar> \<le> ?q + ?q" by linarith
  also have "\<dots> \<le> 2 ^ 1001" using hi by simp
  also have "\<dots> < 2 powi 1024" by (simp add: power_strict_increasing)
  finally have small: "\<not> 2 powi 1024 \<le> \<bar>rnd ?q\<bar>" by simp
  have "(2 :: rat) powi - 1022 \<le> 2 powi 53" by (rule power_int_increasing) simp_all
  then have "\<not> \<bar>?q\<bar> < 2 powi - 1022" using q by simp
  with small have "to_double ?q = Finite (rnd ?q)" unfolding to_double_def by (simp only: if_False)
  with rnd_large_integer [OF q] show ?thesis by simp
qed

text \<open>A missing, blank, zero or malformed port is the default one.\<close>

lemma ds_port_cases:
  "ds_port (typeOrmConfig f env) =
     (case number_of (env ''DB_PORT'') of NaN \<Rightarrow> Finite 5432 | Infinity n \<Rightarrow> Infinity n
      | Finite q \<Rightarrow> Finite (if q = 0 then 5432 else q))"
  by (simp add: typeOrmConfig_def number_or_def split: js_number.split)

subsection \<open>Redis\<close>

text \<open>
  \<open>configService.get\<close> with a default: the default stands for an unset variable only, and the
  value of a set one is a string, whatever the type argument says.
\<close>

definition redis_host :: "env \<Rightarrow> string" where
  "redis_host env = (case env ''REDIS_HOST'' of None \<Rightarrow> ''localhost'' | Some h \<Rightarrow> h)"

definition redis_port :: "env \<Rightarrow> string + nat" where
  "redis_port env = (case env ''REDIS_PORT'' of None \<Rightarrow> Inr 6379 | Some p \<Rightarrow> Inl p)"

text \<open>\<open>onModuleDestroy\<close>; a client that was never created leaves the service in mock mode.\<close>

definition redis_onModuleDestroy :: "('r \<Rightarrow> 'r) \<Rightarrow> 'r redis_state \<Rightarrow> 'r redis_state" where
  "redis_onModuleDestroy disconnect s = (if \<not> isMockMode s then s\<lparr>client := disconnect (client s)\<rparr> else s)"

subsection \<open>The HTTP server\<close>

datatype body_parser = ExpressJson | ExpressUrlencoded bool

record application =
  default_bodyParser :: bool
  middleware :: "body_parser list"
  pipe_whitelist :: bool
  pipe_transform :: bool
  listening :: "(string + nat) option"

text \<open>\<open>process.env.PORT || 3000\<close>.\<close>

definition listen_port :: "env \<Rightarrow> string + nat" where
  "listen_port env = (case env ''PORT'' of Some p \<Rightarrow> if p = '''' then Inr 3000 else Inl p | None \<Rightarrow> Inr 3000)"

definition bootstrap :: "env \<Rightarrow> application" where
  "bootstrap env =
     (let app0 = \<lparr>default_bodyParser = False, middleware = [], pipe_whitelist = False, pipe_transform = False, listening = None\<rparr>;
          app1 = app0\<lparr>middleware := middleware app0 @ [ExpressJson]\<rparr>;
          app2 = app1\<lparr>middleware := middleware app1 @ [ExpressUrlencoded True]\<rparr>;
          app3 = app2\<lparr>pipe_whitelist := True, pipe_transform := True\<rparr>
      in app3\<lparr>listening := Some (listen_port env)\<rparr>)"

text \<open>
  The \<open>verify\<close> callback both parsers are given. The parsers are Express's: which requests one
  applies to and what it makes of the bytes are parameters. A parser that applies hands the
  bytes to the callback, sets the body or refuses the request; a request that has been
  parsed passes through the others.
\<close>

record express =
  applies :: "body_parser \<Rightarrow> string \<Rightarrow> bool"
  parsed :: "body_parser \<Rightarrow> string \<Rightarrow> json option"

definition capture :: "string \<Rightarrow> webhook_request \<Rightarrow> webhook_request" where
  "capture buf req = req\<lparr>req_rawBody := Some buf\<rparr>"

fun through :: "express \<Rightarrow> body_parser list \<Rightarrow> string \<Rightarrow> string \<Rightarrow> webhook_request \<Rightarrow> webhook_request option" where
  "through X [] contentType bytes req = Some req"
| "through X (p # ps) contentType bytes req =
     (if applies X p contentType
      then map_option (\<lambda>j. (capture bytes req)\<lparr>req_body := j\<rparr>) (parsed X p bytes)
      else through X ps contentType bytes req)"

lemma through_bytes:
  "through X ps ct bytes req = Some req' \<Longrightarrow> req' = req \<or> req_rawBody req' = Some bytes \<and> req_signature req' = req_signature req"
  by (induction ps) (auto simp: capture_def split: if_splits)

lemma through_captured:
  "through X ps ct bytes req = Some req' \<Longrightarrow> list_ex (\<lambda>p. applies X p ct) ps \<Longrightarrow> req_rawBody req' = Some bytes"
  by (induction ps) (auto simp: capture_def split: if_splits)

lemma bootstrap_middleware: "middleware (bootstrap env) = [ExpressJson, ExpressUrlencoded True]"
  by (simp add: bootstrap_def Let_def)

subsection \<open>What a verified signature covers\<close>

text \<open>
  A webhook that is let in with a secret configured (other than PayU's, which signs fields of
  the body) carries a signature of the very bytes that were received.
\<close>

definition covers :: "GatewayProvider \<Rightarrow> world \<Rightarrow> string \<Rightarrow> string \<Rightarrow> string \<Rightarrow> bool" where
  "covers g w secret bytes header \<longleftrightarrow>
     (if g = STRIPE then \<exists>ts sig. mac_matches w secret (ts @ ''.'' @ bytes) sig \<and>
        (\<exists>p \<in> set (split_on (CHR '','') header). starts_with p ''v1='' \<and> sig = split_on (CHR ''='') p ! 1) \<and>
        (\<exists>p \<in> set (split_on (CHR '','') header). starts_with p ''t='' \<and> ts = split_on (CHR ''='') p ! 1)
      else mac_matches w secret bytes header)"

lemma signed_covers:
  "signed g w secret req \<Longrightarrow> g \<noteq> PAYU \<Longrightarrow>
     \<exists>raw header. req_rawBody req = Some raw \<and> req_signature req = Some header \<and> covers g w secret raw header"
  unfolding covers_def by (cases g) (simp_all, blast+)

lemma webhook_covers_bytes:
  assumes "through X ps ct bytes req0 = Some req" "req_rawBody req0 = None"
    and "webhook g w D C req s = (Inr (Received d), s')" "g \<noteq> PAYU" "\<not> unsigned_mode g (webhook_secret w g)"
  shows "\<exists>header. req_signature req0 = Some header \<and> covers g w (str_text (webhook_secret w g)) bytes header"
proof -
  from webhook_guarded [OF assms(3,5)] have "signed g w (str_text (webhook_secret w g)) req" by auto
  from signed_covers [OF this assms(4)] obtain raw header
    where h: "req_rawBody req = Some raw" "req_signature req = Some header" "covers g w (str_text (webhook_secret w g)) raw header"
    by blast
  with through_bytes [OF assms(1)] assms(2) have "req_signature req0 = Some header" "raw = bytes" by auto
  with h(3) show ?thesis by blast
qed

subsection \<open>The health check\<close>

definition health_check :: "timestamp \<Rightarrow> json" where
  "health_check clk = JObj [(''status'', JStr ''ok''), (''timestamp'', JStr clk)]"

end
