(* ===== verification/Wiring.thy ===== *)
theory Wiring
  imports Config
begin

text \<open>
  The modules of the application and what their classes are injected with: \<open>app.module.ts\<close>,
  the feature modules and the constructors. The checks say that every constructor parameter is
  provided where its class lives, that no class is provided twice (so all users of a service
  share the one instance the models of the services keep their state in), that the instances
  can be built in some order, and that the data source knows every entity a repository is of.
\<close>

datatype nest_class =
    ConfigService | RedisServiceClass
  | StripeAdapter | RazorpayAdapter | PayUAdapter | UpiAdapter | RoutingEngineService | GatewaysController
  | StateMachineService | TransactionsService | TransactionsController
  | WebhooksService | ReconciliationQueueService | ReconciliationWorkerService | WebhooksController
  | HealthController

text \<open>
  What a constructor asks for: an instance of a class, \<open>@InjectRepository\<close> of an entity, or
  \<open>@InjectEntityManager\<close>.
\<close>

datatype token = Instance nest_class | Repository entity | Manager

subsection \<open>The constructors\<close>

definition RedisService_injects :: "token list" where
  "RedisService_injects = [Instance ConfigService]"

definition StripeAdapter_injects :: "token list" where
  "StripeAdapter_injects = [Instance ConfigService]"

definition RazorpayAdapter_injects :: "token list" where
  "RazorpayAdapter_injects = [Instance ConfigService]"

definition PayUAdapter_injects :: "token list" where
  "PayUAdapter_injects = [Instance ConfigService]"

definition UpiAdapter_injects :: "token list" where
  "UpiAdapter_injects = [Instance ConfigService]"

definition RoutingEngineService_injects :: "token list" where
  "RoutingEngineService_injects = [Repository GatewayStatsEntity, Instance RedisServiceClass]"

definition GatewaysController_injects :: "token list" where
  "GatewaysController_injects = [Repository GatewayStatsEntity]"

definition StateMachineService_injects :: "token list" where
  "StateMachineService_injects = [Manager]"

definition TransactionsService_injects :: "token list" where
  "TransactionsService_injects =
     [Repository TransactionEntity, Repository AuditLogEntity, Instance StateMachineService, Instance RedisServiceClass,
      Instance RoutingEngineService, Instance StripeAdapter, Instance RazorpayAdapter, Instance PayUAdapter, Instance UpiAdapter]"

definition TransactionsController_injects :: "token list" where
  "TransactionsController_injects = [Instance TransactionsService]"

definition WebhooksController_injects :: "token list" where
  "WebhooksController_injects = [Instance WebhooksService, Instance ConfigService]"

definition WebhooksService_injects :: "token list" where
  "WebhooksService_injects = [Repository WebhookEventEntity, Instance ReconciliationQueueService]"

definition ReconciliationQueueService_injects :: "token list" where
  "ReconciliationQueueService_injects = [Instance RedisServiceClass]"

definition ReconciliationWorkerService_injects :: "token list" where
  "ReconciliationWorkerService_injects =
     [Repository WebhookEventEntity, Repository TransactionEntity, Instance StateMachineService, Instance RedisServiceClass]"

fun injects :: "nest_class \<Rightarrow> token list" where
  "injects ConfigService = []"
| "injects RedisServiceClass = RedisService_injects"
| "injects StripeAdapter = StripeAdapter_injects"
| "injects RazorpayAdapter = RazorpayAdapter_injects"
| "injects PayUAdapter = PayUAdapter_injects"
| "injects UpiAdapter = UpiAdapter_injects"
| "injects RoutingEngineService = RoutingEngineService_injects"
| "injects GatewaysController = GatewaysController_injects"
| "injects StateMachineService = StateMachineService_injects"
| "injects TransactionsService = TransactionsService_injects"
| "injects TransactionsController = TransactionsController_injects"
| "injects WebhooksService = WebhooksService_injects"
| "injects ReconciliationQueueService = ReconciliationQueueService_injects"
| "injects ReconciliationWorkerService = ReconciliationWorkerService_injects"
| "injects WebhooksController = WebhooksController_injects"
| "injects HealthController = []"

subsection \<open>The modules\<close>

datatype module_id = AppModule | RedisModule | GatewaysModule | TransactionsModule | WebhooksModule

text \<open>
  \<open>forFeature\<close> lists the entities of \<open>TypeOrmModule.forFeature\<close>; \<open>roots\<close> are the tokens of
  \<open>ConfigModule.forRoot({ isGlobal: true })\<close> and \<open>TypeOrmModule.forRoot\<close>, which every module sees.
\<close>

record nest_module =
  module_imports :: "module_id list"
  roots :: "token list"
  forFeature :: "entity list"
  controllers :: "nest_class list"
  providers :: "nest_class list"
  module_exports :: "nest_class list"
  exports_features :: bool
  is_global :: bool

definition empty_module :: nest_module where
  "empty_module = \<lparr>module_imports = [], roots = [], forFeature = [], controllers = [], providers = [], module_exports = [],
     exports_features = False, is_global = False\<rparr>"

definition app_module :: nest_module where
  "app_module = empty_module\<lparr>module_imports := [RedisModule, TransactionsModule, WebhooksModule],
     roots := [Instance ConfigService, Manager], controllers := [HealthController]\<rparr>"

definition redis_module :: nest_module where
  "redis_module = empty_module\<lparr>providers := [RedisServiceClass], module_exports := [RedisServiceClass], is_global := True\<rparr>"

definition gateways_module :: nest_module where
  "gateways_module = empty_module\<lparr>module_imports := [RedisModule], forFeature := [GatewayStatsEntity],
     controllers := [GatewaysController],
     providers := [StripeAdapter, RazorpayAdapter, PayUAdapter, UpiAdapter, RoutingEngineService],
     module_exports := [StripeAdapter, RazorpayAdapter, PayUAdapter, UpiAdapter, RoutingEngineService],
     exports_features := True\<rparr>"

definition transactions_module :: nest_module where
  "transactions_module = empty_module\<lparr>module_imports := [GatewaysModule],
     forFeature := [TransactionEntity, AuditLogEntity], controllers := [TransactionsController],
     providers := [TransactionsService, StateMachineService], module_exports := [TransactionsService, StateMachineService]\<rparr>"

definition webhooks_module :: nest_module where
  "webhooks_module = empty_module\<lparr>module_imports := [TransactionsModule],
     forFeature := [WebhookEventEntity, TransactionEntity], controllers := [WebhooksController],
     providers := [WebhooksService, ReconciliationQueueService, ReconciliationWorkerService]\<rparr>"

fun module_of :: "module_id \<Rightarrow> nest_module" where
  "module_of AppModule = app_module"
| "module_of RedisModule = redis_module"
| "module_of GatewaysModule = gateways_module"
| "module_of TransactionsModule = transactions_module"
| "module_of WebhooksModule = webhooks_module"

definition all_modules :: "module_id list" where
  "all_modules = [AppModule, RedisModule, GatewaysModule, TransactionsModule, WebhooksModule]"

subsection \<open>What a module sees\<close>

text \<open>
  The rule of encapsulation: a class sees the providers and repositories of its own module, what
  the imported modules export, and what is global.
\<close>

definition offers :: "nest_module \<Rightarrow> token list" where
  "offers m = map Instance (module_exports m) @ (if exports_features m then map Repository (forFeature m) else [])"

definition visible :: "nest_module \<Rightarrow> token list" where
  "visible m = map Instance (providers m) @ map Repository (forFeature m) @
     concat (map (offers \<circ> module_of) (module_imports m)) @
     concat (map (offers \<circ> module_of) (filter (is_global \<circ> module_of) all_modules)) @
     concat (map (roots \<circ> module_of) all_modules)"

definition classes_of :: "nest_module \<Rightarrow> nest_class list" where
  "classes_of m = controllers m @ providers m"

definition unresolved :: "(module_id \<times> nest_class \<times> token) list" where
  "unresolved = concat (map (\<lambda>n. concat (map (\<lambda>c. map (\<lambda>t. (n, c, t))
     (filter (\<lambda>t. t \<notin> set (visible (module_of n))) (injects c))) (classes_of (module_of n)))) all_modules)"

text \<open>An order of construction: every instance a constructor is given has been built before.\<close>

fun constructible :: "nest_class list \<Rightarrow> nest_class list \<Rightarrow> bool" where
  "constructible built [] \<longleftrightarrow> True"
| "constructible built (c # cs) \<longleftrightarrow>
     list_all (\<lambda>t. case t of Instance d \<Rightarrow> d \<in> set built | _ \<Rightarrow> True) (injects c) \<and> constructible (c # built) cs"

definition startup_order :: "nest_class list" where
  "startup_order = [ConfigService, RedisServiceClass, StripeAdapter, RazorpayAdapter, PayUAdapter, UpiAdapter,
     RoutingEngineService, GatewaysController, StateMachineService, TransactionsService, TransactionsController,
     ReconciliationQueueService, WebhooksService, ReconciliationWorkerService, WebhooksController, HealthController]"

lemma wiring_resolved: "unresolved = []"
  by code_simp

lemma wiring_single: "distinct (concat (map (classes_of \<circ> module_of) all_modules))"
  by code_simp

lemma wiring_constructible:
  "constructible [] startup_order \<and>
     set startup_order = insert ConfigService (set (concat (map (classes_of \<circ> module_of) all_modules)))"
  by code_simp

lemma wiring_entities: "set (concat (map (forFeature \<circ> module_of) all_modules)) \<subseteq> set (ds_entities (typeOrmConfig f env))"
proof -
  have "set (concat (map (forFeature \<circ> module_of) all_modules)) \<subseteq>
      set [TransactionEntity, AuditLogEntity, WebhookEventEntity, GatewayStatsEntity]" by code_simp
  then show ?thesis by (simp add: typeOrmConfig_def)
qed

text \<open>No class waits for itself: the instances an injected instance is built from precede it.\<close>

lemma constructible_before:
  "constructible built cs \<Longrightarrow> c \<in> set cs \<Longrightarrow> Instance d \<in> set (injects c) \<Longrightarrow>
     d \<in> set built \<or> d \<in> set (takeWhile (\<lambda>x. x \<noteq> c) cs)"
  by (induction built cs rule: constructible.induct) (auto simp: list_all_iff)

end
