(* ===== verification/Validation.thy ===== *)
theory Validation
  imports Transactions Config
begin

text \<open>
  \<open>transactions/dto/create-transaction.dto.ts\<close>: which bodies of \<open>POST /payments\<close> get past the
  \<open>ValidationPipe\<close> of \<open>main.ts\<close>, and what the handler is then given. The decorators are
  class-validator's: what one accepts is a parameter, the locale \<open>documented_validator\<close> states
  what the library documents of those the DTO uses. A body is the object the JSON parser
  made, a missing property is \<open>undefined\<close>.
\<close>

datatype decorator = IsString | IsOptional | IsNotEmpty | IsInt | IsPositive | Length nat nat

type_synonym validator = "decorator \<Rightarrow> json option \<Rightarrow> bool"

type_synonym body = "(string \<times> json) list"

definition CreateTransactionDto :: "(string \<times> decorator list) list" where
  "CreateTransactionDto =
     [(''idempotencyKey'', [IsString, IsOptional]),
      (''merchantId'', [IsString, IsNotEmpty]),
      (''amount'', [IsInt, IsPositive]),
      (''currency'', [IsString, Length 3 3])]"

text \<open>\<open>@IsOptional\<close> turns the other decorators off for \<open>null\<close> and \<open>undefined\<close>.\<close>

definition violated :: "validator \<Rightarrow> decorator list \<Rightarrow> json option \<Rightarrow> decorator list" where
  "violated V ds v =
     (if IsOptional \<in> set ds \<and> (v = None \<or> v = Some JNull) then []
      else filter (\<lambda>d. d \<noteq> IsOptional \<and> \<not> V d v) ds)"

definition violations :: "validator \<Rightarrow> body \<Rightarrow> (string \<times> decorator) list" where
  "violations V b = concat (map (\<lambda>(p, ds). map (Pair p) (violated V ds (map_of b p))) CreateTransactionDto)"

text \<open>The instance the handler is given: the decorated properties, the others are stripped.\<close>

definition text_of :: "json option \<Rightarrow> string option" where
  "text_of v = (case v of Some (JStr s) \<Rightarrow> Some s | _ \<Rightarrow> None)"

definition amount_of :: "json option \<Rightarrow> nat" where
  "amount_of v = (case v of Some (JNum t) \<Rightarrow> (case string_number t of Finite q \<Rightarrow> nat \<lfloor>q\<rfloor> | _ \<Rightarrow> 0) | _ \<Rightarrow> 0)"

definition dto_of_body :: "body \<Rightarrow> create_dto" where
  "dto_of_body b = \<lparr>dto_idempotencyKey = text_of (map_of b ''idempotencyKey''),
     dto_merchantId = str_text (text_of (map_of b ''merchantId'')), dto_amount = amount_of (map_of b ''amount''),
     dto_currency = str_text (text_of (map_of b ''currency''))\<rparr>"

definition validated :: "validator \<Rightarrow> body \<Rightarrow> (string \<times> decorator) list + create_dto" where
  "validated V b = (if violations V b = [] then Inr (dto_of_body b) else Inl (violations V b))"

text \<open>The route with the pipe in front: a refused body is answered with the violations.\<close>

definition post_body ::
  "validator \<Rightarrow> world \<Rightarrow> 'd orm \<Rightarrow> 'r redis_client \<Rightarrow> body \<Rightarrow> string option \<Rightarrow>
   (('d, 'r) node, (string \<times> decorator) list + create_result) io" where
  "post_body V w D C b headerKey = (case validated V b of
     Inl vs \<Rightarrow> ret (Inl vs)
   | Inr dto \<Rightarrow> andThen (post_payment w D C dto headerKey) (\<lambda>x. ret (Inr x)))"

subsection \<open>What class-validator documents\<close>

locale documented_validator =
  fixes V :: validator
  assumes isString: "V IsString v \<longleftrightarrow> (\<exists>s. v = Some (JStr s))"
    and isNotEmpty: "V IsNotEmpty v \<longleftrightarrow> v \<noteq> None \<and> v \<noteq> Some JNull \<and> v \<noteq> Some (JStr '''')"
    and isInt: "V IsInt v \<longleftrightarrow> (\<exists>t n. v = Some (JNum t) \<and> string_number t = Finite (of_int n))"
    and isPositive: "V IsPositive v \<longleftrightarrow>
      (\<exists>t. v = Some (JNum t) \<and> (string_number t = Infinity False \<or> (\<exists>q > 0. string_number t = Finite q)))"
    and length: "V (Length a b) v \<longleftrightarrow> (\<exists>s. v = Some (JStr s) \<and> a \<le> List.length s \<and> List.length s \<le> b)"
begin

text \<open>Property by property.\<close>

lemma key_ok:
  "violated V [IsString, IsOptional] v = [] \<longleftrightarrow> v = None \<or> v = Some JNull \<or> (\<exists>s. v = Some (JStr s))"
  by (auto simp: violated_def isString)

lemma merchant_ok: "violated V [IsString, IsNotEmpty] v = [] \<longleftrightarrow> (\<exists>s. v = Some (JStr s) \<and> s \<noteq> [])"
  by (auto simp: violated_def isString isNotEmpty)

lemma amount_ok:
  "violated V [IsInt, IsPositive] v = [] \<longleftrightarrow> (\<exists>t n. v = Some (JNum t) \<and> string_number t = Finite (of_nat n) \<and> 0 < n)"
proof -
  have positive: "(\<exists>n. x = Finite (of_int n)) \<and> (x = Infinity False \<or> (\<exists>q > 0. x = Finite q)) \<longleftrightarrow>
      (\<exists>n. x = Finite (of_nat n) \<and> 0 < n)" for x
  proof (cases x)
    case (Finite q)
    show ?thesis
    proof (cases "\<exists>n :: int. q = of_int n \<and> 0 < n")
      case True
      then obtain n :: int where "q = of_nat (nat n)" "0 < nat n" "q = of_int n" "0 < n" by auto
      with Finite show ?thesis by (metis of_int_0_less_iff js_number.inject(2))
    next
      case False
      then have "\<not> (q = of_nat n \<and> 0 < n)" for n by (metis of_int_of_nat_eq of_nat_0_less_iff)
      with False Finite show ?thesis by auto
    qed
  qed auto
  have "violated V [IsInt, IsPositive] v = [] \<longleftrightarrow> V IsInt v \<and> V IsPositive v" by (simp add: violated_def)
  also have "\<dots> \<longleftrightarrow> (\<exists>t. v = Some (JNum t) \<and> (\<exists>n. string_number t = Finite (of_int n)) \<and>
      (string_number t = Infinity False \<or> (\<exists>q > 0. string_number t = Finite q)))"
    unfolding isInt isPositive by blast
  also have "\<dots> \<longleftrightarrow> (\<exists>t n. v = Some (JNum t) \<and> string_number t = Finite (of_nat n) \<and> 0 < n)"
    unfolding positive by blast
  finally show ?thesis .
qed

lemma currency_ok: "violated V [IsString, Length 3 3] v = [] \<longleftrightarrow> (\<exists>s. v = Some (JStr s) \<and> List.length s = 3)"
  by (auto simp: violated_def isString length)

lemma accepted_iff:
  "violations V b = [] \<longleftrightarrow>
     (map_of b ''idempotencyKey'' = None \<or> map_of b ''idempotencyKey'' = Some JNull \<or> (\<exists>s. map_of b ''idempotencyKey'' = Some (JStr s))) \<and>
     (\<exists>s. map_of b ''merchantId'' = Some (JStr s) \<and> s \<noteq> []) \<and>
     (\<exists>t n. map_of b ''amount'' = Some (JNum t) \<and> string_number t = Finite (of_nat n) \<and> 0 < n) \<and>
     (\<exists>s. map_of b ''currency'' = Some (JStr s) \<and> List.length s = 3)"
  unfolding key_ok [symmetric] merchant_ok [symmetric] amount_ok [symmetric] currency_ok [symmetric]
  by (simp add: violations_def CreateTransactionDto_def)

text \<open>What an accepted body says is what the handler is given.\<close>

lemma validated_dto:
  assumes "validated V b = Inr dto"
  shows "(\<exists>t. map_of b ''amount'' = Some (JNum t) \<and> string_number t = Finite (of_nat (dto_amount dto)) \<and> 0 < dto_amount dto) \<and>
    map_of b ''merchantId'' = Some (JStr (dto_merchantId dto)) \<and> dto_merchantId dto \<noteq> [] \<and>
    map_of b ''currency'' = Some (JStr (dto_currency dto)) \<and> List.length (dto_currency dto) = 3 \<and>
    dto_idempotencyKey dto = text_of (map_of b ''idempotencyKey'')"
proof -
  from assms have v: "violations V b = []" and dto: "dto = dto_of_body b" by (auto simp: validated_def split: if_splits)
  from v [unfolded accepted_iff] obtain m t n c where
    f: "map_of b ''merchantId'' = Some (JStr m)" "m \<noteq> []" "map_of b ''amount'' = Some (JNum t)"
      "string_number t = Finite (of_nat n)" "0 < n" "map_of b ''currency'' = Some (JStr c)" "List.length c = 3"
    by blast
  then have "amount_of (map_of b ''amount'') = n" by (simp add: amount_of_def)
  with f show ?thesis by (auto simp: dto dto_of_body_def text_of_def str_text_def)
qed

text \<open>A refused body names at least one reason, and leaves no trace.\<close>

lemma refused_body:
  assumes "violations V b \<noteq> []"
  shows "post_body V w D C b h s = (Inr (Inl (violations V b)), s)"
  using assms by (simp add: post_body_def validated_def)

end

subsection \<open>The decorators, executable\<close>

fun validator_rules :: validator where
  "validator_rules IsString (Some (JStr s)) = True"
| "validator_rules IsNotEmpty (Some v) = (v \<noteq> JNull \<and> v \<noteq> JStr '''')"
| "validator_rules IsInt (Some (JNum t)) = (case string_number t of Finite q \<Rightarrow> of_int \<lfloor>q\<rfloor> = q | _ \<Rightarrow> False)"
| "validator_rules IsPositive (Some (JNum t)) = (case string_number t of Finite q \<Rightarrow> 0 < q | Infinity neg \<Rightarrow> \<not> neg | NaN \<Rightarrow> False)"
| "validator_rules (Length a b) (Some (JStr s)) = (a \<le> length s \<and> length s \<le> b)"
| "validator_rules IsOptional v = True"
| "validator_rules d v = False"

interpretation rules: documented_validator validator_rules
proof
  fix v
  show "validator_rules IsString v \<longleftrightarrow> (\<exists>s. v = Some (JStr s))"
    by (cases "(IsString, v)" rule: validator_rules.cases) auto
  show "validator_rules IsNotEmpty v \<longleftrightarrow> v \<noteq> None \<and> v \<noteq> Some JNull \<and> v \<noteq> Some (JStr '''')"
    by (cases v) auto
  show "validator_rules IsInt v \<longleftrightarrow> (\<exists>t n. v = Some (JNum t) \<and> string_number t = Finite (of_int n))"
  proof (cases "(IsInt, v)" rule: validator_rules.cases)
    case (3 t)
    have "of_int \<lfloor>q\<rfloor> = q \<longleftrightarrow> (\<exists>n. q = of_int n)" for q :: rat by auto
    with 3 show ?thesis by (auto split: js_number.split)
  qed auto
  show "validator_rules IsPositive v \<longleftrightarrow>
      (\<exists>t. v = Some (JNum t) \<and> (string_number t = Infinity False \<or> (\<exists>q > 0. string_number t = Finite q)))"
    by (cases "(IsPositive, v)" rule: validator_rules.cases) (auto split: js_number.split)
  show "validator_rules (Length a b) v \<longleftrightarrow> (\<exists>s. v = Some (JStr s) \<and> a \<le> length s \<and> length s \<le> b)" for a b
    by (cases "(Length a b, v)" rule: validator_rules.cases) auto
qed

end
