(* ===== verification/Sandbox.thy ===== *)
theory Sandbox
  imports Lifecycle Concurrency Gateways Migration Wiring Validation "HOL-Library.Code_Target_Nat"
begin

text \<open>
  A concrete service for the witnesses: the schema's database and the in-memory Redis, with a
  payment of 100.99 that the first gateway times out on and the second accepts, and the
  webhook that settles it.
\<close>

subsection \<open>A payment\<close>

definition tripped_stats :: "GatewayProvider \<Rightarrow> int \<Rightarrow> gateway_stats" where
  "tripped_stats g c = (seed_stats g c)\<lparr>circuitState := OPEN, consecutiveFailures := 3\<rparr>"

text \<open>Two gateways, both cooling down: they are tried all the same, the cheaper one first.\<close>

definition sandbox :: "(schema_db, mem_server) node" where
  "sandbox = fresh_node
     \<lparr>db := fresh_db\<lparr>contents := InitSchema_up\<lparr>stats := [tripped_stats PAYU 190, tripped_stats UPI 50]\<rparr>\<rparr>,
      redis := fresh_redis\<lparr>client := (client fresh_redis)\<lparr>mem_kv :=
        [circuit_key UPI \<mapsto> (''open'', None), circuit_key PAYU \<mapsto> (''open'', None)]\<rparr>\<rparr>\<rparr>"

definition demo_dto :: create_dto where
  "demo_dto = \<lparr>dto_idempotencyKey = None, dto_merchantId = ''m'', dto_amount = 10099, dto_currency = ''INR''\<rparr>"

definition demo_create :: "(exn + create_result) \<times> (schema_db, mem_server) node" where
  "demo_create = create test_world schema_orm mem_client ''k1'' demo_dto sandbox"

definition after_create :: "(schema_db, mem_server) node" where
  "after_create = snd demo_create"

definition demo_row :: transaction where
  "demo_row = \<lparr>txnId = ''u'', idempotencyKey = ''k1'', merchantId = ''m'', amount = 10099, currency = ''INR'',
     currentState = SUCCESS, selectedGateway = Some PAYU, gatewayTxnId = JStr ''payu_mock_u'',
     fallbackGateways = [PAYU], attemptCount = 2, createdAt = now, updatedAt = now, finalReconciledAt = None\<rparr>"

lemma demo_create_facts:
  "(case demo_create of (r, s) \<Rightarrow>
      (r, transactions (contents (db s)), cached_text mem_kv ''k1'' s, map fst (charges s))) =
   (Inr (Entity demo_row), [demo_row], Some (JSON_stringify (completed_json demo_row)), [UPI, PAYU])"
  by code_simp

lemma demo_create_run:
  "create test_world schema_orm mem_client ''k1'' demo_dto sandbox = (Inr (Entity demo_row), after_create)"
  using demo_create_facts by (simp add: after_create_def demo_create_def prod_eq_iff case_prod_unfold)

lemma after_create_facts:
  "transactions (contents (db after_create)) = [demo_row]"
  "cached_text mem_kv ''k1'' after_create = Some (JSON_stringify (completed_json demo_row))"
  "map fst (charges after_create) = [UPI, PAYU]"
  using demo_create_facts by (simp_all add: after_create_def case_prod_unfold)

lemma sandbox_books: "books contents sandbox"
  by (simp add: books_def well_kept_def attempts_logged_def charges_recorded_def sandbox_def fresh_node_def
      fresh_db_def InitSchema_up_def)

lemma sandbox_sound: "sound_ledger (contents (db sandbox))"
  by (simp add: sound_ledger_def attempts_logged_def sandbox_def fresh_node_def fresh_db_def InitSchema_up_def)

lemma sandbox_free:
  "txn_by_key (contents (db sandbox)) k = None" "cached_text mem_kv ''k1'' sandbox = None"
  "mockStore (redis sandbox) k = None" "\<not> isMockMode (redis sandbox)" "charges sandbox = []"
  "distinct (map gateway (stats (contents (db sandbox))))"
  by (simp_all add: sandbox_def fresh_node_def fresh_db_def InitSchema_up_def fresh_redis_def txn_by_key_def
      cached_text_def redis_view_def redis_key_def circuit_key_def tripped_stats_def seed_stats_def)

lemma after_create_by_key: "txn_by_key (contents (db after_create)) ''k1'' = Some demo_row"
  by (simp add: txn_by_key_def after_create_facts demo_row_def)

lemma demo_again_ok:
  "(case create test_world schema_orm mem_client ''k1'' demo_dto after_create of (Inl e, s) \<Rightarrow> False | (Inr x, s) \<Rightarrow> True)"
  by code_simp

lemma demo_again: "\<exists>y s2. create test_world schema_orm mem_client ''k1'' demo_dto after_create = (Inr y, s2)"
  using demo_again_ok by (auto split: prod.splits sum.splits)

text \<open>Another request holds the lock.\<close>

definition locked_node :: "(schema_db, mem_server) node" where
  "locked_node = sandbox\<lparr>redis := fresh_redis\<lparr>client := (client fresh_redis)\<lparr>mem_kv :=
     [redis_key ''k1'' \<mapsto> (JSON_stringify processing_json, Some 10000)]\<rparr>\<rparr>\<rparr>"

lemma locked_cached: "cached_text mem_kv ''k1'' locked_node = Some (JSON_stringify processing_json)"
  by (simp add: locked_node_def cached_text_def redis_view_def fresh_redis_def)

lemma locked_mode:
  "isMockMode (redis (snd (create test_world schema_orm mem_client ''k1'' demo_dto locked_node))) =
   isMockMode (redis locked_node)"
  by code_simp

text \<open>A database with one payment.\<close>

definition one_row :: schema_db where
  "one_row = fresh_db\<lparr>contents := InitSchema_up\<lparr>transactions := [demo_row]\<rparr>\<rparr>"

definition fresh_row :: schema_db where
  "fresh_row = fresh_db\<lparr>contents := InitSchema_up\<lparr>transactions := [demo_row\<lparr>currentState := INITIATED\<rparr>]\<rparr>\<rparr>"

lemma after_create_sound: "sound_ledger (contents (db after_create))"
proof -
  have "ledgered (contents (db sandbox)) contents sandbox" by (simp add: ledgered_def)
  from keepsD [OF schema.shared.keeps_ledgered_create this demo_create_run] sandbox_sound show ?thesis
    by (auto simp: ledgered_def intro: ledger_run_sound)
qed

subsection \<open>Its webhook\<close>

definition demo_request :: webhook_request where
  "demo_request = \<lparr>req_body = JObj [(''mihpayid'', JStr ''payu_mock_u''), (''status'', JStr ''success'')],
     req_rawBody = None, req_signature = None\<rparr>"

definition demo_hook :: "(exn + webhook_reply) \<times> (schema_db, mem_server) node" where
  "demo_hook = webhook PAYU test_world schema_orm mem_client demo_request after_create"

definition after_hook :: "(schema_db, mem_server) node" where
  "after_hook = snd demo_hook"

definition demo_event :: webhook_event where
  "demo_event = event_row (stored_event (event_of PAYU (req_body demo_request))) ''u'' now"

lemma demo_hook_facts:
  "(case demo_hook of (r, s) \<Rightarrow>
      (r, events (contents (db s)), transactions (contents (db s)), waiting_in mem_lists queueName (redis s),
       faults (db s), mem_down (client (redis s)), isMockMode (redis s))) =
   (Inr (Received False), [demo_event], [demo_row], [''u''], None, False, False)"
  by code_simp

lemma demo_hook_run:
  "webhook PAYU test_world schema_orm mem_client demo_request after_create = (Inr (Received False), after_hook)"
  using demo_hook_facts by (simp add: after_hook_def demo_hook_def prod_eq_iff case_prod_unfold)

lemma after_hook_facts:
  "events (contents (db after_hook)) = [demo_event]" "transactions (contents (db after_hook)) = [demo_row]"
  "waiting_in mem_lists queueName (redis after_hook) = [''u'']" "faults (db after_hook) = None"
  "\<not> mem_down (client (redis after_hook))" "\<not> isMockMode (redis after_hook)"
  using demo_hook_facts by (simp_all add: after_hook_def case_prod_unfold)

subsection \<open>A world with secrets\<close>

text \<open>Every digest is the two bytes 0 and 255, which is enough to tell a right signature from a wrong one.\<close>

definition secret_world :: world where
  "secret_world = test_world\<lparr>getenv := (\<lambda>v.
     if v = ''STRIPE_WEBHOOK_SECRET'' then Some ''whsec_1'' else if v = ''RAZORPAY_KEY_SECRET'' then Some ''k''
     else if v = ''PAYU_SALT'' then Some ''s'' else None)\<rparr>"

definition signed_request :: webhook_request where
  "signed_request = \<lparr>req_body = JObj [(''id'', JStr ''evt_1''), (''event'', JStr ''payment.captured'')],
     req_rawBody = Some ''raw'', req_signature = Some ''00ff''\<rparr>"

lemma after_create_no_events: "events (contents (db after_create)) = []"
  unfolding after_create_def demo_create_def by code_simp

text \<open>The worker's run on the event of the payment.\<close>

lemma demo_process: "\<exists>s'. processEvent schema_orm now ''u'' after_hook = (Inr (), s')"
proof -
  have "(case processEvent schema_orm now ''u'' after_hook of (Inr _, _) \<Rightarrow> True | _ \<Rightarrow> False)" by code_simp
  then show ?thesis by (auto split: prod.splits sum.splits)
qed

lemma after_create_queue: "waiting_in mem_lists queueName (redis after_create) = []"
proof -
  have "(case redis after_create of s \<Rightarrow> (isMockMode s, mem_lists (client s) queueName)) = (False, [])"
    unfolding after_create_def demo_create_def by code_simp
  then show ?thesis by (simp add: waiting_in_def)
qed

text \<open>The same node after the database has gone away.\<close>

definition broken_node :: "(schema_db, mem_server) node" where
  "broken_node = after_hook\<lparr>db := (db after_hook)\<lparr>faults := Some 0\<rparr>\<rparr>"

lemma broken_run:
  "\<exists>q c e s'. getClient_brpop mem_client queueName 2 (redis broken_node) = (Inr (Some (q, ''u'')), c) \<and>
     processEvent schema_orm now ''u'' (broken_node\<lparr>redis := c\<rparr>) = (Inl e, s') \<and> events (contents (db s')) = [demo_event]"
proof -
  have "(case getClient_brpop mem_client queueName 2 (redis broken_node) of
      (Inr (Some (q, i)), c) \<Rightarrow> i = ''u'' \<and> (case processEvent schema_orm now ''u'' (broken_node\<lparr>redis := c\<rparr>) of
          (Inl _, s') \<Rightarrow> events (contents (db s')) = [demo_event] | _ \<Rightarrow> False)
    | _ \<Rightarrow> False)"
    by code_simp
  then show ?thesis by (auto split: prod.splits sum.splits option.splits)
qed

lemma demo_ingest_twice:
  "\<exists>s1 d x s3. ingest schema_orm mem_client (event_of PAYU (req_body demo_request)) after_create = (Inr (False, Some demo_event), s1) \<and>
     ingest schema_orm mem_client (event_of PAYU (req_body demo_request)) s1 = (Inr (d, x), s3)"
proof -
  have "(case ingest schema_orm mem_client (event_of PAYU (req_body demo_request)) after_create of
      (Inr (False, Some e), s1) \<Rightarrow> e = demo_event \<and>
        (case ingest schema_orm mem_client (event_of PAYU (req_body demo_request)) s1 of (Inr _, _) \<Rightarrow> True | _ \<Rightarrow> False)
    | _ \<Rightarrow> False)"
    by code_simp
  then show ?thesis by (auto split: prod.splits sum.splits option.splits bool.splits)
qed

subsection \<open>Its gateways\<close>

lemma sandbox_stats: "stats (contents (db sandbox)) = [tripped_stats PAYU 190, tripped_stats UPI 50]"
  by (simp add: sandbox_def fresh_node_def fresh_db_def)

lemma sandbox_still_open:
  "cool_down (redis_view mem_kv (redis sandbox)) (tripped_stats PAYU c) = tripped_stats PAYU c"
  "cool_down (redis_view mem_kv (redis sandbox)) (tripped_stats UPI c) = tripped_stats UPI c"
  by (simp_all add: cool_down_def redis_view_def sandbox_def fresh_node_def fresh_redis_def circuit_key_def
      tripped_stats_def seed_stats_def)

lemma demo_ranked:
  "\<exists>s'. getRankedGateways (getenv test_world) schema_orm mem_client 10099 sandbox = (Inr [UPI, PAYU], s') \<and>
     isMockMode (redis s') = isMockMode (redis sandbox)"
proof -
  have "(case getRankedGateways (getenv test_world) schema_orm mem_client 10099 sandbox of
      (Inr gs, s') \<Rightarrow> gs = [UPI, PAYU] \<and> isMockMode (redis s') = isMockMode (redis sandbox) | _ \<Rightarrow> False)"
    by code_simp
  then show ?thesis by (auto split: prod.splits sum.splits)
qed

text \<open>A gateway that has failed twice.\<close>

definition shaky_stats :: gateway_stats where
  "shaky_stats = (seed_stats STRIPE 290)\<lparr>consecutiveFailures := 2\<rparr>"

definition shaky_node :: "(schema_db, mem_server) node" where
  "shaky_node = fresh_node\<lparr>db := fresh_db\<lparr>contents := InitSchema_up\<lparr>stats := [shaky_stats]\<rparr>\<rparr>\<rparr>"

lemma shaky_run: "\<exists>s'. recordFailure schema_orm mem_client STRIPE 120 shaky_node = (Inr (), s')"
proof -
  have "(case recordFailure schema_orm mem_client STRIPE 120 shaky_node of (Inr _, _) \<Rightarrow> True | _ \<Rightarrow> False)" by code_simp
  then show ?thesis by (auto split: prod.splits sum.splits)
qed

lemma recovery_run: "\<exists>s'. recordSuccess schema_orm mem_client UPI 120 sandbox = (Inr (), s')"
proof -
  have "(case recordSuccess schema_orm mem_client UPI 120 sandbox of (Inr _, _) \<Rightarrow> True | _ \<Rightarrow> False)" by code_simp
  then show ?thesis by (auto split: prod.splits sum.splits)
qed

subsection \<open>With others at work\<close>

text \<open>
  Two requests for one key, neither of which sees the other's lock: the second is the one whose
  insert comes first, in the middle of the first one.
\<close>

definition alone_run :: "(exn + create_result) \<times> ((schema_db, neighbour list) shared_db, mem_server) node" where
  "alone_run = busy_create demo_dto [seed_stats PAYU 190] [[Pays (new_payment ''k0'' demo_dto UPI [])]]"

definition rival_run :: "(exn + create_result) \<times> ((schema_db, neighbour list) shared_db, mem_server) node" where
  "rival_run = busy_create demo_dto [seed_stats PAYU 190] [[], [], [Pays (new_payment ''k1'' demo_dto UPI [])]]"

lemma alone_run_facts: "map fst (charges (snd alone_run)) = [PAYU]"
  by code_simp

lemma rival_run_facts: "charges (snd rival_run) = []"
  by code_simp

text \<open>
  The worker settles the payment from its webhook while the request is still waiting for the
  gateway's answer: before its seventh call the payment has become \<open>RECONCILED\<close>.
\<close>

definition raced_run :: "(exn + create_result) \<times> ((schema_db, neighbour list) shared_db, mem_server) node" where
  "raced_run = busy_create demo_dto [seed_stats PAYU 190] [[], [], [], [], [], [],
     [Moves now ''u'' SUCCESS (success_hook_meta PAYU (JStr ''payu_mock_u'') JNull), Moves now ''u'' RECONCILED (reconciled_hook_meta PAYU JNull)]]"

subsection \<open>Two workers on one event\<close>

text \<open>
  A worker on the event of the payment; the step of others before its third call is another
  worker that handles the same event from beginning to end.
\<close>

definition twin_node :: "((schema_db, neighbour list) shared_db, mem_server) node" where
  "twin_node = \<lparr>db = \<lparr>inner = db after_hook, others = [[], [], [Reconciles now ''u'']]\<rparr>, redis = redis after_hook,
     charges = charges after_hook\<rparr>"

definition twin_run :: "(exn + unit) \<times> ((schema_db, neighbour list) shared_db, mem_server) node" where
  "twin_run = poll_once (shared_orm crowd_step schema_orm) mem_client now twin_node"

lemma twin_run_facts:
  "(case twin_run of (r, s) \<Rightarrow> (r, map currentState (transactions (contents (inner (db s)))),
      map (\<lambda>e. (eventRecordId e, processed e)) (events (contents (inner (db s)))), length (others (db s)))) =
   (Inr (), [RECONCILED], [(''u'', True)], 0)"
  by code_simp

lemma twin_serves: "(serves (shared_orm crowd_step schema_orm) mem_client)\<^sup>*\<^sup>* twin_node (snd twin_run)"
  using serves.work [OF surjective_pairing, where D = "shared_orm crowd_step schema_orm" and C = mem_client and clk = now and s = twin_node]
  by (intro r_into_rtranclp) (simp add: twin_run_def)

lemma after_hook_ledger: "ledger_run (contents (db sandbox)) (contents (db after_hook))"
proof -
  have start: "ledgered (contents (db sandbox)) contents sandbox" by (simp add: ledgered_def)
  have "ledgered (contents (db sandbox)) contents after_create"
    by (rule keepsD [OF schema.shared.keeps_ledgered_create start demo_create_run])
  from keepsD [OF schema.shared.keeps_ledgered_webhook this demo_hook_run] show ?thesis by (simp add: ledgered_def)
qed

lemma sandbox_settled: "settled_once (contents (db sandbox))"
  by (simp add: settled_once_def txn_by_id_def sandbox_def fresh_node_def fresh_db_def InitSchema_up_def)

lemma twin_start:
  "sound_ledger (contents (inner (db twin_node)))" "settled_once (contents (inner (db twin_node)))"
  "txn_by_id (contents (inner (db twin_node))) ''u'' = Some demo_row"
  using ledger_run_sound [OF after_hook_ledger sandbox_sound] ledger_run_settled [OF after_hook_ledger sandbox_settled]
  by (simp_all add: twin_node_def txn_by_id_def after_hook_facts demo_row_def)

subsection \<open>A worker that is stopped\<close>

text \<open>It was started, has entered an iteration, and \<open>onModuleDestroy\<close> has been called since.\<close>

definition stopping_worker :: worker where
  "stopping_worker = \<lparr>isActive = False, workerPromise = Some InIteration, destroying = Awaiting\<rparr>"

lemma stopping_reached: "reaches schema_orm mem_client (new_worker, after_hook) (stopping_worker, after_hook)"
proof -
  let ?w1 = "worker_onModuleInit new_worker"
  let ?w2 = "?w1\<lparr>workerPromise := Some InIteration\<rparr>"
  have "process_step schema_orm mem_client (new_worker, after_hook) (?w1, after_hook)"
    by (rule process_step.init) (simp_all add: new_worker_def)
  moreover have "process_step schema_orm mem_client (?w1, after_hook) (?w2, after_hook)"
    by (intro process_step.working worker_step.check) (simp_all add: worker_onModuleInit_def)
  moreover have "process_step schema_orm mem_client (?w2, after_hook) (worker_onModuleDestroy ?w2, after_hook)"
    by (rule process_step.destroy) (simp add: worker_onModuleInit_def new_worker_def)
  moreover have "worker_onModuleDestroy ?w2 = stopping_worker"
    by (simp add: worker_onModuleDestroy_def worker_onModuleInit_def new_worker_def stopping_worker_def)
  ultimately show ?thesis by (metis rtranclp.rtrancl_refl rtranclp.rtrancl_into_rtrancl)
qed

subsection \<open>A database with another table\<close>

definition other_catalog :: catalog where
  "other_catalog = \<lparr>extensions = {''citext''}, enums = [(''colour'', [''red''])],
     cat_tables = [(''users'', [required ''id'' ''int'', required ''favourite'' ''colour''], [''id''])],
     indexes = [(''users_favourite'', ''users'', False, [''favourite''])],
     cat_rows = [(''users'', [''id'', ''favourite''], [''1'', ''red''])]\<rparr>"

lemma other_catalog_free: "free_for_migration other_catalog"
  by code_simp

subsection \<open>A webhook on the wire\<close>

definition demo_express :: express where
  "demo_express = \<lparr>applies = (\<lambda>p ct. p = ExpressJson \<and> ct = ''application/json''), parsed = (\<lambda>p bytes. JSON_parse bytes)\<rparr>"

definition wire_request :: webhook_request where
  "wire_request = \<lparr>req_body = JNull, req_rawBody = None, req_signature = Some ''00ff''\<rparr>"

lemma wire_run:
  "\<exists>req s'. through demo_express (middleware (bootstrap (\<lambda>_. None))) ''application/json'' ''{}'' wire_request = Some req \<and>
     webhook RAZORPAY secret_world schema_orm mem_client req after_create = (Inr (Received False), s')"
proof -
  have "(case through demo_express (middleware (bootstrap (\<lambda>_. None))) ''application/json'' ''{}'' wire_request of
      None \<Rightarrow> False
    | Some req \<Rightarrow> (case webhook RAZORPAY secret_world schema_orm mem_client req after_create of
        (Inr (Received False), s') \<Rightarrow> True | _ \<Rightarrow> False))"
    by code_simp
  then show ?thesis by (auto split: option.splits prod.splits sum.splits webhook_reply.splits bool.splits)
qed

subsection \<open>Bodies of requests\<close>

definition demo_body :: body where
  "demo_body = [(''merchantId'', JStr ''m''), (''amount'', JNum ''10099''), (''currency'', JStr ''INR''), (''note'', JStr ''x'')]"

definition huge_body :: body where
  "huge_body = [(''merchantId'', JStr ''m''), (''amount'', JNum ''1e300''), (''currency'', JStr ''INR'')]"

definition bad_body :: body where
  "bad_body = [(''amount'', JStr ''12''), (''merchantId'', JNull)]"

lemma demo_amount: "string_number ''10099'' = Finite (of_nat 10099)"
proof -
  have "''10099'' = decimal 10099" by code_simp
  then show ?thesis using string_number_nat [of 10099] by simp
qed

lemma huge_amount: "\<exists>n > 0. string_number ''1e300'' = Finite (of_nat n)"
proof -
  have "takeWhile is_decimal ''1e300'' = ''1''" "dropWhile is_decimal ''1e300'' = ''e300''" "exponent_part ''e300'' = Some 300"
    "decimal_value ''1'' = 1" by code_simp+
  then have "string_number ''1e300'' = to_double (of_nat (10 ^ 300))" by (simp add: unsigned_decimal_def Let_def)
  with to_double_integer [of "10 ^ 300"] show ?thesis by simp
qed

lemma demo_validated: "validated validator_rules demo_body = Inr demo_dto"
proof -
  have "violations validator_rules demo_body = []"
    unfolding rules.accepted_iff using demo_amount by (auto simp: demo_body_def)
  moreover have "dto_of_body demo_body = demo_dto"
    using demo_amount by (simp add: dto_of_body_def demo_body_def demo_dto_def text_of_def str_text_def amount_of_def)
  ultimately show ?thesis by (simp add: validated_def)
qed

lemma huge_validated: "validated validator_rules huge_body = Inr (dto_of_body huge_body)"
proof -
  have "violations validator_rules huge_body = []"
    unfolding rules.accepted_iff using huge_amount by (auto simp: huge_body_def)
  then show ?thesis by (simp add: validated_def)
qed

lemma bad_validated:
  "validated validator_rules bad_body =
     Inl [(''merchantId'', IsString), (''merchantId'', IsNotEmpty), (''amount'', IsInt), (''amount'', IsPositive),
       (''currency'', IsString), (''currency'', Length 3 3)]"
  by code_simp

end
