(* ===== verification/Script.thy ===== *)
theory Script
  imports Transactions Config
begin

text \<open>
  \<open>src/test-stripe-db.ts\<close>, the script an operator runs against real services: it opens the
  application without the HTTP server, checks the tables, sends one charge to the Stripe adapter
  directly, makes one payment through the service, and ends the process with an exit status.
  NestJS, the data source and its query runner are parameters.
\<close>

subsection \<open>The surroundings of the script\<close>

text \<open>
  \<open>boot\<close> is \<open>NestFactory.createApplicationContext\<close>, \<open>shut\<close> is \<open>app.close\<close>, both with the hooks
  of the modules. \<open>getTables\<close> gives the number of tables found. \<open>findAuditBy\<close> is the query of
  \<open>history\<close> for an id that is not a string, which only a foreign text in the cache can lead to.
\<close>

record ('d, 'r) platform =
  boot :: "(('d, 'r) node, unit) io"
  shut :: "(('d, 'r) node, unit) io"
  isInitialized :: bool
  getTables :: "string list \<Rightarrow> ('d, nat) io"
  releaseRunner :: "('d, unit) io"
  findAuditBy :: "json option \<Rightarrow> ('d, audit_log list) io"

text \<open>
  What is written: \<open>console.log\<close> of a text, \<open>console.error\<close> of a text with the message of an
  error, or with the error.
\<close>

datatype console = Log string | Failure string string | Unhandled string exn

type_synonym ('d, 'r) terminal = "('d, 'r) node \<times> console list"

definition service :: "(('d, 'r) node, 'a) io \<Rightarrow> (('d, 'r) terminal, 'a) io" where
  "service m = (\<lambda>(s, out). case m s of (r, s') \<Rightarrow> (r, s', out))"

definition print :: "console \<Rightarrow> (('d, 'r) terminal, unit) io" where
  "print l = (\<lambda>(s, out). (Inr (), s, out @ [l]))"

fun print_all :: "string list \<Rightarrow> (('d, 'r) terminal, unit) io" where
  "print_all [] = ret ()"
| "print_all (l # ls) = andThen (print (Log l)) (\<lambda>_. print_all ls)"

definition heading :: "string \<Rightarrow> console" where
  "heading t = Log (CHR 0x0A # t)"

definition int_text :: "int \<Rightarrow> string" where
  "int_text i = (if i < 0 then CHR ''-'' # decimal (nat (- i)) else decimal (nat i))"

text \<open>A property of a value, as a template literal prints it; \<open>undefined\<close> and \<open>null\<close> have none.\<close>

fun property :: "string \<Rightarrow> json option \<Rightarrow> exn + json option" where
  "property k None = Inl (JsError (''Cannot read properties of undefined (reading '' @ [CHR 0x27] @ k @ [CHR 0x27] @ '')''))"
| "property k (Some JNull) = Inl (JsError (''Cannot read properties of null (reading '' @ [CHR 0x27] @ k @ [CHR 0x27] @ '')''))"
| "property k (Some (JObj kvs)) = Inr (map_of kvs k)"
| "property k (Some j) = Inr None"

subsection \<open>The three parts\<close>

definition database_check :: "('d, 'r) platform \<Rightarrow> string \<Rightarrow> env \<Rightarrow> (('d, 'r) terminal, unit) io" where
  "database_check P filename env =
     andThen (print_all [''Database initialized: '' @ js_string (Some (JBool (isInitialized P))),
       ''Connected to host: '' @ ds_host (typeOrmConfig filename env)]) (\<lambda>_.
     andThen (service (on_db (getTables P [''transactions'', ''audit_log'', ''gateway_stats'']))) (\<lambda>n.
     andThen (print (Log (''Verified tables count: '' @ decimal n @ '' (Expected 3)''))) (\<lambda>_.
     service (on_db (releaseRunner P)))))"

definition direct_request :: "string \<Rightarrow> string \<Rightarrow> charge_request" where
  "direct_request u1 u2 =
     \<lparr>req_transactionId = u2, req_amount = 505, req_currency = ''usd'', req_idempotencyKey = ''direct-stripe-test-'' @ u1\<rparr>"

definition send_direct :: "world \<Rightarrow> charge_request \<Rightarrow> (('d, 'r) node, charge_response) io" where
  "send_direct w r = (\<lambda>s. (Inr (snd (StripeAdapter_charge w r)), s\<lparr>charges := charges s @ [(STRIPE, r)]\<rparr>))"

definition direct_charge :: "world \<Rightarrow> string \<Rightarrow> string \<Rightarrow> (('d, 'r) terminal, unit) io" where
  "direct_charge w u1 u2 =
     andThen (print (Log ''Sending direct charge of $5.05 to real Stripe API...'')) (\<lambda>_.
     andThen (service (send_direct w (direct_request u1 u2))) (\<lambda>r.
     andThen (print (heading ''Stripe Direct Charge Result:'')) (\<lambda>_.
     print_all (['' - Success: '' @ js_string (Some (JBool (success r))),
       '' - Gateway Txn ID: '' @ js_string (resp_gatewayTxnId r),
       '' - Latency: '' @ int_text (latencyMs r) @ ''ms''] @
       (if \<not> success r then ['' - Error: '' @ js_string (error r)] else [])))))"

definition flow_dto :: "string \<Rightarrow> create_dto" where
  "flow_dto u3 = \<lparr>dto_idempotencyKey = Some (''txn-flow-test-'' @ u3), dto_merchantId = ''merchant-test-1'',
     dto_amount = 5505, dto_currency = ''USD''\<rparr>"

definition log_line :: "audit_log \<Rightarrow> string" where
  "log_line l = '' - Transition: '' @ (case fromState l of None \<Rightarrow> ''null'' | Some a \<Rightarrow> state_name a) @
     '' -> '' @ state_name (toState l) @
     '' (Gateway: '' @ (case auditGateway l of None \<Rightarrow> ''null'' | Some g \<Rightarrow> gateway_name g) @
     '', Reason: '' @ (case reason l of None \<Rightarrow> ''null'' | Some r \<Rightarrow> r) @ '')''"

definition print_property :: "string \<Rightarrow> string \<Rightarrow> json option \<Rightarrow> (('d, 'r) terminal, json option) io" where
  "print_property label k j = andThen (from_result (property k j)) (\<lambda>v.
     andThen (print (Log (label @ js_string v))) (\<lambda>_. ret v))"

definition history_of :: "('d, 'r) platform \<Rightarrow> 'd orm \<Rightarrow> json option \<Rightarrow> (('d, 'r) node, audit_log list) io" where
  "history_of P D i = (case i of Some (JStr s) \<Rightarrow> history D s | _ \<Rightarrow> on_db (findAuditBy P i))"

definition payment_flow ::
  "('d, 'r) platform \<Rightarrow> world \<Rightarrow> 'd orm \<Rightarrow> 'r redis_client \<Rightarrow> string \<Rightarrow> (('d, 'r) terminal, unit) io" where
  "payment_flow P w D C u3 =
     andThen (print (Log ''Creating payment transaction for amount $15.50 via routing engine...'')) (\<lambda>_.
     andThen (service (create w D C (''txn-flow-test-'' @ u3) (flow_dto u3))) (\<lambda>x.
     let t = response_body x in
     andThen (print (heading ''Transaction successfully completed:'')) (\<lambda>_.
     andThen (print_property ''ID: '' ''id'' t) (\<lambda>i.
     andThen (print_property ''Selected Gateway: '' ''selectedGateway'' t) (\<lambda>_.
     andThen (print_property ''State: '' ''currentState'' t) (\<lambda>_.
     andThen (print_property ''Gateway Txn ID: '' ''gatewayTxnId'' t) (\<lambda>_.
     andThen (print (heading ''Audit Logs saved to database:'')) (\<lambda>_.
     andThen (service (history_of P D i)) (\<lambda>logs. print_all (map log_line logs))))))))))"

subsection \<open>The script\<close>

text \<open>
  \<open>run\<close> with the status it exits with: what follows the check of the database, whose \<open>catch\<close>
  blocks only print, and the whole.
\<close>

definition run_payments ::
  "('d, 'r) platform \<Rightarrow> world \<Rightarrow> 'd orm \<Rightarrow> 'r redis_client \<Rightarrow> string \<Rightarrow> string \<Rightarrow> string \<Rightarrow> (('d, 'r) terminal, nat) io" where
  "run_payments P w D C u1 u2 u3 =
     andThen (print (heading ''--- 2. Testing Stripe Integration (Direct API Call) ---'')) (\<lambda>_.
     andThen (catching (direct_charge w u1 u2) (\<lambda>e.
       print (Failure ''Direct Stripe charge attempt failed:'' (err_message e)))) (\<lambda>_.
     andThen (print (heading ''--- 3. Testing Full Transaction Orchestration Flow ---'')) (\<lambda>_.
     andThen (catching (payment_flow P w D C u3) (\<lambda>e.
       print (Failure ''Transaction flow execution failed:'' (err_message e)))) (\<lambda>_.
     andThen (service (shut P)) (\<lambda>_.
     andThen (print (heading ''Testing session completed.'')) (\<lambda>_. ret 0))))))"

definition run_script ::
  "('d, 'r) platform \<Rightarrow> string \<Rightarrow> world \<Rightarrow> 'd orm \<Rightarrow> 'r redis_client \<Rightarrow> string \<Rightarrow> string \<Rightarrow> string \<Rightarrow> (('d, 'r) terminal, nat) io" where
  "run_script P filename w D C u1 u2 u3 =
     andThen (print (Log ''Initializing test application context...'')) (\<lambda>_.
     andThen (service (boot P)) (\<lambda>_.
     andThen (print (heading ''--- 1. Testing Database Connection ---'')) (\<lambda>_.
     andThen (catching (andThen (database_check P filename (getenv w)) (\<lambda>_. ret None)) (\<lambda>e.
       andThen (print (Failure ''Database connection failed:'' (err_message e))) (\<lambda>_.
       andThen (service (shut P)) (\<lambda>_. ret (Some 1))))) (\<lambda>exited. case exited of
       Some code \<Rightarrow> ret code
     | None \<Rightarrow> run_payments P w D C u1 u2 u3))))"

definition script ::
  "('d, 'r) platform \<Rightarrow> string \<Rightarrow> world \<Rightarrow> 'd orm \<Rightarrow> 'r redis_client \<Rightarrow> string \<Rightarrow> string \<Rightarrow> string \<Rightarrow> (('d, 'r) terminal, nat) io" where
  "script P filename w D C u1 u2 u3 =
     catching (run_script P filename w D C u1 u2 u3) (\<lambda>e.
       andThen (print (Unhandled ''Unhandled error during test:'' e)) (\<lambda>_. ret 1))"

subsection \<open>What its exit status says\<close>

lemma service_apply [simp]: "service m (s, out) = (fst (m s), snd (m s), out)"
  by (simp add: service_def split: prod.split)

lemma print_apply [simp]: "print l (s, out) = (Inr (), s, out @ [l])"
  by (simp add: print_def)

lemma print_all_apply [simp]: "print_all ls (s, out) = (Inr (), s, out @ map Log ls)"
  by (induction ls arbitrary: out) (simp_all add: andThen_Inr)

lemma script_cases:
  obtains (exit) code t' where "run_script P f w D C u1 u2 u3 t = (Inr code, t')" "script P f w D C u1 u2 u3 t = (Inr code, t')"
  | (unhandled) e t' where "run_script P f w D C u1 u2 u3 t = (Inl e, t')" "\<exists>t''. script P f w D C u1 u2 u3 t = (Inr 1, t'')"
proof -
  obtain r t' where run: "run_script P f w D C u1 u2 u3 t = (r, t')" by (meson surj_pair)
  with that show thesis by (cases r; cases t') (auto simp: script_def catching_def andThen_def)
qed

lemma hoare_any: "hoare P m (\<lambda>_ _. True) (\<lambda>_ _. True)"
  by (rule hoareI) simp_all

text \<open>The process always ends, with status 0 or 1.\<close>

lemma run_payments_exit: "hoare (\<lambda>_. True) (run_payments P w D C u1 u2 u3) (\<lambda>code _. code = 0) (\<lambda>_ _. True)"
  unfolding run_payments_def
  by (intro hoare_andThen [OF _ hoare_any] hoare_pre [OF hoare_ret]) simp

lemma run_script_exit: "hoare (\<lambda>_. True) (run_script P f w D C u1 u2 u3) (\<lambda>code _. code \<in> {0, 1}) (\<lambda>_ _. True)"
proof -
  have parts: "hoare (\<lambda>_. True) (run_payments P w D C u1 u2 u3) (\<lambda>code _. code \<in> {0, 1}) (\<lambda>_ _. True)"
    by (rule hoare_conseq [OF run_payments_exit]) auto
  have failed: "hoare (\<lambda>_. True) (andThen (print l) (\<lambda>_. andThen (service (shut P)) (\<lambda>_. ret (Some 1))))
      (\<lambda>x _. x \<in> {None, Some (1 :: nat)}) (\<lambda>_ _. True)" for l
    by (intro hoare_andThen [OF _ hoare_any] hoare_pre [OF hoare_ret]) simp
  have ok: "hoare (\<lambda>_. True) (andThen (database_check P f (getenv w)) (\<lambda>_. ret None))
      (\<lambda>x _. x \<in> {None, Some (1 :: nat)}) (\<lambda>_ _. True)"
    by (intro hoare_andThen [OF _ hoare_any] hoare_pre [OF hoare_ret]) simp
  have exits: "hoare (\<lambda>_. x \<in> {None, Some 1}) (case x of Some code \<Rightarrow> ret code | None \<Rightarrow> run_payments P w D C u1 u2 u3)
      (\<lambda>code _. code \<in> {0, 1}) (\<lambda>_ _. True)" for x
    using hoare_pre [OF parts] by (cases x) (auto simp: hoare_def)
  show ?thesis unfolding run_script_def
    by (rule hoare_andThen [OF hoare_andThen [OF hoare_andThen [OF hoare_andThen [OF exits hoare_catching [OF failed ok]]
          hoare_any] hoare_any] hoare_any])
qed

lemma script_exits: "\<exists>code \<in> {0, 1}. \<exists>t'. script P f w D C u1 u2 u3 t = (Inr code, t')"
proof (cases rule: script_cases [of P f w D C u1 u2 u3 t])
  case exit
  with hoare_InrD [OF run_script_exit] show ?thesis by blast
qed blast

text \<open>A payment that fails does not show in the status: only the database and the shutdown count.\<close>

lemma catching_print: "\<exists>t'. catching m (\<lambda>e. print (h e)) t = (Inr (), t')"
  by (cases "m t"; cases "fst (m t)") (auto simp: catching_def print_def)

lemma run_payments_succeeds:
  assumes "\<And>s. \<exists>s'. shut P s = (Inr (), s')"
  shows "\<exists>t'. run_payments P w D C u1 u2 u3 t = (Inr 0, t')"
proof -
  have print: "\<exists>t'. print l t = (Inr (), t')" for l and t :: "('a, 'b) terminal" by (cases t) simp
  have shut: "\<exists>t'. service (shut P) t = (Inr (), t')" for t using assms [of "fst t"] by (cases t) auto
  have step: "(\<And>t. \<exists>t'. f () t = (Inr 0, t')) \<Longrightarrow> (\<And>t. \<exists>t'. m t = (Inr (), t')) \<Longrightarrow> \<exists>t'. andThen m f t = (Inr (0 :: nat), t')"
    for m and f :: "unit \<Rightarrow> (('a, 'b) terminal, nat) io" and t
    using andThen_Inr by metis
  show ?thesis unfolding run_payments_def by (intro step print catching_print shut) simp
qed

lemma script_ignores_payment:
  assumes "boot P s = (Inr (), s1)" "\<And>out. \<exists>t'. database_check P f (getenv w) (s1, out) = (Inr (), t')"
    and "\<And>s. \<exists>s'. shut P s = (Inr (), s')"
  shows "\<exists>t'. script P f w D C u1 u2 u3 (s, out) = (Inr 0, t')"
proof -
  from assms(2) obtain t1 where check: "database_check P f (getenv w) (s1, out @ [Log ''Initializing test application context...'',
      heading ''--- 1. Testing Database Connection ---'']) = (Inr (), t1)" by blast
  from run_payments_succeeds [OF assms(3)] obtain t2 where "run_payments P w D C u1 u2 u3 t1 = (Inr 0, t2)" by blast
  then have "run_script P f w D C u1 u2 u3 (s, out) = (Inr 0, t2)"
    by (simp add: run_script_def andThen_Inr assms(1) check catching_Inr)
  then show ?thesis by (simp add: script_def catching_Inr)
qed

text \<open>Nothing is charged when the tables are not found.\<close>

lemma database_check_charges: "keeps (\<lambda>t. charges (fst t) = c) (database_check P f env)"
  unfolding database_check_def
  by (rule keepsI) (auto simp: andThen_def on_db_def split: prod.splits sum.splits)

lemma refused_charges_nothing:
  assumes "boot P s = (Inr (), s1)" "charges s1 = charges s" "keeps (\<lambda>s. charges s = c) (shut P)" "charges s = c"
    and "\<And>out. \<exists>e t'. database_check P f (getenv w) (s1, out) = (Inl e, t')"
  shows "\<exists>s' out'. script P f w D C u1 u2 u3 (s, out) = (Inr 1, s', out') \<and> charges s' = c"
proof -
  let ?out = "out @ [Log ''Initializing test application context...'', heading ''--- 1. Testing Database Connection ---'']"
  from assms(5) obtain e s2 o2 where check: "database_check P f (getenv w) (s1, ?out) = (Inl e, s2, o2)" by (metis surj_pair)
  have "charges (fst (s1, ?out)) = c" using assms(2,4) by simp
  from keepsD [OF database_check_charges this check] have c2: "charges s2 = c" by simp
  obtain r s3 where shut: "shut P s2 = (r, s3)" by (meson surj_pair)
  from keepsD [OF assms(3) c2 shut] have c3: "charges s3 = c" .
  show ?thesis
  proof (cases r)
    case (Inl e')
    then obtain o3 where "run_script P f w D C u1 u2 u3 (s, out) = (Inl e', s3, o3)"
      using shut by (simp add: run_script_def andThen_Inr andThen_Inl assms(1) check catching_Inl)
    with c3 show ?thesis by (simp add: script_def catching_Inl andThen_Inr)
  next
    case (Inr u)
    then obtain o3 where "run_script P f w D C u1 u2 u3 (s, out) = (Inr 1, s3, o3)"
      using shut by (simp add: run_script_def andThen_Inr andThen_Inl assms(1) check catching_Inl)
    with c3 show ?thesis by (simp add: script_def catching_Inr)
  qed
qed

end
