(* ===== verification/Spec2Isabelle.thy ===== *)
theory Spec2Isabelle
  imports Sandbox Script
begin

section \<open>The payment orchestration layer\<close>

text \<open>
  \<^bold>\<open>The program.\<close> A NestJS service takes payment requests, charges them through one of four
  gateways with failover, and reconciles them from the gateways' webhooks. A request
  (\<open>transactions.controller.ts\<close>, \<open>transactions.service.ts\<close>) takes a lock on its idempotency key
  in Redis (\<open>redis.service.ts\<close>), asks the routing engine (\<open>routing-engine.service.ts\<close>) for the
  ranked gateways, inserts a row, and calls one gateway adapter after the other
  (\<open>gateways/adapters\<close>), each call against a timeout, until one accepts. Every change of state
  goes through the state machine (\<open>state-machine.service.ts\<close>), which checks the allow-list under
  a row lock and writes an audit entry. A webhook (\<open>webhooks.controller.ts\<close>,
  \<open>webhooks.service.ts\<close>) is verified, stored once per gateway and event id, and its record id is
  pushed on a queue in Redis (\<open>reconciliation-queue.service.ts\<close>); a worker
  (\<open>reconciliation-worker.service.ts\<close>) pops the ids and drives the payments to
  \<open>RECONCILED\<close>. When Redis fails, its service answers from a map in memory.

  \<^bold>\<open>How the code is modelled.\<close> An \<open>async\<close> method is a function of the state that returns or
  throws: \<open>'s \<Rightarrow> (exn + 'a) \<times> 's\<close>, sequenced by \<open>andThen\<close> (every \<open>await\<close>), \<open>catching\<close>
  (\<open>try\<close>/\<open>catch\<close>) and \<open>throw\<close>. The state of the process is the record \<open>node\<close>: the database
  behind TypeORM, the state of the Redis service, and the list of charges the gateways have been
  sent. TypeORM, ioredis, \<open>fetch\<close>, the timers, digests and uuids are not part of the repository:
  the database is a record of calls \<open>'d orm\<close>, the Redis client a record \<open>'r redis_client\<close>, the
  rest the record \<open>world\<close>. What is relied on of them is stated as locales: \<open>database\<close> (what each
  call does to the contents of the tables, and that any call may fail with a
  \<open>QueryFailedError\<close> that changes nothing) and \<open>redis_server\<close> (values, \<open>NX\<close>, lists). Both are
  interpreted on executable models, the schema of the migration and an in-memory server, and
  every property that assumes them has a witness there.

  \<^bold>\<open>The theories\<close>, in their order:
  \<^item> \<open>Prelude\<close>: exceptions, the monad with its Hoare triples (\<open>hoare\<close>, \<open>keeps\<close>), strings,
    decimal texts, JavaScript's stable sort.
  \<^item> \<open>Enums\<close>: \<open>transaction-state.enum.ts\<close>, the allow-list, its reachability and terminal states.
  \<^item> \<open>Json\<close>: JSON values, \<open>JSON.stringify\<close>, \<open>JSON.parse\<close> and their round trip; the parser takes
    fuel, twice the length of the text and one more, which the round trip shows to be enough.
  \<^item> \<open>Database\<close>: the entities as records, the calls of TypeORM, the locale \<open>database\<close>.
  \<^item> \<open>Schema\<close>: the tables, unique indexes and seeds of \<open>InitSchema\<close> as an executable database.
  \<^item> \<open>Migration\<close>: \<open>up\<close> and \<open>down\<close> of \<open>InitSchema\<close> statement by statement on a catalog of types,
    tables, indexes and rows; what a migration does next to other tables, and that it is undone.
  \<^item> \<open>StateMachine\<close>: \<open>StateMachineService.transition\<close>, its guard, its atomicity, the trail.
  \<^item> \<open>RedisService\<close>: every method of \<open>redis.service.ts\<close> with the fallback and the stub client;
    the interface \<open>kv_service\<close>, the queue, the exclusiveness of the lock.
  \<^item> \<open>Services\<close>: the state \<open>node\<close>, environment variables, the types of the adapter interface.
  \<^item> \<open>JsNumber\<close>: IEEE doubles as rationals rounded to 53 bits, \<open>Math.round\<close>, the locale
    \<open>js_rounding\<close> with the laws the formulas need.
  \<^item> \<open>RoutingEngine\<close>: scores, circuit breaker, ranking, \<open>recordSuccess\<close>, \<open>recordFailure\<close>.
  \<^item> \<open>Adapters\<close>: the four adapters: mock modes, requests, and the handling of every response.
  \<^item> \<open>Transactions\<close>: \<open>TransactionsService\<close> and its controller; the invariant that ties the audit
    trail, the attempt counters and the charges together.
  \<^item> \<open>Failover\<close>, \<open>Idempotency\<close>: what the failover loop and \<open>create\<close> do from start to end.
  \<^item> \<open>Webhooks\<close>: the endpoints, the signature checks, \<open>ingest\<close>.
  \<^item> \<open>Reconciliation\<close>, \<open>Settlement\<close>: \<open>ReconciliationWorkerService\<close>, and what an event does to
    its payment.
  \<^item> \<open>Ledger\<close>, \<open>Refinement\<close>: the abstract ledger, a step relation on the tables; what every run of
    steps keeps (nothing is lost, keys stay unique, a payment settles once, events stay known);
    and that every method only makes its steps.
  \<^item> \<open>Liveness\<close>: with a healthy database the worker empties its queue and processes every event.
  \<^item> \<open>Lifecycle\<close>: \<open>onModuleInit\<close>, \<open>onModuleDestroy\<close> and the loop of the worker as a step
    relation between the hooks, the loop and arriving requests.
  \<^item> \<open>Concurrency\<close>: the service among others, see below.
  \<^item> \<open>Gateways\<close>: \<open>gateways.controller.ts\<close> and the mock mode of the adapters.
  \<^item> \<open>Config\<close>: \<open>typeorm.config.ts\<close> with \<open>Number\<close> of a string, \<open>main.ts\<close> with its body parsers,
    the address of Redis, the health check.
  \<^item> \<open>Wiring\<close>: the modules and constructors: everything injected is provided, every service has
    one instance, and the instances can be built in an order.
  \<^item> \<open>Validation\<close>: the decorators of \<open>create-transaction.dto.ts\<close>, the \<open>ValidationPipe\<close> in front of
    \<open>POST /payments\<close>, and which bodies reach the handler as which values.
  \<^item> \<open>Script\<close>: \<open>test-stripe-db.ts\<close>, what it prints and charges and which status it exits with.
  \<^item> \<open>Sandbox\<close>: concrete runs for the witnesses. This theory: the properties.

  \<^bold>\<open>The interfaces.\<close> \<open>database\<close> and \<open>redis_server\<close> are extended to \<open>backend\<close>, in which the
  services are verified. \<open>shared_database\<close> says less: the tables make some steps of the ledger
  during a call, an insert of a payment took place at a moment when its key was free, and what
  was read was there at some moment. A \<open>database\<close> is one (\<open>sublocale\<close>), and so is a database
  that others use at the same time: in \<open>interference\<close>, before every call (and never inside a
  database transaction, which the row lock of the state machine guards) others take any steps
  of the ledger. That is what the service itself is shown to do, so the assumption about the
  others is the guarantee about the service. The refinement of the ledger, the safety of
  payments and the promise of one payment per key are proved under interference; what a
  single request or event computes is proved for a process that has the database for itself.

  \<^bold>\<open>The properties.\<close> C1 to C9 are about requests: the outcome of a new key, replays, conflicts,
  races, and the books of charges and attempts. C10 to C13 are about the ledger: refinement, nothing
  is lost, payments settle once, tables stay consistent. C14 to C16 are about the state machine, C17 to
  C27 about webhooks, the queue and the worker, C28 to C33 about routing, the circuit breaker
  and the lock, C34 to C38 about adapters, bodies, cached answers and amounts, C39 and C40 about
  the migration and the schema.

  \<^bold>\<open>Bounds and idealisations.\<close> Amounts and counters are naturals; where the code computes with
  them in doubles the statements bound them by \<open>2 ^ 52\<close> or less. Doubles have an unbounded
  exponent in the formulas, whose values stay far from both ends, and the true range in
  \<open>Number\<close> of a string. \<open>pollQueue n\<close> is the loop for \<open>n\<close> iterations, which \<open>Lifecycle\<close> relates
  to the loop that tests its flag. Time is an argument: a timeout compares the times the
  adapters report, and no Redis key expires during the call a statement is about.
  \<open>Promise.all\<close> runs its promises in order. Characters are bytes. Every handler terminates: the
  failover loop by recursion on the list of gateways, the parser by its fuel.

  \<^bold>\<open>Not modelled.\<close> What the services log. What class-validator does with a decorator is the
  parameter of \<open>documented_validator\<close>, which states its documentation. The limits of column
  types (\<open>varchar(n)\<close>, \<open>int\<close>, \<open>bigint\<close>). The order in which NestJS runs the hooks of different
  modules, and what Express does beyond the parsers. The unit tests (\<open>*.spec.ts\<close>).
\<close>

subsection \<open>The properties\<close>

text \<open>
  C1: A request with an unused key either makes the whole payment or fails without keeping the key. If it
  returns, a fresh row went through the ranked gateways: it is SUCCESS with the gateway and gateway id of the
  first acceptance, or FAILED when every gateway declined; the audit trail has exactly the entries of the
  attempts; the gateways up to the first acceptance were charged once each, with the key of the attempt; and the
  answer is cached. If it throws, the database failed or no gateway is configured, and the idempotency key is
  free again.
\<close>

theorem create_makes_payment:
  assumes "backend D tabs C kv ls"
    and "create w D C key dto s = (r, s')"
    and "txn_by_key (tabs (db s)) key = None"
    and "cached_text kv key s = None" "mockStore (redis s) (redis_key key) = None"
  shows "case r of
      Inl e \<Rightarrow> (db_failure e \<or> e = no_gateways) \<and> cached_text kv key s' = None
    | Inr x \<Rightarrow> \<exists>gs. rankable (getenv w) (stats (tabs (db s))) (dto_amount dto) gs \<and> gs \<noteq> [] \<and>
        paid tabs kv w key dto gs (rows (tabs (db s))) (logs (tabs (db s))) (charges s) x s'"
  by (rule backend.create_new [OF assms])

theorem create_makes_payment_witness:
  "\<exists>gs. rankable (getenv test_world) (stats (contents (db sandbox))) 10099 gs \<and> gs \<noteq> [] \<and>
     paid contents mem_kv test_world ''k1'' demo_dto gs (rows (contents (db sandbox))) (logs (contents (db sandbox)))
       [] (Entity demo_row) after_create"
  using create_makes_payment [OF local.backend_axioms demo_create_run sandbox_free(1,2,3)]
  by (simp add: sandbox_free demo_dto_def)

text \<open>
  C2: A request repeated with the same key, whatever its body and the environment, after a first one that
  returned, is answered with the body of the first answer (from the database or from the cached text); the
  tables are untouched and no gateway is charged again.
\<close>

theorem repeated_request_same_body:
  assumes "backend D tabs C kv ls"
    and "create w D C key dto s = (Inr x, s1)" "create w' D C key dto' s1 = (Inr y, s2)"
    and "books tabs s" "txn_by_key (tabs (db s)) key = None"
    and "cached_text kv key s = None" "mockStore (redis s) (redis_key key) = None"
  shows "response_body y = response_body x \<and> tabs (db s2) = tabs (db s1) \<and> charges s2 = charges s1"
  by (rule backend.create_idempotent [OF assms])

theorem repeated_request_same_body_witness:
  "\<exists>y s2. create test_world schema_orm mem_client ''k1'' demo_dto after_create = (Inr y, s2) \<and>
     response_body y = Some (txn_json demo_row) \<and> charges s2 = charges after_create"
proof -
  obtain y s2 where again: "create test_world schema_orm mem_client ''k1'' demo_dto after_create = (Inr y, s2)"
    using demo_again by blast
  with repeated_request_same_body [OF local.backend_axioms demo_create_run again sandbox_books sandbox_free(1,2,3)]
  show ?thesis by auto
qed

text \<open>
  C3: Once a key has a payment, a request for it never charges a gateway and never writes to the database,
  however it ends, in whatever state Redis is (the cached answer expired or lost, a fallback to the in-memory
  store, a failing database); if it answers from the database, it answers with that payment.
\<close>

theorem replay_charges_nothing:
  assumes "backend D tabs C kv ls"
    and "create w D C key dto s = (r, s')" and "txn_by_key (tabs (db s)) key = Some t"
  shows "tabs (db s') = tabs (db s) \<and> charges s' = charges s \<and> (\<forall>t'. r = Inr (Entity t') \<longrightarrow> t' = t)"
  by (rule backend.create_replay [OF assms])

theorem replay_charges_nothing_witness:
  "charges (snd (create test_world schema_orm mem_client ''k1'' demo_dto after_create)) = charges after_create"
  using replay_charges_nothing [OF local.backend_axioms surjective_pairing after_create_by_key] by blast

text \<open>
  C4: While the lock of a key is held by a request that is still processing, another request for the key is
  refused with a ConflictException; it changes neither the tables nor the charges nor the lock.
\<close>

theorem concurrent_request_conflicts:
  assumes "backend D tabs C kv ls"
    and "create w D C key dto s = (r, s')"
    and "cached_text kv key s = Some (JSON_stringify processing_json)"
    and "isMockMode (redis s') = isMockMode (redis s)"
  shows "r = Inl still_processing \<and> tabs (db s') = tabs (db s) \<and> charges s' = charges s \<and>
    cached_text kv key s' = cached_text kv key s"
  by (rule backend.create_conflict [OF assms])

theorem concurrent_request_conflicts_witness:
  "fst (create test_world schema_orm mem_client ''k1'' demo_dto locked_node) = Inl still_processing"
  using concurrent_request_conflicts [OF local.backend_axioms surjective_pairing locked_cached locked_mode]
  by blast






text \<open>
  C8: The books balance: every request keeps, also when it fails half-way, that the tables are well kept, that
  a payment's attempt counter is the number of its PROCESSING entries, and that those entries name, in order,
  exactly the gateways that were sent a charge for it. No gateway is charged that the audit log does not know
  of.
\<close>

theorem charges_match_audit:
  assumes "backend D tabs C kv ls"
    and "books tabs s" and "create w D C key dto s = (r, s')"
  shows "books tabs s'"
  by (rule keepsD [OF backend.keeps_books_create [OF assms(1)] assms(2,3)])

theorem charges_match_audit_witness: "books contents after_create \<and> map fst (charges after_create) = [UPI, PAYU]"
  using charges_match_audit [OF local.backend_axioms sandbox_books demo_create_run] after_create_facts(3) by simp

text \<open>
  C9: A new payment charges at least one and at most four gateways, none of them twice, only configured ones,
  and goes on to the next only after the one before has declined.
\<close>

theorem attempts_bounded:
  assumes "backend D tabs C kv ls"
    and "create w D C key dto s = (Inr x, s')" "txn_by_key (tabs (db s)) key = None"
    and "cached_text kv key s = None" "mockStore (redis s) (redis_key key) = None"
    and "distinct (map gateway (stats (tabs (db s))))"
  shows "\<exists>gs i. charges s' = charges s @ sent key dto i gs \<and> gs \<noteq> [] \<and> distinct gs \<and> length gs \<le> 4 \<and>
    (\<forall>g \<in> set gs. getenv w ''NODE_ENV'' = Some ''test'' \<or> isGatewayConfigured (getenv w) g) \<and>
    (\<forall>g \<in> set (butlast gs). \<not> success (answers w key dto i g))"
  by (rule backend.create_attempts [OF assms])

theorem attempts_bounded_witness:
  "\<exists>gs i. charges after_create = sent ''k1'' demo_dto i gs \<and> gs = [UPI, PAYU] \<and>
     \<not> success (answers test_world ''k1'' demo_dto i UPI)"
proof -
  from attempts_bounded [OF local.backend_axioms demo_create_run sandbox_free(1,2,3,6)] sandbox_free(5)
  obtain gs i where gs: "charges after_create = sent ''k1'' demo_dto i gs"
    "\<forall>g \<in> set (butlast gs). \<not> success (answers test_world ''k1'' demo_dto i g)" by auto
  have "gs = map fst (charges after_create)" by (simp add: gs(1) sent_def comp_def)
  with gs after_create_facts(3) show ?thesis by auto
qed

text \<open>
  C10: Whatever the service does, in any sequence of payment requests, webhook calls and worker iterations, wherever
  one of them fails and whatever other processes do to the database before any of its calls, the database has
  only made steps of the abstract ledger: legal transitions with their audit entry, inserts of new payments with
  a fresh key, creation entries, statistics, new events with an unused key, and marks on processed events. What
  is assumed of the others is that they too only make such steps, which is what is proved of the service.
\<close>

theorem service_refines_ledger:
  assumes "interference D tabs step" and "(serves (shared_orm step D) C)\<^sup>*\<^sup>* s s'"
  shows "ledger_run (tabs (inner (db s))) (tabs (inner (db s')))"
  by (rule interference.serves_among_others [OF assms])

theorem service_refines_ledger_witness:
  "ledger_run (contents (inner (db twin_node))) (contents (inner (db (snd twin_run)))) \<and>
   map currentState (transactions (contents (inner (db (snd twin_run))))) = [RECONCILED]"
  using service_refines_ledger [OF busy.interference_axioms twin_serves] twin_run_facts by (simp add: case_prod_unfold)

text \<open>
  C11: A payment is never lost: after any sequence of requests, webhooks and worker iterations, whatever others do in
  between, its row is still there with the same key, merchant, amount and currency; its state has moved along
  the allow-list and its attempt counter has not decreased; a row that was FAILED or RECONCILED is untouched, and
  one that was SUCCESS is SUCCESS or RECONCILED. Audit entries are only appended.
\<close>

theorem payments_only_evolve:
  assumes "interference D tabs step" and "(serves (shared_orm step D) C)\<^sup>*\<^sup>* s s'"
    and "txn_by_id (tabs (inner (db s))) i = Some t"
  shows "\<exists>t'. txn_by_id (tabs (inner (db s'))) i = Some t' \<and> evolved t t' \<and>
    (currentState t = SUCCESS \<longrightarrow> currentState t' \<in> {SUCCESS, RECONCILED}) \<and>
    prefix (audit (tabs (inner (db s)))) (audit (tabs (inner (db s'))))"
proof -
  from ledger_run_le [OF interference.serves_among_others [OF assms(1,2)]] assms(3)
  obtain t' where t': "txn_by_id (tabs (inner (db s'))) i = Some t'" "evolved t t'"
    and p: "prefix (audit (tabs (inner (db s)))) (audit (tabs (inner (db s'))))" by (auto simp: ledger_le_def)
  then have "lifecycle (currentState t) (currentState t')" by (simp add: evolved_def)
  with t' p show ?thesis using lifecycle_from_SUCCESS by blast
qed

theorem payments_only_evolve_witness:
  "\<exists>t'. txn_by_id (contents (inner (db (snd twin_run)))) ''u'' = Some t' \<and> evolved demo_row t' \<and>
     currentState t' \<in> {SUCCESS, RECONCILED}"
proof -
  have st: "currentState demo_row = SUCCESS" by (simp add: demo_row_def)
  from payments_only_evolve [OF busy.interference_axioms twin_serves twin_start(3)] st show ?thesis by blast
qed

text \<open>
  C12: No payment is settled twice, however many workers, webhooks and requests race for it: its audit trail records
  SUCCESS, FAILED and RECONCILED exactly once if the row has come that far and not at all otherwise. Two workers
  that process the same event at the same time therefore reconcile its payment once.
\<close>

theorem payment_settles_once:
  assumes "interference D tabs step" and "(serves (shared_orm step D) C)\<^sup>*\<^sup>* s s'"
    and "settled_once (tabs (inner (db s)))"
  shows "settled_once (tabs (inner (db s')))"
  by (rule ledger_run_settled [OF interference.serves_among_others [OF assms(1,2)] assms(3)])

theorem payment_settles_once_witness:
  "visits (trail (contents (inner (db (snd twin_run)))) ''u'') RECONCILED = 1 \<and>
   visits (trail (contents (inner (db (snd twin_run)))) ''u'') SUCCESS = 1"
proof -
  let ?T = "contents (inner (db (snd twin_run)))"
  have "settled_once ?T" by (rule payment_settles_once [OF busy.interference_axioms twin_serves twin_start(2)])
  moreover obtain t where "txn_by_id ?T ''u'' = Some t" "currentState t = RECONCILED"
    using row_later [OF busy.serves_among_others [OF twin_serves] twin_start(3)] twin_run_facts
    by (force simp: case_prod_unfold dest: txn_by_id_in)
  ultimately have "trail_settles (trail ?T ''u'') RECONCILED" by (metis settled_once_def)
  then show ?thesis by (simp add: trail_settles_def)
qed

text \<open>
  C13: The service keeps the tables consistent, whatever others do in between: unique transaction ids and idempotency
  keys, unique events per gateway, attempt counters equal to the number of PROCESSING entries, and a
  reconciliation time exactly on the RECONCILED rows.
\<close>

theorem service_keeps_tables_sound:
  assumes "interference D tabs step" and "(serves (shared_orm step D) C)\<^sup>*\<^sup>* s s'"
    and "sound_ledger (tabs (inner (db s)))"
  shows "sound_ledger (tabs (inner (db s')))"
  by (rule ledger_run_sound [OF interference.serves_among_others [OF assms(1,2)] assms(3)])

theorem service_keeps_tables_sound_witness: "sound_ledger (contents (inner (db (snd twin_run))))"
  by (rule service_keeps_tables_sound [OF busy.interference_axioms twin_serves twin_start(1)])



text \<open>
  C15: A transition that throws leaves every table as it was: on a database failure, and with the exception the
  code names when the transaction does not exist or the allow-list has no such edge; and such a call never
  succeeds.
\<close>

theorem transition_refused_atomically:
  assumes "database D tabs" and "transition D c i s m d = (r, d')"
  shows "case r of
      Inl e \<Rightarrow> tabs d' = tabs d \<and> (db_failure e \<or> transition_refusal (tabs d) i s = Some e)
    | Inr t' \<Rightarrow> transition_refusal (tabs d) i s = None"
proof (cases r)
  case (Inl e)
  with database.transition_fails [OF assms(1)] assms(2) show ?thesis by auto
next
  case (Inr t')
  with database.transition_transitions [OF assms(1)] assms(2) show ?thesis
    by (fastforce simp: transitioned_def transition_refusal_def)
qed

theorem transition_refused_atomically_witness:
  "(case transition schema_orm now ''u'' FAILED no_metadata one_row of (r, d') \<Rightarrow>
      r = Inl (invalid_transition SUCCESS FAILED) \<and> contents d' = contents one_row)"
proof -
  have "fst (transition schema_orm now ''u'' FAILED no_metadata one_row) = Inl (invalid_transition SUCCESS FAILED)"
    by code_simp
  then obtain d' where "transition schema_orm now ''u'' FAILED no_metadata one_row = (Inl (invalid_transition SUCCESS FAILED), d')"
    by (metis prod.collapse)
  with transition_refused_atomically [OF schema.database_axioms this] show ?thesis by simp
qed

text \<open>
  C16: A transition keeps the invariant of the transactions and audit tables: ids and keys are unique, the entries
  of every payment form a path of legal steps from its creation to its current state, and the reconciliation
  time is set exactly on RECONCILED rows.
\<close>

theorem transition_keeps_trail:
  assumes "database D tabs" and "well_kept (tabs d)" and "transition D c i s m d = (r, d')"
  shows "well_kept (tabs d')"
proof (cases r)
  case (Inl e)
  with assms database.transition_fails [OF assms(1)] show ?thesis by metis
next
  case (Inr t')
  with assms database.transition_transitions [OF assms(1)] show ?thesis by (metis transitioned_well_kept)
qed

theorem transition_keeps_trail_witness:
  "well_kept (contents (snd (transition schema_orm now ''u'' ROUTED no_metadata fresh_row)))"
  by (rule transition_keeps_trail [OF schema.database_axioms _ surjective_pairing])
    (simp add: fresh_row_def well_kept_def kept_txn_def trail_def fresh_db_def InitSchema_up_def demo_row_def)

text \<open>
  C17: Outside the placeholder configuration an endpoint acts on nothing that is not signed: a request whose
  signature is not the digest of its body (Stripe: of timestamp and body; PayU: of the fields) under the
  configured secret, or that has no signature, is rejected, and neither the tables nor the queue nor anything
  else of the node changes.
\<close>

theorem unsigned_webhook_ignored:
  assumes "webhook g w D C req s = (r, s')" and "\<not> unsigned_mode g (webhook_secret w g)"
    and "\<not> signed g w (str_text (webhook_secret w g)) req"
  shows "r = Inr (Rejected ''Signature verification failed'') \<and> s' = s"
  by (rule webhook_guarded [OF assms])

theorem unsigned_webhook_ignored_witness:
  "webhook RAZORPAY secret_world schema_orm mem_client demo_request after_create =
     (Inr (Rejected ''Signature verification failed''), after_create)"
proof -
  have mode: "\<not> unsigned_mode RAZORPAY (webhook_secret secret_world RAZORPAY)" by code_simp
  have unsigned: "\<not> signed RAZORPAY secret_world (str_text (webhook_secret secret_world RAZORPAY)) demo_request"
    by (simp add: demo_request_def)
  from unsigned_webhook_ignored [OF surjective_pairing mode unsigned] show ?thesis by (simp only: prod_eq_iff fst_conv snd_conv)
qed

text \<open>
  C18: A request the gateway signed itself is let in: with the digest of the message in hexadecimal where the
  gateway puts it, a call that returns answers received, the event's key is stored afterwards, and no gateway is
  charged. If the key was stored before, the request is a duplicate and changes nothing; otherwise one event is
  added, with the signature marked as verified, and its id is queued behind the waiting ones.
\<close>

theorem signed_webhook_recorded:
  assumes "backend D tabs C kv ls" and "webhook g w D C req s = (Inr reply, s')"
    and "genuine g w (str_text (webhook_secret w g)) mac req" "mac \<noteq> []" "list_all (\<lambda>b. b < 256) mac"
  shows "charges s' = charges s \<and>
    (if event_key_used (tabs (db s)) g (hook_eventId (event_of g (req_body req)))
     then reply = Received True \<and> tabs (db s') = tabs (db s) \<and> redis s' = redis s
     else reply = Received False \<and> (\<exists>e. event_stored (event_of g (req_body req)) (tabs (db s)) e (tabs (db s')) \<and>
       (eventRecordId e \<noteq> [] \<longrightarrow> waiting_in ls queueName (redis s') =
         (if isMockMode (redis s) then [eventRecordId e] else waiting_in ls queueName (redis s) @ [eventRecordId e]))))"
proof -
  let ?ev = "event_of g (req_body req)"
  from assms(2) obtain d x where run: "ingest D C ?ev s = (Inr (d, x), s')" and reply: "reply = Received d"
    by (auto simp: genuine_let_in [OF assms(3-5)] elim!: andThen_InrD)
  from backend.ingest_outcome [OF assms(1) run] show ?thesis
    by (auto simp: reply split: if_splits)
qed

theorem signed_webhook_recorded_witness:
  "\<exists>s'. webhook RAZORPAY secret_world schema_orm mem_client signed_request after_create = (Inr (Received False), s') \<and>
     map eventId (events (contents (db s'))) = [''evt_1''] \<and> waiting_in mem_lists queueName (redis s') \<noteq> []"
proof -
  have ok: "(case webhook RAZORPAY secret_world schema_orm mem_client signed_request after_create of
      (Inr reply, s') \<Rightarrow> map eventRecordId (events (contents (db s'))) = [''u''] | _ \<Rightarrow> False)"
    by code_simp
  then obtain reply s' where run: "webhook RAZORPAY secret_world schema_orm mem_client signed_request after_create = (Inr reply, s')"
    and ids: "map eventRecordId (events (contents (db s'))) = [''u'']"
    by (auto split: prod.splits sum.splits)
  have gen: "genuine RAZORPAY secret_world (str_text (webhook_secret secret_world RAZORPAY)) [0, 255] signed_request"
    by (simp add: signed_request_def secret_world_def test_world_def to_hex_def) code_simp
  have key: "hook_eventId (event_of RAZORPAY (req_body signed_request)) = ''evt_1''" by code_simp
  have unused: "\<not> event_key_used (contents (db after_create)) g k" for g k
    using after_create_no_events by (simp add: event_key_used_def)
  from signed_webhook_recorded [OF local.backend_axioms run gen] unused ids key run show ?thesis
    by (auto simp: event_stored_def event_row_def stored_event_def after_create_no_events split: if_splits)
qed



text \<open>
  C20: Ingestion stores an event once per gateway and event id. A known key is answered as a duplicate and changes
  nothing. A new one is stored unprocessed and its id appended to the queue (in the in-memory mode it replaces
  what the one slot held). If the call throws, either the database failed and nothing changed, or the event is
  stored although the push failed.
\<close>

theorem event_stored_once:
  assumes "backend D tabs C kv ls" and "ingest D C ev s = (r, s')"
  shows "charges s' = charges s \<and>
    (case r of
       Inr (duplicate, record) \<Rightarrow>
         if event_key_used (tabs (db s)) (hook_gateway ev) (hook_eventId ev)
         then duplicate \<and> record = None \<and> tabs (db s') = tabs (db s) \<and> redis s' = redis s
         else \<exists>e. \<not> duplicate \<and> record = Some e \<and> event_stored ev (tabs (db s)) e (tabs (db s')) \<and>
           (eventRecordId e \<noteq> [] \<longrightarrow> waiting_in ls queueName (redis s') =
             (if isMockMode (redis s) then [eventRecordId e] else waiting_in ls queueName (redis s) @ [eventRecordId e]))
     | Inl x \<Rightarrow> db_failure x \<and> tabs (db s') = tabs (db s) \<and> redis s' = redis s \<or>
         (\<exists>e. event_stored ev (tabs (db s)) e (tabs (db s'))))"
  by (rule backend.ingest_outcome [OF assms])

theorem event_stored_once_witness:
  "\<exists>s'. ingest schema_orm mem_client (event_of PAYU (req_body demo_request)) after_hook = (Inr (True, None), s') \<and>
     events (contents (db s')) = [demo_event]"
proof -
  have "(case ingest schema_orm mem_client (event_of PAYU (req_body demo_request)) after_hook of (Inr _, _) \<Rightarrow> True | _ \<Rightarrow> False)"
    by code_simp
  then obtain d x s' where run: "ingest schema_orm mem_client (event_of PAYU (req_body demo_request)) after_hook = (Inr (d, x), s')"
    by (auto split: prod.splits sum.splits)
  have "event_key_used (contents (db after_hook)) PAYU (hook_eventId (event_of PAYU (req_body demo_request)))"
    by (simp add: event_key_used_def after_hook_facts demo_event_def event_row_def stored_event_def)
  with event_stored_once [OF local.backend_axioms run] run after_hook_facts(1) show ?thesis by auto
qed

text \<open>
  C21: Processing an unprocessed event that is about exactly one payment leaves that payment RECONCILED with the
  reconciliation time set, unless it had FAILED, in which case it is untouched; the audit log gains exactly the
  missing entries of the path from the state it was found in; no other payment changes; no gateway is charged;
  and the event is marked as processed.
\<close>

theorem webhook_settles_payment:
  assumes "backend D tabs C kv ls" and "processEvent D clk i s = (Inr (), s')"
    and "distinct (map txnId (transactions (tabs (db s))))"
    and "event_by_id (tabs (db s)) i = Some e" "\<not> processed e"
    and "extractGatewayTxnId (eventGateway e) (payload e) = JStr x"
    and "t \<in> set (transactions (tabs (db s)))" "about e t"
    and "\<forall>r \<in> set (transactions (tabs (db s))). about e r \<longrightarrow> r = t"
  shows "\<exists>t'. t' = hooked clk (eventGateway e) (JStr x) t (updatedAt t') \<and>
    currentState t' = (if currentState t = FAILED then FAILED else RECONCILED) \<and>
    (\<forall>j. txn_by_id (tabs (db s')) j = (if j = txnId t then Some t' else txn_by_id (tabs (db s)) j)) \<and>
    logs (tabs (db s')) = (logs (tabs (db s)))(txnId t := logs (tabs (db s)) (txnId t) @
      hook_trail (txnId t) (eventGateway e) (JStr x) (payload e) (currentState t)) \<and>
    event_by_id (tabs (db s')) i = Some (mark_processed clk e) \<and> charges s' = charges s"
proof -
  from backend.processEvent_settles [OF assms] obtain u
    where u: "rows (tabs (db s')) = (rows (tabs (db s)))(txnId t \<mapsto> hooked clk (eventGateway e) (JStr x) t u)" by blast
  have "hooked clk (eventGateway e) (JStr x) t u =
      hooked clk (eventGateway e) (JStr x) t (updatedAt (hooked clk (eventGateway e) (JStr x) t u))"
    by (simp add: hooked_def)
  moreover have "currentState (hooked clk (eventGateway e) (JStr x) t u) = (if currentState t = FAILED then FAILED else RECONCILED)"
    using hooked_reconciled hooked_failed by simp
  ultimately show ?thesis
    using backend.processEvent_settles [OF assms] u
    by (intro exI [of _ "hooked clk (eventGateway e) (JStr x) t u"]) (simp add: rows_def fun_eq_iff)
qed

theorem webhook_settles_payment_witness:
  "\<exists>s' t'. processEvent schema_orm now ''u'' after_hook = (Inr (), s') \<and> txn_by_id (contents (db s')) ''u'' = Some t' \<and>
     currentState t' = RECONCILED \<and> finalReconciledAt t' = Some now"
proof -
  obtain s' where run: "processEvent schema_orm now ''u'' after_hook = (Inr (), s')" using demo_process by blast
  have ev: "event_by_id (contents (db after_hook)) ''u'' = Some demo_event" "\<not> processed demo_event"
    by (simp_all add: event_by_id_def after_hook_facts demo_event_def event_row_def stored_event_def)
  have gid: "extractGatewayTxnId (eventGateway demo_event) (payload demo_event) = JStr ''payu_mock_u''"
    by code_simp
  then have match: "about demo_event demo_row" by (simp add: about_def demo_row_def)
  from webhook_settles_payment [OF local.backend_axioms run _ ev gid, of demo_row] match
  obtain t' where t': "t' = hooked now (eventGateway demo_event) (JStr ''payu_mock_u'') demo_row (updatedAt t')"
    "txn_by_id (contents (db s')) ''u'' = Some t'"
    by (auto simp: after_hook_facts demo_row_def)
  have "currentState (hooked now g z demo_row u) = RECONCILED \<and> finalReconciledAt (hooked now g z demo_row u) = Some now" for g z u
    by (simp add: hooked_def demo_row_def)
  with t'(1) have "currentState t' = RECONCILED \<and> finalReconciledAt t' = Some now" by metis
  with run t'(2) show ?thesis by blast
qed

text \<open>
  C22: Processing an event a second time, whatever the clock and the environment say then, changes no table and
  charges nobody: once a call for it has returned, the event is marked and every later call stops there.
\<close>

theorem event_processed_once:
  assumes "backend D tabs C kv ls" and "processEvent D clk i s = (Inr (), s1)"
    and "distinct (map txnId (transactions (tabs (db s))))" and "processEvent D clk' i s1 = (r, s2)"
  shows "tabs (db s2) = tabs (db s1) \<and> charges s2 = charges s1"
  by (rule backend.processEvent_again [OF assms])

theorem event_processed_once_witness:
  "\<exists>s1. processEvent schema_orm now ''u'' after_hook = (Inr (), s1) \<and>
     contents (db (snd (processEvent schema_orm ''later'' ''u'' s1))) = contents (db s1)"
proof -
  obtain s1 where run: "processEvent schema_orm now ''u'' after_hook = (Inr (), s1)" using demo_process by blast
  with event_processed_once [OF local.backend_axioms run _ surjective_pairing] show ?thesis
    by (auto simp: after_hook_facts)
qed

text \<open>
  C23: The endpoints, the queue and the worker together: when the gateway's webhook for a payment is answered as
  received (not a duplicate) with an empty queue, and database and Redis stay up, then one iteration of the
  worker returns, leaves the queue empty and drives the payment to RECONCILED from any state except FAILED,
  which it leaves alone; every other payment is untouched, and no gateway is charged.
\<close>

theorem payment_reconciled_end_to_end:
  assumes "backend D tabs C kv ls" and "healthy D tabs P" "succeeds K (client_brpop C queueName 2)"
    and "webhook g w D C req s = (Inr (Received False), s1)" and "waiting_in ls queueName (redis s) = []"
    and "\<forall>e \<in> set (events (tabs (db s1))). eventRecordId e \<noteq> []" and "P (db s1)" "K (client (redis s1))"
    and "distinct (map txnId (transactions (tabs (db s))))"
    and "extractGatewayTxnId g (req_body req) = JStr x"
    and "t \<in> set (transactions (tabs (db s)))" "matches x (req_body req) t"
    and "\<forall>r \<in> set (transactions (tabs (db s))). matches x (req_body req) r \<longrightarrow> r = t"
  shows "\<exists>s2 t'. poll_once D C clk s1 = (Inr (), s2) \<and> waiting_in ls queueName (redis s2) = [] \<and>
    (\<forall>j. txn_by_id (tabs (db s2)) j = (if j = txnId t then Some t' else txn_by_id (tabs (db s)) j)) \<and>
    currentState t' = (if currentState t = FAILED then FAILED else RECONCILED) \<and> amount t' = amount t \<and>
    charges s2 = charges s"
proof -
  from backend.webhook_then_worker [OF assms] obtain s2 u where
    "poll_once D C clk s1 = (Inr (), s2)" "waiting_in ls queueName (redis s2) = []" "charges s2 = charges s"
    "rows (tabs (db s2)) = (rows (tabs (db s)))(txnId t \<mapsto> hooked clk g (JStr x) t u)" by blast
  moreover have "currentState (hooked clk g (JStr x) t u) = (if currentState t = FAILED then FAILED else RECONCILED)"
    using hooked_reconciled hooked_failed by simp
  moreover have "amount (hooked clk g (JStr x) t u) = amount t" by (simp add: hooked_def)
  ultimately show ?thesis by (auto simp: rows_def fun_eq_iff)
qed

theorem payment_reconciled_end_to_end_witness:
  "\<exists>s2 t'. poll_once schema_orm mem_client now after_hook = (Inr (), s2) \<and>
     txn_by_id (contents (db s2)) ''u'' = Some t' \<and> currentState t' = RECONCILED"
proof -
  have gid: "extractGatewayTxnId PAYU (req_body demo_request) = JStr ''payu_mock_u''" by code_simp
  have match: "matches ''payu_mock_u'' (req_body demo_request) demo_row" by (simp add: matches_def demo_row_def)
  from payment_reconciled_end_to_end [where clk = now, OF local.backend_axioms schema_healthy mem_brpop_succeeds demo_hook_run
      after_create_queue _ after_hook_facts(4,5) _ gid _ match]
  show ?thesis
    by (force simp: after_hook_facts after_create_facts demo_event_def event_row_def demo_row_def)
qed

text \<open>
  C24: A healthy worker falls behind nobody: if the database and the queue answer, as many iterations as there are
  waiting ids all return, leave the queue empty, and every event that was waiting, like every event that was
  processed before, is processed then.
\<close>

theorem worker_empties_queue:
  assumes "backend D tabs C kv ls" and "healthy D tabs P" "succeeds K (client_brpop C queueName 2)"
    and "P (db s)" "K (client (redis s))" "sound_ledger (tabs (db s))"
    and "length (waiting_in ls queueName (redis s)) \<le> n"
  shows "\<exists>s'. pollQueue n D C clk s = (Inr (), s') \<and> waiting_in ls queueName (redis s') = [] \<and>
    (\<forall>j. handled (tabs (db s)) j \<or> j \<in> set (waiting_in ls queueName (redis s)) \<longrightarrow> handled (tabs (db s')) j)"
  by (rule backend.pollQueue_drains [OF assms])

theorem worker_empties_queue_witness:
  "\<exists>s'. pollQueue 3 schema_orm mem_client now after_hook = (Inr (), s') \<and>
     waiting_in mem_lists queueName (redis s') = [] \<and> handled (contents (db s')) ''u''"
proof -
  have "sound_ledger (contents (db after_hook))"
    by (rule ledger_run_sound [OF after_hook_ledger sandbox_sound])
  from worker_empties_queue [OF local.backend_axioms schema_healthy mem_brpop_succeeds after_hook_facts(4,5) this,
      of 3 now] show ?thesis
    by (auto simp: after_hook_facts)
qed

text \<open>
  C25: Once onModuleDestroy has been called, the worker stops: it has at most three steps left, each of its steps uses
  one up, it can always take one until the call has returned and none afterwards. An iteration that was under
  way runs to its end, with the event it took, and no other begins.
\<close>

theorem shutdown_completes:
  assumes "reaches D C (new_worker, s0) (w, s)" and "destroying w \<noteq> NotCalled"
  shows "steps_left w \<le> 3 \<and> (destroying w = Returned \<longleftrightarrow> \<not> (\<exists>w' s'. worker_step D C (w, s) (w', s'))) \<and>
    (\<forall>w' s'. worker_step D C (w, s) (w', s') \<longrightarrow> steps_left w' < steps_left w \<and> destroying w' \<noteq> NotCalled) \<and>
    (destroying w = Awaiting \<longrightarrow> (\<exists>w' s'. (worker_step D C)\<^sup>*\<^sup>* (w, s) (w', s') \<and> destroying w' = Returned \<and>
      (s' = s \<or> workerPromise w = Some InIteration \<and> poll_once D C clk s = (Inr (), s'))))"
proof -
  have inv: "worker_inv w" by (rule reaches_inv [OF assms(1) worker_inv_new])
  have "steps_left w \<le> 3" by (simp split: shutdown.split option.split loop.split)
  moreover have "destroying w = Returned \<or> destroying w = Awaiting" using assms(2) shutdown.exhaust by blast
  ultimately show ?thesis
    using shutdown_over [OF inv] shutdown_proceeds [of w D C s] shutdown_decreases [OF _ inv] worker_finishes [OF inv]
    by (elim disjE) (fastforce simp del: steps_left.simps)+
qed

theorem shutdown_completes_witness:
  "\<exists>w' s'. (worker_step schema_orm mem_client)\<^sup>*\<^sup>* (stopping_worker, after_hook) (w', s') \<and> destroying w' = Returned \<and>
     steps_left stopping_worker \<le> 3"
  using shutdown_completes [OF stopping_reached] by (simp add: stopping_worker_def) blast

text \<open>
  C26: The price of that: an event whose processing throws is lost to the worker. Its id has been taken off the
  queue before, the iteration returns normally, and the id is not put back.
\<close>

theorem failed_event_dropped:
  assumes "backend D tabs C kv ls" and "getClient_brpop C queueName 2 (redis s) = (Inr (Some (q, i)), c)"
    and "processEvent D clk i (s\<lparr>redis := c\<rparr>) = (Inl e, s')"
  shows "poll_once D C clk s = (Inr (), s') \<and>
    waiting_in ls queueName (redis s) = i # waiting_in ls queueName (redis s')"
  by (rule backend.poll_once_drops [OF assms])

theorem failed_event_dropped_witness:
  "\<exists>s'. poll_once schema_orm mem_client now broken_node = (Inr (), s') \<and> waiting_in mem_lists queueName (redis s') = [] \<and>
     waiting_in mem_lists queueName (redis broken_node) = [''u''] \<and> events (contents (db s')) = [demo_event]"
proof -
  obtain q c e s' where pop: "getClient_brpop mem_client queueName 2 (redis broken_node) = (Inr (Some (q, ''u'')), c)"
    and run: "processEvent schema_orm now ''u'' (broken_node\<lparr>redis := c\<rparr>) = (Inl e, s')"
    and ev: "events (contents (db s')) = [demo_event]"
    using broken_run by blast
  from failed_event_dropped [OF local.backend_axioms pop run] ev show ?thesis
    by (simp add: broken_node_def after_hook_facts)
qed

text \<open>
  C27: A redelivered event is a duplicate for ever: once a call for an event has returned, then whatever requests,
  webhooks and worker iterations come in between, a later call with the same gateway and event id that returns is
  answered as a duplicate and changes no table, nothing in Redis and no charge.
\<close>

theorem redelivered_event_ignored:
  assumes "backend D tabs C kv ls" and "sound_ledger (tabs (db s))" and "ingest D C ev s = (Inr x, s1)"
    and "(serves D C)\<^sup>*\<^sup>* s1 s2" and "ingest D C ev' s2 = (Inr (duplicate, record), s3)"
    and "hook_gateway ev' = hook_gateway ev" "hook_eventId ev' = hook_eventId ev"
  shows "duplicate \<and> record = None \<and> tabs (db s3) = tabs (db s2) \<and> redis s3 = redis s2 \<and> charges s3 = charges s2"
  by (rule backend.ingest_redelivered [OF assms])

theorem redelivered_event_ignored_witness:
  "\<exists>s1 s3. ingest schema_orm mem_client (event_of PAYU (req_body demo_request)) after_create = (Inr (False, Some demo_event), s1) \<and>
     ingest schema_orm mem_client (event_of PAYU (req_body demo_request)) s1 = (Inr (True, None), s3) \<and>
     contents (db s3) = contents (db s1)"
proof -
  obtain s1 d x s3 where one: "ingest schema_orm mem_client (event_of PAYU (req_body demo_request)) after_create = (Inr (False, Some demo_event), s1)"
    and two: "ingest schema_orm mem_client (event_of PAYU (req_body demo_request)) s1 = (Inr (d, x), s3)"
    using demo_ingest_twice by blast
  from redelivered_event_ignored [OF local.backend_axioms after_create_sound one rtranclp.rtrancl_refl two refl refl] one two
  show ?thesis by auto
qed



text \<open>
  C29: The two sorts with floating-point comparators are stable sorts by the exact keys: the ranking of the scored
  candidates is the list of the gateways that are not OPEN by descending score, or, when all are OPEN, of all of
  them by ascending cost; ties keep the order of the rows, and the score -1 of an OPEN gateway never mixes with
  a real score.
\<close>

theorem ranking_is_stable_sort: "rank_candidates (map (score_candidate amt) sts) = ranking amt sts"
  by (rule rank_candidates_ranking)

text \<open>
  C30: In IEEE double arithmetic, with its rounding of every operation, the score of a gateway with a non-negative
  cost lies between 0 and 1 for every amount, every count of successes and failures and every latency.
\<close>

theorem score_between_zero_and_one:
  assumes "0 \<le> costBps st"
  shows "0 \<le> score amt st \<and> score amt st \<le> 1"
  using score_nonneg score_le_one [OF assms] by blast

theorem score_between_zero_and_one_witness: "score 10099 (seed_stats UPI 50) \<le> 1"
  using score_between_zero_and_one [of "seed_stats UPI 50" 10099] by (simp add: seed_stats_def)





text \<open>
  C33: Two requests cannot both hold the idempotency lock: after one set with NX succeeded, a second one for the
  same key is refused, as long as the first entry has not expired or been deleted and the service has not fallen
  back to its in-memory store in between.
\<close>

theorem lock_is_exclusive:
  assumes "redis_server C kv ls"
    and "redis_set C k v (Some NX) (Some dm) (Some n) s = (Inr True, s1)"
    and "redis_set C k v' (Some NX) (Some dm') (Some n') s1 = (Inr b, s2)" "isMockMode s2 = isMockMode s"
  shows "\<not> b"
  by (rule redis_server.redis_set_exclusive [OF assms])

theorem lock_is_exclusive_witness:
  "\<not> (case redis_set mem_client ''k'' ''b'' (Some NX) (Some EX_seconds) (Some 10)
      (snd (redis_set mem_client ''k'' ''a'' (Some NX) (Some EX_seconds) (Some 10) fresh_redis)) of (Inr b, _) \<Rightarrow> b | _ \<Rightarrow> False)"
proof -
  let ?s1 = "snd (redis_set mem_client ''k'' ''a'' (Some NX) (Some EX_seconds) (Some 10) fresh_redis)"
  have one: "redis_set mem_client ''k'' ''a'' (Some NX) (Some EX_seconds) (Some 10) fresh_redis = (Inr True, ?s1)"
    by (simp add: prod_eq_iff) code_simp
  have mode: "isMockMode (snd (redis_set mem_client ''k'' ''b'' (Some NX) (Some EX_seconds) (Some 10) ?s1)) = isMockMode fresh_redis"
    by code_simp
  show ?thesis
    using lock_is_exclusive [OF mem.redis_server_axioms one, of "''b''" EX_seconds 10] mode
    by (auto split: prod.split sum.split)
qed

text \<open>
  C34: Whatever the environment, the network and the gateway's answer are, the adapters return a response of the
  declared shape: an error exactly with a failure, never a gateway id with a failure, and only ids that can be
  cached as JSON.
\<close>

theorem adapter_response_sound: "sound_response (snd (adapter_charge w g r))"
  by (rule sound_adapter_charge)



text \<open>
  C36: The validation pipe admits exactly the bodies of a payment request: an optional or null key that is a string, a
  non-empty merchant, an amount that is a positive integer as JavaScript reads the number, and a currency of three
  characters. The handler is given these values, the amount as a positive natural number; any other body is
  answered with the decorators it violates, and changes nothing. No decorator bounds the amount from above.
\<close>

theorem body_validation_sound:
  assumes "documented_validator V"
  shows "case validated V b of
      Inl vs \<Rightarrow> vs \<noteq> [] \<and> post_body V w D C b headerKey s = (Inr (Inl vs), s) \<and>
        \<not> ((map_of b ''idempotencyKey'' = None \<or> map_of b ''idempotencyKey'' = Some JNull \<or> (\<exists>k. map_of b ''idempotencyKey'' = Some (JStr k))) \<and>
          (\<exists>m. map_of b ''merchantId'' = Some (JStr m) \<and> m \<noteq> []) \<and>
          (\<exists>t n. map_of b ''amount'' = Some (JNum t) \<and> string_number t = Finite (of_nat n) \<and> 0 < n) \<and>
          (\<exists>c. map_of b ''currency'' = Some (JStr c) \<and> length c = 3))
    | Inr dto \<Rightarrow> (\<exists>t. map_of b ''amount'' = Some (JNum t) \<and> string_number t = Finite (of_nat (dto_amount dto)) \<and> 0 < dto_amount dto) \<and>
        map_of b ''merchantId'' = Some (JStr (dto_merchantId dto)) \<and> dto_merchantId dto \<noteq> [] \<and>
        map_of b ''currency'' = Some (JStr (dto_currency dto)) \<and> length (dto_currency dto) = 3 \<and>
        dto_idempotencyKey dto = text_of (map_of b ''idempotencyKey'')"
proof (cases "validated V b")
  case (Inl vs)
  then have "violations V b = vs" "vs \<noteq> []" by (auto simp: validated_def split: if_splits)
  with Inl documented_validator.refused_body [OF assms, of b] documented_validator.accepted_iff [OF assms, of b]
  show ?thesis by simp
next
  case (Inr dto)
  from documented_validator.validated_dto [OF assms Inr] show ?thesis unfolding Inr sum.case by blast
qed

theorem body_validation_sound_witness:
  "string_number ''10099'' = Finite (of_nat (dto_amount demo_dto)) \<and> length (dto_currency demo_dto) = 3 \<and>
   0 < dto_amount (dto_of_body huge_body) \<and>
   post_body validator_rules test_world schema_orm mem_client bad_body None sandbox =
     (Inr (Inl [(''merchantId'', IsString), (''merchantId'', IsNotEmpty), (''amount'', IsInt), (''amount'', IsPositive),
       (''currency'', IsString), (''currency'', Length 3 3)]), sandbox)"
proof -
  note at = body_validation_sound [OF rules.documented_validator_axioms, where w = test_world and D = schema_orm
      and C = mem_client and headerKey = None and s = sandbox]
  from at [of demo_body] have "string_number ''10099'' = Finite (of_nat (dto_amount demo_dto)) \<and> length (dto_currency demo_dto) = 3"
    unfolding demo_validated sum.case by (auto simp: demo_body_def)
  moreover from at [of huge_body] have "0 < dto_amount (dto_of_body huge_body)" unfolding huge_validated sum.case by blast
  moreover from at [of bad_body] have "post_body validator_rules test_world schema_orm mem_client bad_body None sandbox =
     (Inr (Inl [(''merchantId'', IsString), (''merchantId'', IsNotEmpty), (''amount'', IsInt), (''amount'', IsPositive),
       (''currency'', IsString), (''currency'', Length 3 3)]), sandbox)"
    unfolding bad_validated sum.case by blast
  ultimately show ?thesis by blast
qed

text \<open>
  C37: What the service caches for a completed payment is read back as it was written: the JSON text of the row
  parses to the same value, however the strings in it are escaped, and a request that finds the text answers with
  exactly the row's JSON.
\<close>

theorem cached_answer_roundtrip:
  assumes "wf_json (gatewayTxnId t)"
  shows "JSON_parse (JSON_stringify (completed_json t)) = Some (completed_json t) \<and>
    cached_answer w (Some (JSON_stringify (completed_json t))) = Inr (Some (Cached (Some (txn_json t))))"
  using cached_answer_completed [OF assms] JSON_parse_stringify [of "completed_json t"] wf_txn_json [OF assms]
  by (simp add: completed_json_def)

theorem cached_answer_roundtrip_witness:
  "cached_answer test_world (Some (JSON_stringify (completed_json (demo_row\<lparr>merchantId := [CHR 0x22, CHR 0x0A]\<rparr>)))) =
     Inr (Some (Cached (Some (txn_json (demo_row\<lparr>merchantId := [CHR 0x22, CHR 0x0A]\<rparr>)))))"
  using cached_answer_roundtrip [of "demo_row\<lparr>merchantId := [CHR 0x22, CHR 0x0A]\<rparr>" test_world] by (simp add: demo_row_def)



text \<open>
  C39: The migration can be undone: on any consistent database that has none of its names, up runs to its end, and
  down takes the result back to the database that was there before, its other tables, types, indexes and rows
  included. Only the extension pgcrypto stays.
\<close>

theorem migration_reversible:
  assumes "free_for_migration f"
  shows "\<exists>c. run_migration migration_up f = Inr c \<and>
    run_migration migration_down c = Inr (f\<lparr>extensions := insert ''pgcrypto'' (extensions f)\<rparr>)"
  using up_beside [OF assms] down_beside [OF assms] by blast

theorem migration_reversible_witness:
  "\<exists>c. run_migration migration_up other_catalog = Inr c \<and>
     run_migration migration_down c = Inr (other_catalog\<lparr>extensions := {''pgcrypto'', ''citext''}\<rparr>)"
  using migration_reversible [OF other_catalog_free] by (simp add: other_catalog_def)


end
